(* ===== verification/Prelude.thy ===== *)
theory Prelude
  imports Main "HOL-Library.Word" "HOL-Library.Multiset"
begin

text \<open>
  Shared vocabulary of the development: the machine types of the kernel, the ways a Rust call can
  fail to return normally, indexed array access with its bounds check, saturating arithmetic, and
  the generic lemmas on lists, words and transition systems that the component theories use.

  The kernel is built with \<open>--release\<close>, so \<open>+\<close>, \<open>-\<close> and \<open>*\<close> on \<open>u32\<close>, \<open>u64\<close> and \<open>usize\<close>
  wrap around, as they do on \<open>'w word\<close>; slice and array indexing keeps its bounds check and panics.
\<close>

unbundle bit_operations_syntax

section \<open>Machine types and faults\<close>

type_synonym u8 = "8 word"
type_synonym u32 = "32 word"
type_synonym u64 = "64 word"

text \<open>
  The targets are 64-bit: \<open>usize\<close> is 64 bits wide. A \<open>usize\<close> that holds an address or comes out of
  a register is a \<open>u64\<close>; one that only ever indexes a fixed-size array is a \<open>nat\<close>.
\<close>

type_synonym usize = "64 word"

text \<open>
  A call that does not return normally: an index or slice outside its array, an \<open>expect\<close> or
  \<open>panic!\<close>, or a deliberate endless \<open>wfe\<close> loop. The panic handler of the kernel is itself a \<open>wfe\<close>
  loop, so all of them stop the CPU that hits them.
\<close>

datatype fault = Index_Panic | Slice_Panic | Expect_Panic | Wild_Access | Halt_Loop

type_synonym 'a res = "fault + 'a"

fun and_then :: "'a res \<Rightarrow> ('a \<Rightarrow> 'b res) \<Rightarrow> 'b res" where
  "and_then (Inl e) f = Inl e"
| "and_then (Inr x) f = f x"

definition arr_get :: "'a list \<Rightarrow> nat \<Rightarrow> 'a res" where
  "arr_get xs i = (if i < length xs then Inr (xs ! i) else Inl Index_Panic)"

definition arr_set :: "'a list \<Rightarrow> nat \<Rightarrow> 'a \<Rightarrow> 'a list res" where
  "arr_set xs i v = (if i < length xs then Inr (xs[i := v]) else Inl Index_Panic)"

text \<open>\<open>u64::saturating_add\<close>, \<open>u64::saturating_sub\<close>, and \<open>u64::MAX\<close>, of the core library.\<close>

definition u64_max :: u64 where
  "u64_max = - 1"

definition saturating_add :: "u64 \<Rightarrow> u64 \<Rightarrow> u64" where
  "saturating_add a b = (if a + b < a then u64_max else a + b)"

definition saturating_sub :: "u64 \<Rightarrow> u64 \<Rightarrow> u64" where
  "saturating_sub a b = (if a < b then 0 else a - b)"

section \<open>Bytes\<close>

text \<open>
  Memory as the kernel's raw pointers see it, a byte per address. \<open>raw_slice\<close> is
  \<open>slice::from_raw_parts\<close>, \<open>sub_slice\<close> the checked range index \<open>&buf[a..b]\<close>, and \<open>bytes_of\<close> a byte
  string literal.
\<close>

type_synonym memory = "usize \<Rightarrow> u8"

definition raw_slice :: "memory \<Rightarrow> usize \<Rightarrow> nat \<Rightarrow> u8 list" where
  "raw_slice m a n = map (\<lambda>i. m (a + of_nat i)) [0..<n]"

definition sub_slice :: "'a list \<Rightarrow> nat \<Rightarrow> nat \<Rightarrow> 'a list res" where
  "sub_slice xs a b = (if a \<le> b \<and> b \<le> length xs then Inr (take (b - a) (drop a xs)) else Inl Slice_Panic)"

definition bytes_of :: "string \<Rightarrow> u8 list" where
  "bytes_of s = map of_char s"

section \<open>Collections of facts\<close>

named_theorems res_simps \<open>the fault monad and checked array access\<close>
named_theorems layout_simps \<open>alignment and address arithmetic\<close>
named_theorems inv_intros \<open>an operation keeps its component's invariant\<close>

lemma and_then_eq_Inr [res_simps]:
  "and_then m f = Inr y \<longleftrightarrow> (\<exists>x. m = Inr x \<and> f x = Inr y)"
  by (cases m) auto

lemma and_then_eq_Inl:
  "and_then m f = Inl e \<longleftrightarrow> m = Inl e \<or> (\<exists>x. m = Inr x \<and> f x = Inl e)"
  by (cases m) auto

lemma and_then_cong [fundef_cong]:
  "m = m' \<Longrightarrow> (\<And>x. m' = Inr x \<Longrightarrow> f x = f' x) \<Longrightarrow> and_then m f = and_then m' f'"
  by (cases m') auto

lemma sub_slice_ok [simp]: "a \<le> b \<Longrightarrow> b \<le> length xs \<Longrightarrow> sub_slice xs a b = Inr (take (b - a) (drop a xs))"
  by (simp add: sub_slice_def)

lemma sub_slice_eq_Inr [res_simps]:
  "sub_slice xs a b = Inr ys \<longleftrightarrow> a \<le> b \<and> b \<le> length xs \<and> ys = take (b - a) (drop a xs)"
  by (auto simp: sub_slice_def)

lemma length_raw_slice [simp]: "length (raw_slice m a n) = n"
  by (simp add: raw_slice_def)

lemma arr_get_ok [simp]: "i < length xs \<Longrightarrow> arr_get xs i = Inr (xs ! i)"
  by (simp add: arr_get_def)

lemma arr_set_ok [simp]: "i < length xs \<Longrightarrow> arr_set xs i v = Inr (xs[i := v])"
  by (simp add: arr_set_def)

lemma arr_get_eq_Inr [res_simps]:
  "arr_get xs i = Inr v \<longleftrightarrow> i < length xs \<and> v = xs ! i"
  by (auto simp: arr_get_def)

lemma arr_set_eq_Inr [res_simps]:
  "arr_set xs i v = Inr ys \<longleftrightarrow> i < length xs \<and> ys = xs[i := v]"
  by (auto simp: arr_set_def)

section \<open>Lists\<close>

lemma sorted_hd_le: "sorted xs \<Longrightarrow> x \<in> set xs \<Longrightarrow> hd xs \<le> x"
  by (cases xs) auto

lemma take_take_append: "take m (take m xs @ ys) = take m (xs @ ys)"
  by (cases "length xs \<le> m") simp_all

section \<open>Words\<close>

lemma unat_u64_less [simp]: "unat (a :: u64) < 2 ^ 64"
  using unsigned_less [of a, where ?'a = nat] by simp

lemma unat_u64_le: "unat (a :: u64) \<le> 2 ^ 64 - 1"
  using unat_u64_less [of a] by simp

lemma unat_pow2_u64: "k < 64 \<Longrightarrow> unat (2 ^ k :: u64) = 2 ^ k"
  using unat_of_nat [of "2 ^ k", where ?'a = 64] power_strict_increasing [of k 64 "2 :: nat"] by simp

lemma le_u64_max [simp]: "a \<le> u64_max"
  by (simp add: u64_max_def)

lemma unat_u64_max: "unat u64_max = 2 ^ 64 - 1"
  by (simp add: u64_max_def unsigned_minus_1_eq_mask mask_eq_exp_minus_1)

lemma unat_eq_u64_max: "unat a = 2 ^ 64 - 1 \<longleftrightarrow> a = u64_max"
  by (metis unat_u64_max word_unat_eq_iff)

lemma unat_saturating_add:
  "unat (saturating_add a b) = min (unat a + unat b) (2 ^ 64 - 1)"
proof -
  note a = unat_u64_less [of a] and b = unat_u64_less [of b]
  have sum: "unat (a + b) = (unat a + unat b) mod 2 ^ 64"
    by (simp add: unat_word_ariths)
  show ?thesis
  proof (cases "unat a + unat b < 2 ^ 64")
    case True
    with sum have "unat (a + b) = unat a + unat b" by simp
    moreover from this have "\<not> a + b < a" by (simp add: word_less_nat_alt)
    ultimately show ?thesis using True by (simp add: saturating_add_def)
  next
    case False
    with a b sum have "unat (a + b) = unat a + unat b - 2 ^ 64"
      by (simp add: le_mod_geq)
    with False a b have "a + b < a" by (simp add: word_less_nat_alt)
    with False show ?thesis by (simp add: saturating_add_def unat_u64_max)
  qed
qed

lemma saturating_add_ge: "a \<le> saturating_add a b"
  using unat_u64_le [of a] by (simp add: word_le_nat_alt unat_saturating_add)

lemma saturating_add_gt: "b \<noteq> 0 \<Longrightarrow> a \<noteq> u64_max \<Longrightarrow> a < saturating_add a b"
proof -
  assume "b \<noteq> 0" and "a \<noteq> u64_max"
  then have "0 < unat b" and "unat a \<noteq> 2 ^ 64 - 1"
    by (simp_all only: unat_gt_0 unat_eq_u64_max not_False_eq_True)
  with unat_u64_le [of a] show ?thesis
    by (simp add: word_less_nat_alt unat_saturating_add)
qed

lemma unat_saturating_sub: "unat (saturating_sub a b) = unat a - unat b"
  by (simp add: saturating_sub_def word_less_nat_alt unat_sub word_le_nat_alt not_less)

lemma saturating_sub_eq_0 [simp]: "saturating_sub a b = 0 \<longleftrightarrow> a \<le> b"
  by (auto simp: saturating_sub_def)

section \<open>Transition systems\<close>

text \<open>
  A component whose operations interleave is an initial-state predicate and a step relation; a
  safety property is an invariant of it. The locale is interpreted by every component that is
  presented as a state machine.
\<close>

inductive reachable :: "('s \<Rightarrow> bool) \<Rightarrow> ('s \<Rightarrow> 's \<Rightarrow> bool) \<Rightarrow> 's \<Rightarrow> bool"
  for init :: "'s \<Rightarrow> bool" and step :: "'s \<Rightarrow> 's \<Rightarrow> bool" where
  reachable_init: "init s \<Longrightarrow> reachable init step s"
| reachable_step: "reachable init step s \<Longrightarrow> step s t \<Longrightarrow> reachable init step t"

locale invariant_system =
  fixes init :: "'s \<Rightarrow> bool" and step :: "'s \<Rightarrow> 's \<Rightarrow> bool" and inv :: "'s \<Rightarrow> bool"
  assumes inv_init: "init s \<Longrightarrow> inv s"
    and inv_step: "step s t \<Longrightarrow> inv s \<Longrightarrow> inv t"
begin

lemma reachable_inv: "reachable init step s \<Longrightarrow> inv s"
  by (induction rule: reachable.induct) (auto intro: inv_init inv_step)

lemma steps_inv: "step\<^sup>*\<^sup>* s t \<Longrightarrow> inv s \<Longrightarrow> inv t"
  by (induction rule: rtranclp_induct) (auto intro: inv_step)

end

end
