(* ===== verification/Layout.thy ===== *)
theory Layout
  imports Prelude
begin

text \<open>
  \<open>src/mm/layout.rs\<close>: the page size, the physical and virtual bases of the kernel, the alignment
  helpers every memory component uses, and the translation between a physical address and its
  alias in the higher-half direct map. All four helpers are \<open>u64\<close> arithmetic that wraps.
\<close>

section \<open>Definitions\<close>

definition PAGE_SIZE :: u64 where
  "PAGE_SIZE = 4096"

definition KERNEL_PHYS_BASE :: u64 where
  "KERNEL_PHYS_BASE = 0x80000"

definition KERNEL_VIRT_BASE :: u64 where
  "KERNEL_VIRT_BASE = 0xFFFF800000000000"

definition PHYS_MAP_BASE :: u64 where
  "PHYS_MAP_BASE = KERNEL_VIRT_BASE"

definition align_up :: "u64 \<Rightarrow> u64 \<Rightarrow> u64" where
  "align_up value align = (value + align - 1) AND NOT (align - 1)"

definition align_down :: "u64 \<Rightarrow> u64 \<Rightarrow> u64" where
  "align_down value align = value AND NOT (align - 1)"

definition phys_to_virt :: "u64 \<Rightarrow> usize" where
  "phys_to_virt paddr = paddr + PHYS_MAP_BASE"

definition virt_to_phys :: "usize \<Rightarrow> u64" where
  "virt_to_phys vaddr = vaddr - PHYS_MAP_BASE"

section \<open>Alignment to a power of two\<close>

lemma and_not_mask_eq: "(v :: u64) AND NOT (mask k) = push_bit k (drop_bit k v)"
  by (rule bit_eqI) (auto simp: bit_simps)

lemma unat_and_not_mask: "unat ((v :: u64) AND NOT (mask k)) = unat v div 2 ^ k * 2 ^ k"
proof -
  have "unat v div 2 ^ k * 2 ^ k \<le> unat v" by simp
  also have "\<dots> < 2 ^ 64" by (rule unat_u64_less)
  finally have "push_bit k (drop_bit k (unat v)) < 2 ^ 64"
    by (simp add: push_bit_eq_mult drop_bit_eq_div)
  moreover have "unat (drop_bit k v) = drop_bit k (unat v)"
    by (rule unat_drop_bit_eq)
  ultimately have "unat (push_bit k (drop_bit k v)) = push_bit k (drop_bit k (unat v))"
    unfolding unsigned_push_bit_eq by (simp add: take_bit_nat_eq_self_iff)
  then show ?thesis
    by (simp only: and_not_mask_eq push_bit_eq_mult drop_bit_eq_div)
qed

lemma unat_mask_u64: "k \<le> 64 \<Longrightarrow> unat (mask k :: u64) = 2 ^ k - 1"
proof -
  assume k: "k \<le> 64"
  have "unat (mask k :: u64) = unat (take_bit k (- 1 :: u64))"
    by (simp only: take_bit_minus_one_eq_mask)
  also have "\<dots> = take_bit k (mask 64)"
    by (simp only: unsigned_take_bit_eq unsigned_minus_1_eq_mask) simp
  also have "\<dots> = mask k" using k by (simp only: take_bit_of_mask min.absorb1)
  finally show ?thesis by (simp only: mask_eq_exp_minus_1)
qed

lemma unat_align_down_pow2:
  "unat (align_down v (2 ^ k)) = unat v div 2 ^ k * 2 ^ k"
  using unat_and_not_mask [of v k] by (simp add: align_down_def mask_eq_decr_exp)

lemma align_up_mask: "align_up v (2 ^ k) = (v + mask k) AND NOT (mask k)"
  by (simp add: align_up_def mask_eq_decr_exp algebra_simps)

lemma unat_align_up_pow2:
  assumes "k \<le> 64" and "unat v + (2 ^ k - 1) < 2 ^ 64"
  shows "unat (align_up v (2 ^ k)) = (unat v + (2 ^ k - 1)) div 2 ^ k * 2 ^ k"
proof -
  have "unat (v + mask k) = unat v + (2 ^ k - 1)"
    unfolding unat_word_ariths unat_mask_u64 [OF assms(1)] using assms(2) by simp
  then show ?thesis
    using unat_and_not_mask [of "v + mask k" k] by (simp add: align_up_mask)
qed

text \<open>
  Past the last multiple of the alignment the addition wraps and the result is \<open>0\<close>, not an
  address above \<open>v\<close>.
\<close>

lemma align_up_wraps:
  assumes "k \<le> 64" and "2 ^ 64 \<le> unat v + (2 ^ k - 1)"
  shows "align_up v (2 ^ k) = 0"
proof -
  have "unat v + (2 ^ k - 1) - 2 ^ 64 < 2 ^ k"
    using unat_u64_less [of v] zero_less_power [of "2 :: nat" k] by linarith
  moreover have "unat v + (2 ^ k - 1) < 2 * 2 ^ 64"
    using unat_u64_less [of v] power_increasing [OF assms(1), of "2 :: nat"] by linarith
  then have "unat (v + mask k) = unat v + (2 ^ k - 1) - 2 ^ 64"
    unfolding unat_word_ariths unat_mask_u64 [OF assms(1)] using assms(2) by (simp add: le_mod_geq)
  ultimately have "unat (align_up v (2 ^ k)) = 0"
    using unat_and_not_mask [of "v + mask k" k] by (simp add: align_up_mask)
  then show ?thesis by (simp add: unat_eq_0)
qed

lemma align_up_ge:
  assumes "k \<le> 64" and "unat v + (2 ^ k - 1) < 2 ^ 64"
  shows "v \<le> align_up v (2 ^ k)"
proof -
  let ?n = "unat v + (2 ^ k - 1)"
  have "?n mod 2 ^ k \<le> 2 ^ k - 1" by (simp add: less_Suc_eq_le [symmetric])
  then have "unat v \<le> ?n - ?n mod 2 ^ k" by linarith
  then show ?thesis
    using assms by (simp add: word_le_nat_alt unat_align_up_pow2 minus_mod_eq_div_mult)
qed

lemma align_up_least:
  assumes "k \<le> 64" and "unat v + (2 ^ k - 1) < 2 ^ 64" and "v \<le> w" and "2 ^ k dvd unat w"
  shows "align_up v (2 ^ k) \<le> w"
proof -
  obtain m where m: "unat w = 2 ^ k * m" using assms(4) by blast
  have "unat v + (2 ^ k - 1) < 2 ^ k * m + 2 ^ k"
    using assms(3) m zero_less_power [of "2 :: nat" k] unfolding word_le_nat_alt by linarith
  then have "unat v + (2 ^ k - 1) < 2 ^ k * (m + 1)"
    by simp
  then have "(unat v + (2 ^ k - 1)) div 2 ^ k \<le> m"
    by (metis Suc_eq_plus1 less_Suc_eq_le less_mult_imp_div_less mult.commute)
  then have "(unat v + (2 ^ k - 1)) div 2 ^ k * 2 ^ k \<le> unat w"
    using m by (simp add: mult.commute)
  then show ?thesis using assms(1,2) by (simp add: word_le_nat_alt unat_align_up_pow2)
qed

lemma align_down_le: "align_down v (2 ^ k) \<le> v"
  by (simp add: word_le_nat_alt unat_align_down_pow2)

lemma align_down_greatest:
  assumes "w \<le> v" and "2 ^ k dvd unat w"
  shows "w \<le> align_down v (2 ^ k)"
proof -
  obtain m where m: "unat w = 2 ^ k * m" using assms(2) by blast
  with assms(1) have "m * 2 ^ k \<le> unat v" by (simp add: word_le_nat_alt mult.commute)
  then have "m \<le> unat v div 2 ^ k" by (simp add: less_eq_div_iff_mult_less_eq)
  then show ?thesis using m by (simp add: word_le_nat_alt unat_align_down_pow2 mult.commute)
qed

section \<open>Pages\<close>

lemma PAGE_SIZE_pow2: "PAGE_SIZE = 2 ^ 12"
  by (simp add: PAGE_SIZE_def)

lemma unat_PAGE_SIZE [simp]: "unat PAGE_SIZE = 4096"
  by (simp add: PAGE_SIZE_def)

lemma unat_align_down_page [layout_simps]:
  "unat (align_down v PAGE_SIZE) = unat v div 4096 * 4096"
  using unat_align_down_pow2 [of v 12] by (simp add: PAGE_SIZE_def)

lemma unat_align_up_page [layout_simps]:
  "unat v + 4095 < 2 ^ 64 \<Longrightarrow> unat (align_up v PAGE_SIZE) = (unat v + 4095) div 4096 * 4096"
  using unat_align_up_pow2 [of 12 v] by (simp add: PAGE_SIZE_def)

lemma align_up_page_ge: "unat v + 4095 < 2 ^ 64 \<Longrightarrow> v \<le> align_up v PAGE_SIZE"
  using align_up_ge [of 12 v] by (simp add: PAGE_SIZE_def)

lemma align_down_page_le: "align_down v PAGE_SIZE \<le> v"
  using align_down_le [of v 12] by (simp add: PAGE_SIZE_def)

section \<open>The direct map\<close>

lemma virt_to_phys_to_virt [simp]: "virt_to_phys (phys_to_virt p) = p"
  by (simp add: virt_to_phys_def phys_to_virt_def)

lemma phys_to_virt_to_phys [simp]: "phys_to_virt (virt_to_phys v) = v"
  by (simp add: virt_to_phys_def phys_to_virt_def)

section \<open>Properties\<close>

text \<open>
  For a power-of-two alignment, \<open>align_up\<close> returns the least multiple of the alignment that is
  not below its argument whenever that multiple fits in 64 bits, and wraps to address \<open>0\<close> when it
  does not; \<open>align_down\<close> always returns the greatest multiple not above its argument.
\<close>

theorem align_up_down_exact:
  assumes "k \<le> 64"
  shows "(if unat v + (2 ^ k - 1) < 2 ^ 64
          then v \<le> align_up v (2 ^ k) \<and> 2 ^ k dvd unat (align_up v (2 ^ k)) \<and>
            (\<forall>w. v \<le> w \<and> 2 ^ k dvd unat w \<longrightarrow> align_up v (2 ^ k) \<le> w)
          else align_up v (2 ^ k) = 0) \<and>
         align_down v (2 ^ k) \<le> v \<and> 2 ^ k dvd unat (align_down v (2 ^ k)) \<and>
         (\<forall>w. w \<le> v \<and> 2 ^ k dvd unat w \<longrightarrow> w \<le> align_down v (2 ^ k))"
  using assms align_up_ge align_up_least align_up_wraps align_down_le align_down_greatest
  by (auto simp: unat_align_up_pow2 unat_align_down_pow2 not_less)

theorem align_up_down_exact_witness:
  "(0x1234 :: u64) \<le> align_up 0x1234 (2 ^ 12) \<and> align_up 0x1234 (2 ^ 12) \<le> 0x2000 \<and>
   align_up 0xFFFFFFFFFFFFF001 (2 ^ 12) = 0 \<and> 0x1000 \<le> align_down 0x1234 (2 ^ 12)"
proof -
  have k: "(12 :: nat) \<le> 64" by simp
  show ?thesis
    using align_up_down_exact [OF k, of "0x1234"] align_up_down_exact [OF k, of "0xFFFFFFFFFFFFF001"]
    by simp
qed

end
