(* ===== verification/Bootalloc.thy ===== *)
theory Bootalloc
  imports Layout
begin

text \<open>
  \<open>src/mm/bootalloc.rs\<close>: the bump allocator that serves early boot. Its three statics are the
  fields of \<open>boot_state\<close>. The locale \<open>chunk_allocator\<close> states what a client may rely on, a moving
  watermark below which everything is handed out, and derives that chunks never overlap; it is
  interpreted on \<open>alloc\<close> below.
\<close>

section \<open>Definitions\<close>

record boot_state =
  BOOT_START :: u64
  BOOT_CURRENT :: u64
  BOOT_END :: u64

definition boot_static :: boot_state where
  "boot_static = \<lparr>BOOT_START = 0, BOOT_CURRENT = 0, BOOT_END = 0\<rparr>"

definition boot_init :: "u64 \<Rightarrow> u64 \<Rightarrow> boot_state \<Rightarrow> boot_state" where
  "boot_init start end st =
     (let aligned = align_up start PAGE_SIZE in
      st\<lparr>BOOT_START := aligned, BOOT_CURRENT := aligned, BOOT_END := end\<rparr>)"

definition boot_alloc :: "usize \<Rightarrow> usize \<Rightarrow> boot_state \<Rightarrow> boot_state \<times> u64 option" where
  "boot_alloc sz align st =
     (let align = max align 1;
          current = align_up (BOOT_CURRENT st) align;
          next = saturating_add current sz
      in if current = 0 \<or> next > BOOT_END st then (st, None)
         else (st\<lparr>BOOT_CURRENT := next\<rparr>, Some current))"

definition alloc_pages :: "usize \<Rightarrow> boot_state \<Rightarrow> boot_state \<times> u64 option" where
  "alloc_pages pages st = boot_alloc (pages * PAGE_SIZE) PAGE_SIZE st"

definition used_range :: "boot_state \<Rightarrow> u64 \<times> u64" where
  "used_range st = (BOOT_START st, BOOT_CURRENT st)"

section \<open>The contract of a chunk allocator\<close>

text \<open>A run of requests, the granted chunks collected as (address, size).\<close>

fun alloc_run :: "('q \<Rightarrow> 's \<Rightarrow> 's \<times> u64 option) \<Rightarrow> ('q \<Rightarrow> nat) \<Rightarrow> 'q list \<Rightarrow> 's \<Rightarrow> 's \<times> (u64 \<times> nat) list"
where
  "alloc_run alloc sz [] s = (s, [])"
| "alloc_run alloc sz (q # qs) s =
     (case alloc q s of
        (t, None) \<Rightarrow> alloc_run alloc sz qs t
      | (t, Some a) \<Rightarrow> (case alloc_run alloc sz qs t of (u, cs) \<Rightarrow> (u, (a, sz q) # cs)))"

locale chunk_allocator =
  fixes alloc :: "'q \<Rightarrow> 's \<Rightarrow> 's \<times> u64 option"
    and valid :: "'q \<Rightarrow> bool"
    and chunk_size :: "'q \<Rightarrow> nat"
    and mark :: "'s \<Rightarrow> nat" and limit :: "'s \<Rightarrow> nat" and ok :: "'s \<Rightarrow> bool"
  assumes alloc_some: "ok s \<Longrightarrow> valid q \<Longrightarrow> alloc q s = (t, Some a) \<Longrightarrow>
      mark s \<le> unat a \<and> unat a + chunk_size q = mark t \<and> mark t \<le> limit t \<and> limit t = limit s \<and> ok t"
    and alloc_none: "alloc q s = (t, None) \<Longrightarrow> t = s"
begin

lemma run_chunks:
  assumes "ok s" and "\<forall>q\<in>set qs. valid q" and "alloc_run alloc chunk_size qs s = (t, cs)"
  shows "ok t \<and> limit t = limit s \<and> mark s \<le> mark t \<and>
    (\<forall>(a, n)\<in>set cs. mark s \<le> unat a \<and> unat a + n \<le> mark t \<and> unat a + n \<le> limit s) \<and>
    sorted_wrt (\<lambda>(a, n) (b, m). unat a + n \<le> unat b) cs"
  using assms
proof (induction qs arbitrary: s cs)
  case (Cons q qs)
  obtain u r where al: "alloc q s = (u, r)" by (cases "alloc q s")
  show ?case
  proof (cases r)
    case None
    with al have "u = s" by (simp add: alloc_none)
    with al None Cons show ?thesis by simp
  next
    case (Some a)
    obtain cs' where rn: "alloc_run alloc chunk_size qs u = (t, cs')" and cs: "cs = (a, chunk_size q) # cs'"
      using al Some Cons.prems(3) by (auto split: prod.splits)
    have q: "mark s \<le> unat a" "unat a + chunk_size q = mark u" "mark u \<le> limit u" "limit u = limit s" "ok u"
      using alloc_some al Some Cons.prems by auto
    with Cons.IH [OF _ _ rn] Cons.prems(2) show ?thesis unfolding cs by fastforce
  qed
qed simp

end

section \<open>The boot allocator fulfils it\<close>

definition pow2_align :: "usize \<times> usize \<Rightarrow> bool" where
  "pow2_align q \<longleftrightarrow> (\<exists>k<64. snd q = 2 ^ k)"

definition boot_ok :: "boot_state \<Rightarrow> bool" where
  "boot_ok st \<longleftrightarrow> BOOT_END st \<noteq> u64_max \<and> BOOT_START st \<le> BOOT_CURRENT st"

lemma max_pow2: "k < 64 \<Longrightarrow> max (2 ^ k :: u64) 1 = 2 ^ k"
proof -
  assume "k < 64"
  then have "(1 :: u64) \<le> 2 ^ k" by (simp add: word_le_nat_alt unat_pow2_u64)
  then show ?thesis by (rule max.absorb1)
qed

lemma boot_alloc_some:
  assumes "boot_ok st" and "k < 64" and "boot_alloc sz (2 ^ k) st = (st', Some a)"
  shows "BOOT_CURRENT st \<le> a \<and> 2 ^ k dvd unat a \<and> unat a + unat sz = unat (BOOT_CURRENT st') \<and>
    BOOT_CURRENT st' \<le> BOOT_END st' \<and> BOOT_END st' = BOOT_END st \<and> BOOT_START st' = BOOT_START st \<and> a \<noteq> 0"
proof -
  have a: "a = align_up (BOOT_CURRENT st) (2 ^ k)" "a \<noteq> 0" and le: "saturating_add a sz \<le> BOOT_END st"
    and st': "st' = st\<lparr>BOOT_CURRENT := saturating_add a sz\<rparr>"
    using assms(2,3) by (auto simp: boot_alloc_def Let_def max_pow2 not_less split: if_splits)
  have nowrap: "unat (BOOT_CURRENT st) + (2 ^ k - 1) < 2 ^ 64"
    using a align_up_wraps assms(2) by (metis less_imp_le not_less)
  have "saturating_add a sz \<noteq> u64_max"
    using le assms(1) le_u64_max by (metis boot_ok_def antisym)
  then have "unat a + unat sz < 2 ^ 64 - 1"
    using unat_eq_u64_max [of "saturating_add a sz"] by (simp add: unat_saturating_add)
  with a nowrap le st' show ?thesis
    using align_up_ge assms(2) by (simp add: unat_saturating_add unat_align_up_pow2)
qed

lemma boot_alloc_none: "boot_alloc sz al st = (st', None) \<Longrightarrow> st' = st"
  by (auto simp: boot_alloc_def Let_def split: if_splits)

interpretation boot: chunk_allocator "\<lambda>(sz, al) st. boot_alloc sz al st" pow2_align "\<lambda>(sz, al). unat sz"
  "\<lambda>st. unat (BOOT_CURRENT st)" "\<lambda>st. unat (BOOT_END st)" boot_ok
proof
  fix s q t a
  assume "boot_ok s" "pow2_align q" "(\<lambda>(sz, al) st. boot_alloc sz al st) q s = (t, Some a)"
  then show "unat (BOOT_CURRENT s) \<le> unat a \<and> unat a + (\<lambda>(sz, al). unat sz) q = unat (BOOT_CURRENT t) \<and>
      unat (BOOT_CURRENT t) \<le> unat (BOOT_END t) \<and> unat (BOOT_END t) = unat (BOOT_END s) \<and> boot_ok t"
    using boot_alloc_some [of s] unfolding pow2_align_def boot_ok_def word_le_nat_alt
    by (cases q) fastforce
next
  fix q s t
  assume "(\<lambda>(sz, al) st. boot_alloc sz al st) q s = (t, None)"
  then show "t = s" using boot_alloc_none by (cases q) auto
qed


lemma boot_alloc_start: "BOOT_START (fst (boot_alloc sz al st)) = BOOT_START st"
  by (simp add: boot_alloc_def Let_def)

lemma boot_run_start:
  "alloc_run (\<lambda>(sz, al) s. boot_alloc sz al s) f qs st = (st', cs) \<Longrightarrow> BOOT_START st' = BOOT_START st"
proof (induction qs arbitrary: st cs)
  case (Cons q qs)
  then show ?case
    using boot_alloc_start [of "fst q" "snd q" st] by (fastforce split: prod.splits option.splits)
qed simp

section \<open>Properties\<close>

text \<open>
  C31. Boot allocations are safe: for any sequence of requests with power-of-two alignments, from any
  state whose limit is not the top address, the granted chunks lie between the current mark and the
  limit, are in increasing order and pairwise disjoint, and all of them lie inside the range that
  \<open>used_range\<close> reports afterwards.
\<close>

theorem boot_chunks_disjoint:
  assumes "boot_ok st" and "\<forall>q\<in>set qs. pow2_align q"
    and "alloc_run (\<lambda>(sz, al) s. boot_alloc sz al s) (\<lambda>(sz, al). unat sz) qs st = (st', cs)"
  shows "sorted_wrt (\<lambda>(a, n) (b, m). unat a + n \<le> unat b) cs \<and>
    (\<forall>(a, n)\<in>set cs. unat (BOOT_CURRENT st) \<le> unat a \<and> unat a + n \<le> unat (BOOT_END st) \<and>
       unat (fst (used_range st')) \<le> unat a \<and> unat a + n \<le> unat (snd (used_range st')))"
  using boot.run_chunks [OF assms] boot_run_start [OF assms(3)] assms(1)
  by (fastforce simp: used_range_def boot_ok_def word_le_nat_alt)


theorem boot_chunks_disjoint_witness:
  "let (st, cs) = alloc_run (\<lambda>(sz, al) s. boot_alloc sz al s) (\<lambda>(sz, al). unat sz)
         [(100, 8), (5, 4096), (0x100000, 1)] (boot_init 0x81234 0x90000 boot_static)
   in cs = [(0x82000, 100), (0x83000, 5)] \<and> used_range st = (0x82000, 0x83005) \<and>
      sorted_wrt (\<lambda>(a, n) (b, m). unat a + n \<le> unat b) cs"
proof -
  let ?qs = "[(100, 8), (5, 4096), (0x100000, 1)] :: (usize \<times> usize) list"
  have ok: "boot_ok (boot_init 0x81234 0x90000 boot_static)"
    by (simp add: boot_ok_def boot_init_def u64_max_def Let_def)
  have al: "\<forall>q\<in>set ?qs. pow2_align q"
    using exI [of "\<lambda>k. k < 64 \<and> (8 :: u64) = 2 ^ k" 3] exI [of "\<lambda>k. k < 64 \<and> (4096 :: u64) = 2 ^ k" 12]
      exI [of "\<lambda>k. k < 64 \<and> (1 :: u64) = 2 ^ k" 0]
    by (simp add: pow2_align_def)
  have run: "alloc_run (\<lambda>(sz, al) s. boot_alloc sz al s) (\<lambda>(sz, al). unat sz) ?qs
      (boot_init 0x81234 0x90000 boot_static) =
    (\<lparr>BOOT_START = 0x82000, BOOT_CURRENT = 0x83005, BOOT_END = 0x90000\<rparr>, [(0x82000, 100), (0x83000, 5)])"
    by (simp add: boot_init_def boot_static_def boot_alloc_def align_up_def saturating_add_def
        PAGE_SIZE_def Let_def max_def word_le_nat_alt)
  show ?thesis
    using boot_chunks_disjoint [OF ok al run] unfolding run by (simp add: used_range_def)
qed

end
