(* ===== verification/Region.thy ===== *)
theory Region
  imports Layout
begin

text \<open>
  \<open>src/mm/region.rs\<close>: the raw memory map that boot code fills (\<open>MemoryMap\<close>), and its conversion
  into a sorted, non-overlapping map in which the highest-priority kind wins (\<open>NormalizedMap\<close>).
  Both structs are a fixed array of 128 regions and a length; \<open>mm_live\<close> and \<open>nm_live\<close> are the
  slices \<open>&regions[..len]\<close> that every reader of the structs uses.
\<close>

section \<open>Definitions\<close>

datatype region_kind = UsableRam | Reserved | Mmio | KernelImage | BootStack | BootInfo

record phys_region =
  pr_start :: u64
  pr_end :: u64
  pr_kind :: region_kind

record phys_range =
  rg_start :: u64
  rg_end :: u64

definition MAX_REGIONS :: nat where
  "MAX_REGIONS = 128"

definition empty_region :: phys_region where
  "empty_region = \<lparr>pr_start = 0, pr_end = 0, pr_kind = Reserved\<rparr>"

subsection \<open>MemoryMap\<close>

record memory_map =
  mm_regions :: "phys_region list"
  mm_len :: nat

definition mm_new :: memory_map where
  "mm_new = \<lparr>mm_regions = replicate MAX_REGIONS empty_region, mm_len = 0\<rparr>"

definition add_region :: "memory_map \<Rightarrow> u64 \<Rightarrow> u64 \<Rightarrow> region_kind \<Rightarrow> memory_map" where
  "add_region m start sz kind =
     (if sz = 0 \<or> mm_len m \<ge> MAX_REGIONS then m
      else let end = saturating_add start sz in
        m\<lparr>mm_regions := (mm_regions m)[mm_len m := \<lparr>pr_start = start, pr_end = end, pr_kind = kind\<rparr>],
          mm_len := mm_len m + 1\<rparr>)"

definition add_range :: "memory_map \<Rightarrow> phys_range \<Rightarrow> region_kind \<Rightarrow> memory_map" where
  "add_range m rg kind =
     (if rg_end rg \<le> rg_start rg then m
      else add_region m (rg_start rg) (rg_end rg - rg_start rg) kind)"

definition mm_live :: "memory_map \<Rightarrow> phys_region list" where
  "mm_live m = take (mm_len m) (mm_regions m)"

subsection \<open>The exchange sort of the boundaries\<close>

definition swap :: "'a list \<Rightarrow> nat \<Rightarrow> nat \<Rightarrow> 'a list" where
  "swap xs i j = xs[i := xs ! j, j := xs ! i]"

function sort_inner :: "u64 list \<Rightarrow> nat \<Rightarrow> nat \<Rightarrow> u64 list" where
  "sort_inner values i j =
     (if j < length values
      then sort_inner (if values ! j < values ! i then swap values i j else values) i (j + 1)
      else values)"
  by pat_completeness auto
termination
  by (relation "measure (\<lambda>(values, i, j). length values - j)") (auto simp: swap_def)

declare sort_inner.simps [simp del]

lemma length_swap [simp]: "length (swap xs i j) = length xs"
  by (simp add: swap_def)

lemma length_sort_inner [simp]: "length (sort_inner xs i j) = length xs"
proof (induction xs i j rule: sort_inner.induct)
  case (1 xs i j)
  then show ?case by (cases "j < length xs") (auto simp: sort_inner.simps [of xs i j])
qed

function sort_outer :: "u64 list \<Rightarrow> nat \<Rightarrow> u64 list" where
  "sort_outer values i =
     (if i < length values then sort_outer (sort_inner values i (i + 1)) (i + 1) else values)"
  by pat_completeness auto
termination
  by (relation "measure (\<lambda>(values, i). length values - i)") auto

declare sort_outer.simps [simp del]

definition sort_u64 :: "u64 list \<Rightarrow> u64 list" where
  "sort_u64 values = sort_outer values 0"

subsection \<open>NormalizedMap\<close>

record normalized_map =
  nm_regions :: "phys_region list"
  nm_len :: nat

definition nm_new :: normalized_map where
  "nm_new = \<lparr>nm_regions = replicate MAX_REGIONS empty_region, nm_len = 0\<rparr>"

definition nm_push :: "normalized_map \<Rightarrow> phys_region \<Rightarrow> normalized_map" where
  "nm_push n region =
     (if nm_len n \<ge> MAX_REGIONS then n
      else n\<lparr>nm_regions := (nm_regions n)[nm_len n := region], nm_len := nm_len n + 1\<rparr>)"

definition nm_live :: "normalized_map \<Rightarrow> phys_region list" where
  "nm_live n = take (nm_len n) (nm_regions n)"

definition usable_regions :: "normalized_map \<Rightarrow> phys_range list" where
  "usable_regions n =
     map (\<lambda>r. \<lparr>rg_start = pr_start r, rg_end = pr_end r\<rparr>)
       (filter (\<lambda>r. pr_kind r = UsableRam) (nm_live n))"

definition max_phys_end :: "normalized_map \<Rightarrow> u64" where
  "max_phys_end n = fold max (map pr_end (nm_live n)) 0"

fun kind_priority :: "region_kind \<Rightarrow> nat" where
  "kind_priority KernelImage = 6"
| "kind_priority BootStack = 5"
| "kind_priority BootInfo = 4"
| "kind_priority Reserved = 3"
| "kind_priority Mmio = 2"
| "kind_priority UsableRam = 1"

fun merge_loop :: "phys_region list \<Rightarrow> phys_region \<Rightarrow> phys_region list \<Rightarrow> phys_region list" where
  "merge_loop [] current out = out @ [current]"
| "merge_loop (region # rest) current out =
     (if pr_kind region = pr_kind current \<and> pr_start region = pr_end current
      then merge_loop rest (current\<lparr>pr_end := pr_end region\<rparr>) out
      else merge_loop rest region (out @ [current]))"

definition merge_adjacent :: "normalized_map \<Rightarrow> normalized_map" where
  "merge_adjacent n =
     (case nm_live n of
        [] \<Rightarrow> n
      | first # rest \<Rightarrow>
          let out = merge_loop rest first [] in
          \<lparr>nm_regions = out @ replicate (MAX_REGIONS - length out) empty_region,
           nm_len = length out\<rparr>)"

definition align_region :: "phys_region \<Rightarrow> phys_region" where
  "align_region region =
     (if pr_kind region \<noteq> UsableRam then region
      else let start = align_up (pr_start region) PAGE_SIZE;
               end = align_down (pr_end region) PAGE_SIZE in
        if end \<le> start then \<lparr>pr_start = 0, pr_end = 0, pr_kind = Reserved\<rparr>
        else region\<lparr>pr_start := start, pr_end := end\<rparr>)"

definition align_usable :: "normalized_map \<Rightarrow> normalized_map" where
  "align_usable n =
     n\<lparr>nm_regions := map align_region (nm_live n) @ drop (nm_len n) (nm_regions n)\<rparr>"

subsection \<open>normalize\<close>

definition boundaries :: "phys_region list \<Rightarrow> u64 list" where
  "boundaries rs = concat (map (\<lambda>r. [pr_start r, pr_end r]) rs)"

fun span_kind :: "phys_region list \<Rightarrow> u64 \<Rightarrow> u64 \<Rightarrow> region_kind option \<Rightarrow> nat \<Rightarrow> region_kind option"
where
  "span_kind [] start end kind best_prio = kind"
| "span_kind (region # rest) start end kind best_prio =
     (if pr_start region \<le> start \<and> pr_end region \<ge> end \<and> kind_priority (pr_kind region) > best_prio
      then span_kind rest start end (Some (pr_kind region)) (kind_priority (pr_kind region))
      else span_kind rest start end kind best_prio)"

fun normalize_loop :: "phys_region list \<Rightarrow> u64 list \<Rightarrow> normalized_map \<Rightarrow> normalized_map" where
  "normalize_loop rs (start # end # bs) out =
     (if start = end then normalize_loop rs (end # bs) out
      else case span_kind rs start end None 0 of
             Some kind \<Rightarrow>
               normalize_loop rs (end # bs)
                 (nm_push out \<lparr>pr_start = start, pr_end = end, pr_kind = kind\<rparr>)
           | None \<Rightarrow> normalize_loop rs (end # bs) out)"
| "normalize_loop rs bs out = out"

definition normalize :: "memory_map \<Rightarrow> normalized_map" where
  "normalize m =
     (let bs = sort_u64 (boundaries (mm_live m));
          out = normalize_loop (mm_live m) bs nm_new
      in align_usable (merge_adjacent out))"

section \<open>The sort is a sort\<close>

lemma mset_swap_at: "i < length xs \<Longrightarrow> j < length xs \<Longrightarrow> mset (swap xs i j) = mset xs"
  by (simp add: swap_def mset_swap)

lemma sort_inner_spec:
  assumes "i < j" and "i < length xs" and "\<forall>m. i < m \<and> m < j \<and> m < length xs \<longrightarrow> xs ! i \<le> xs ! m"
  shows "mset (sort_inner xs i j) = mset xs \<and> take i (sort_inner xs i j) = take i xs \<and>
    (\<forall>m. i < m \<and> m < length xs \<longrightarrow> sort_inner xs i j ! i \<le> sort_inner xs i j ! m)"
  using assms
proof (induction xs i j rule: sort_inner.induct)
  case (1 xs i j)
  show ?case
  proof (cases "j < length xs")
    case False
    with "1.prems" show ?thesis by (auto simp: sort_inner.simps [of xs i j])
  next
    case True
    let ?ys = "if xs ! j < xs ! i then swap xs i j else xs"
    have inv: "\<forall>m. i < m \<and> m < j + 1 \<and> m < length ?ys \<longrightarrow> ?ys ! i \<le> ?ys ! m"
      using "1.prems" True by (auto simp: swap_def nth_list_update less_Suc_eq)
    have "mset ?ys = mset xs" and "take i ?ys = take i xs" and "length ?ys = length xs"
      using "1.prems" True by (auto simp: mset_swap_at) (simp add: swap_def)
    with "1.IH" [OF True _ _ inv] "1.prems" True show ?thesis
      by (simp add: sort_inner.simps [of xs i j])
  qed
qed

lemma sort_outer_spec:
  assumes "i \<le> length xs" and "sorted (take i xs)"
    and "\<forall>a\<in>set (take i xs). \<forall>b\<in>set (drop i xs). a \<le> b"
  shows "mset (sort_outer xs i) = mset xs \<and> sorted (sort_outer xs i)"
  using assms
proof (induction xs i rule: sort_outer.induct)
  case (1 xs i)
  show ?case
  proof (cases "i < length xs")
    case False
    then have "sort_outer xs i = xs" by (subst sort_outer.simps) simp
    with False "1.prems" show ?thesis by simp
  next
    case True
    let ?ys = "sort_inner xs i (i + 1)"
    have ms: "mset ?ys = mset xs" and pre: "take i ?ys = take i xs"
      and least: "\<And>m. i < m \<Longrightarrow> m < length xs \<Longrightarrow> ?ys ! i \<le> ?ys ! m"
      using sort_inner_spec [of i "i + 1" xs] True by force+
    have "mset (take i ?ys) + mset (drop i ?ys) = mset (take i xs) + mset (drop i xs)"
      using ms by (simp flip: mset_append)
    with pre have "mset (drop i ?ys) = mset (drop i xs)" by simp
    then have rest: "set (drop i ?ys) = set (drop i xs)" by (rule mset_eq_setD)
    have split: "take (i + 1) ?ys = take i ?ys @ [?ys ! i]" and tail: "drop i ?ys = ?ys ! i # drop (i + 1) ?ys"
      using True by (simp_all add: take_Suc_conv_app_nth Cons_nth_drop_Suc)
    from rest have rest': "set (drop i xs) = insert (?ys ! i) (set (drop (i + 1) ?ys))"
      unfolding tail by simp
    have least': "\<forall>b\<in>set (drop (i + 1) ?ys). ?ys ! i \<le> b"
      using least by (auto simp: in_set_conv_nth)
    have "sorted (take (i + 1) ?ys)" and "\<forall>a\<in>set (take (i + 1) ?ys). \<forall>b\<in>set (drop (i + 1) ?ys). a \<le> b"
      using "1.prems" pre rest' least' unfolding split by (auto simp: sorted_append)
    then show ?thesis using "1.IH" [OF True] True ms by (simp add: sort_outer.simps [of xs i])
  qed
qed

lemma sort_u64_eq_sort: "sort_u64 xs = sort xs"
  using sort_outer_spec [of 0 xs] properties_for_sort [of "sort_outer xs 0" xs]
  by (simp add: sort_u64_def)

section \<open>Raw map\<close>

definition mm_wf :: "memory_map \<Rightarrow> bool" where
  "mm_wf m \<longleftrightarrow> length (mm_regions m) = MAX_REGIONS \<and> mm_len m \<le> MAX_REGIONS"

lemma mm_wf_new [inv_intros]: "mm_wf mm_new"
  by (simp add: mm_wf_def mm_new_def)

lemma mm_wf_add_region [inv_intros]: "mm_wf m \<Longrightarrow> mm_wf (add_region m s n k)"
  by (simp add: mm_wf_def add_region_def Let_def)

lemma mm_wf_add_range [inv_intros]: "mm_wf m \<Longrightarrow> mm_wf (add_range m r k)"
  by (simp add: add_range_def mm_wf_add_region)

lemma mm_live_new [simp]: "mm_live mm_new = []"
  by (simp add: mm_live_def mm_new_def)

lemma length_mm_live: "mm_wf m \<Longrightarrow> length (mm_live m) = mm_len m"
  by (simp add: mm_wf_def mm_live_def)

lemma mm_live_add_region:
  assumes "mm_wf m"
  shows "mm_live (add_region m s n k) =
    (if n = 0 \<or> length (mm_live m) = MAX_REGIONS then mm_live m
     else mm_live m @ [\<lparr>pr_start = s, pr_end = saturating_add s n, pr_kind = k\<rparr>])"
  using assms
  by (auto simp: mm_wf_def mm_live_def add_region_def Let_def take_Suc_conv_app_nth)

section \<open>Spans\<close>

text \<open>Kinds are ordered by priority; where regions overlap the greatest kind wins.\<close>

lemma kind_priority_inj: "kind_priority j = kind_priority k \<longleftrightarrow> j = k"
  by (cases j; cases k; simp)

lemma kind_priority_pos: "0 < kind_priority k"
  by (cases k) auto

instantiation region_kind :: linorder
begin

definition less_eq_region_kind :: "region_kind \<Rightarrow> region_kind \<Rightarrow> bool" where
  "less_eq_region_kind j k \<longleftrightarrow> kind_priority j \<le> kind_priority k"

definition less_region_kind :: "region_kind \<Rightarrow> region_kind \<Rightarrow> bool" where
  "less_region_kind j k \<longleftrightarrow> kind_priority j < kind_priority k"

instance
  by intro_classes (auto simp: less_eq_region_kind_def less_region_kind_def kind_priority_inj)

end

lemmas kind_order = less_eq_region_kind_def less_region_kind_def

lemma UsableRam_least: "UsableRam \<le> k"
  by (cases k) (simp_all add: kind_order)

definition covers :: "phys_region \<Rightarrow> u64 \<Rightarrow> bool" where
  "covers r a \<longleftrightarrow> pr_start r \<le> a \<and> a < pr_end r"

definition top_kind :: "phys_region list \<Rightarrow> u64 \<Rightarrow> region_kind \<Rightarrow> bool" where
  "top_kind rs a k \<longleftrightarrow>
     (\<exists>r\<in>set rs. covers r a \<and> pr_kind r = k) \<and>
     (\<forall>r\<in>set rs. covers r a \<longrightarrow> pr_kind r \<le> k)"

definition kind_at :: "phys_region list \<Rightarrow> u64 \<Rightarrow> region_kind \<Rightarrow> bool" where
  "kind_at rs a k \<longleftrightarrow> (\<exists>r\<in>set rs. covers r a \<and> pr_kind r = k)"

fun spans :: "phys_region list \<Rightarrow> u64 list \<Rightarrow> phys_region list" where
  "spans rs (s # e # bs) =
     (if s = e then [] else
        (case span_kind rs s e None 0 of
           Some k \<Rightarrow> [\<lparr>pr_start = s, pr_end = e, pr_kind = k\<rparr>]
         | None \<Rightarrow> [])) @ spans rs (e # bs)"
| "spans rs [] = []"
| "spans rs [s] = []"

definition nm_wf :: "normalized_map \<Rightarrow> bool" where
  "nm_wf n \<longleftrightarrow> length (nm_regions n) = MAX_REGIONS \<and> nm_len n \<le> MAX_REGIONS"

lemma nm_wf_push [inv_intros]: "nm_wf n \<Longrightarrow> nm_wf (nm_push n r)"
  by (simp add: nm_wf_def nm_push_def)

lemma length_nm_live: "nm_wf n \<Longrightarrow> length (nm_live n) = nm_len n"
  by (simp add: nm_wf_def nm_live_def)

lemma nm_live_push: "nm_wf n \<Longrightarrow> nm_live (nm_push n r) = take MAX_REGIONS (nm_live n @ [r])"
  by (auto simp: nm_wf_def nm_live_def nm_push_def take_Suc_conv_app_nth)

lemma normalize_loop_live:
  "nm_wf n \<Longrightarrow> nm_wf (normalize_loop rs bs n) \<and>
    nm_live (normalize_loop rs bs n) = take MAX_REGIONS (nm_live n @ spans rs bs)"
proof (induction rs bs n rule: normalize_loop.induct)
  case (1 rs s e bs n)
  show ?case
  proof (cases "s = e \<or> span_kind rs s e None 0 = None")
    case True
    with 1 show ?thesis by auto
  next
    case False
    then obtain k where k: "s \<noteq> e" "span_kind rs s e None 0 = Some k" by auto
    let ?r = "\<lparr>pr_start = s, pr_end = e, pr_kind = k\<rparr>"
    have "nm_live (normalize_loop rs (e # bs) (nm_push n ?r)) =
      take MAX_REGIONS (take MAX_REGIONS (nm_live n @ [?r]) @ spans rs (e # bs))"
      using "1.IH"(3) [OF k] "1.prems" by (simp only: nm_live_push nm_wf_push)
    then show ?thesis
      using k "1.IH"(3) [OF k nm_wf_push] "1.prems" by (simp only: take_take_append) simp
  qed
qed (auto simp: nm_live_def nm_wf_def min_def)

lemma nm_live_normalize_loop:
  "nm_live (normalize_loop rs bs nm_new) = take MAX_REGIONS (spans rs bs)"
  "nm_wf (normalize_loop rs bs nm_new)"
  using normalize_loop_live [of nm_new rs bs] by (simp_all add: nm_wf_def nm_new_def nm_live_def)

lemma span_kind_spec:
  "bp = (case kd of None \<Rightarrow> 0 | Some k \<Rightarrow> kind_priority k) \<Longrightarrow>
   (case span_kind rs s e kd bp of
      None \<Rightarrow> kd = None \<and> (\<forall>r\<in>set rs. \<not> (pr_start r \<le> s \<and> e \<le> pr_end r))
    | Some k \<Rightarrow> (kd = Some k \<or> (\<exists>r\<in>set rs. pr_start r \<le> s \<and> e \<le> pr_end r \<and> pr_kind r = k)) \<and>
        (\<forall>r\<in>set rs. pr_start r \<le> s \<and> e \<le> pr_end r \<longrightarrow> kind_priority (pr_kind r) \<le> kind_priority k) \<and>
        bp \<le> kind_priority k)"
proof (induction rs arbitrary: kd bp)
  case Nil
  then show ?case by (cases kd) auto
next
  case (Cons r rs)
  show ?case
  proof (cases "pr_start r \<le> s \<and> e \<le> pr_end r \<and> bp < kind_priority (pr_kind r)")
    case True
    then show ?thesis
      using Cons.IH [of "kind_priority (pr_kind r)" "Some (pr_kind r)"]
      by (auto split: option.splits)
  next
    case False
    then show ?thesis
      using Cons.IH [OF Cons.prems] Cons.prems kind_priority_pos [of "pr_kind r"]
      by (auto split: option.splits)
  qed
qed

lemma span_covers:
  assumes "s < e" "s \<le> a" "a < e"
    and "pr_start r \<le> s \<or> e \<le> pr_start r" and "pr_end r \<le> s \<or> e \<le> pr_end r"
  shows "pr_start r \<le> s \<and> e \<le> pr_end r \<longleftrightarrow> covers r a"
  using assms by (auto simp: covers_def)

lemma span_kind_top_kind:
  assumes "s < e" "s \<le> a" "a < e"
    and "\<forall>r\<in>set rs. (pr_start r \<le> s \<or> e \<le> pr_start r) \<and> (pr_end r \<le> s \<or> e \<le> pr_end r)"
  shows "span_kind rs s e None 0 = Some k \<longleftrightarrow> top_kind rs a k"
proof -
  have eq: "\<And>r. r \<in> set rs \<Longrightarrow> pr_start r \<le> s \<and> e \<le> pr_end r \<longleftrightarrow> covers r a"
    using span_covers [OF assms(1-3)] assms(4) by blast
  show ?thesis
  proof (cases "span_kind rs s e None 0")
    case None
    then show ?thesis using span_kind_spec [of 0 None rs s e] eq by (auto simp: top_kind_def)
  next
    case (Some j)
    then have ex: "\<exists>r\<in>set rs. covers r a \<and> pr_kind r = j"
      and top: "\<forall>r\<in>set rs. covers r a \<longrightarrow> kind_priority (pr_kind r) \<le> kind_priority j"
      using span_kind_spec [of 0 None rs s e] eq by auto
    then have "top_kind rs a k \<longleftrightarrow> j = k"
      using kind_priority_inj [of j k] by (auto simp: top_kind_def kind_order intro: antisym)
    with Some show ?thesis by simp
  qed
qed

definition endpoints_in :: "phys_region list \<Rightarrow> u64 list \<Rightarrow> bool" where
  "endpoints_in rs bs \<longleftrightarrow>
     (\<forall>r\<in>set rs. (pr_start r \<in> set bs \<or> pr_start r \<le> hd bs) \<and> (pr_end r \<in> set bs \<or> pr_end r \<le> hd bs))"

lemma spans_kind_at:
  "sorted bs \<Longrightarrow> bs \<noteq> [] \<Longrightarrow> endpoints_in rs bs \<Longrightarrow>
    kind_at (spans rs bs) a k \<longleftrightarrow> top_kind rs a k \<and> hd bs \<le> a"
proof (induction rs bs rule: spans.induct)
  case (1 rs s e bs)
  have sep: "\<forall>r\<in>set rs. (pr_start r \<le> s \<or> e \<le> pr_start r) \<and> (pr_end r \<le> s \<or> e \<le> pr_end r)"
    using "1.prems" by (fastforce simp: endpoints_in_def)
  have IH: "kind_at (spans rs (e # bs)) a k \<longleftrightarrow> top_kind rs a k \<and> e \<le> a"
    using "1.IH" "1.prems" by (fastforce simp: endpoints_in_def)
  show ?case
  proof (cases "s = e")
    case True
    with IH show ?thesis by simp
  next
    case False
    with "1.prems" have "s < e" by auto
    then have top: "s \<le> a \<Longrightarrow> a < e \<Longrightarrow> span_kind rs s e None 0 = Some k \<longleftrightarrow> top_kind rs a k"
      using span_kind_top_kind sep by blast
    have "kind_at (spans rs (s # e # bs)) a k \<longleftrightarrow>
      (span_kind rs s e None 0 = Some k \<and> s \<le> a \<and> a < e) \<or> kind_at (spans rs (e # bs)) a k"
      using False by (auto simp: kind_at_def covers_def split: option.splits)
    with IH top \<open>s < e\<close> show ?thesis by (auto simp: not_le)
  qed
next
  case (3 rs s)
  then have "\<forall>r\<in>set rs. pr_end r \<le> s" by (auto simp: endpoints_in_def)
  then show ?case by (fastforce simp: kind_at_def top_kind_def covers_def)
qed simp

definition ordered :: "phys_region list \<Rightarrow> bool" where
  "ordered rs \<longleftrightarrow> sorted_wrt (\<lambda>r s. pr_end r \<le> pr_start s) rs \<and> (\<forall>r\<in>set rs. pr_start r < pr_end r)"

lemma spans_start_ge: "sorted bs \<Longrightarrow> r \<in> set (spans rs bs) \<Longrightarrow> hd bs \<le> pr_start r"
  by (induction rs bs rule: spans.induct) (fastforce split: if_splits option.splits)+

lemma spans_ordered: "sorted bs \<Longrightarrow> ordered (spans rs bs)"
proof (induction rs bs rule: spans.induct)
  case (1 rs s e bs)
  then have IH: "ordered (spans rs (e # bs))" by simp
  have "\<forall>r\<in>set (spans rs (e # bs)). e \<le> pr_start r"
    using spans_start_ge [of "e # bs"] "1.prems" by fastforce
  with IH "1.prems" show ?case by (auto simp: ordered_def split: option.splits)
qed (auto simp: ordered_def)

lemma length_spans: "length (spans rs bs) \<le> length bs - 1"
  by (induction rs bs rule: spans.induct) (auto split: option.splits)

lemma boundaries_spans:
  "kind_at (spans rs (sort (boundaries rs))) a k \<longleftrightarrow> top_kind rs a k"
proof (cases "rs = []")
  case False
  let ?bs = "sort (boundaries rs)"
  have set: "set ?bs = pr_start ` set rs \<union> pr_end ` set rs"
    by (auto simp: boundaries_def)
  then have ne: "?bs \<noteq> []" and ends: "endpoints_in rs ?bs"
    using False by (auto simp: endpoints_in_def simp del: set_sort)
  have "covers r a \<Longrightarrow> r \<in> set rs \<Longrightarrow> hd ?bs \<le> a" for r
    using set sorted_hd_le [of ?bs "pr_start r"] by (auto simp: covers_def simp del: set_sort)
  then have "top_kind rs a k \<Longrightarrow> hd ?bs \<le> a" by (auto simp: top_kind_def)
  with spans_kind_at [OF _ ne ends] show ?thesis by auto
qed (simp add: boundaries_def kind_at_def top_kind_def)

section \<open>Merging and aligning\<close>

text \<open>\<open>merge_list\<close> is the loop of \<open>merge_adjacent\<close> without its accumulator.\<close>

fun merge_list :: "phys_region list \<Rightarrow> phys_region \<Rightarrow> phys_region list" where
  "merge_list [] cur = [cur]"
| "merge_list (r # rest) cur =
     (if pr_kind r = pr_kind cur \<and> pr_start r = pr_end cur
      then merge_list rest (cur\<lparr>pr_end := pr_end r\<rparr>)
      else cur # merge_list rest r)"

lemma merge_loop_eq: "merge_loop rest cur out = out @ merge_list rest cur"
  by (induction rest arbitrary: cur out) auto

definition merged :: "phys_region list \<Rightarrow> phys_region list" where
  "merged rs = (case rs of [] \<Rightarrow> [] | r # rest \<Rightarrow> merge_list rest r)"

definition touching :: "phys_region \<Rightarrow> phys_region \<Rightarrow> bool" where
  "touching r s \<longleftrightarrow> pr_kind s = pr_kind r \<and> pr_start s = pr_end r"

lemma merge_list_Cons:
  "merge_list (r # rest) cur =
     (if touching cur r then merge_list rest (cur\<lparr>pr_end := pr_end r\<rparr>) else cur # merge_list rest r)"
  by (simp add: touching_def)

lemma merge_list_hd:
  "\<exists>r ms. merge_list rest cur = r # ms \<and> pr_start r = pr_start cur \<and> pr_kind r = pr_kind cur"
proof (induction rest arbitrary: cur)
  case (Cons r rest)
  show ?case using Cons.IH [of "cur\<lparr>pr_end := pr_end r\<rparr>"] by auto
qed simp

lemma length_merge_list: "length (merge_list rest cur) \<le> Suc (length rest)"
  by (induction rest arbitrary: cur) (auto intro: le_SucI)

lemma ordered_extend:
  "ordered (cur # r # rest) \<Longrightarrow> pr_start r = pr_end cur \<Longrightarrow> ordered (cur\<lparr>pr_end := pr_end r\<rparr> # rest)"
  by (fastforce simp: ordered_def)

lemma ordered_tl: "ordered (r # rs) \<Longrightarrow> ordered rs"
  by (simp add: ordered_def)

lemma merge_list_start_ge:
  "ordered (cur # rest) \<Longrightarrow> r \<in> set (merge_list rest cur) \<Longrightarrow> pr_start cur \<le> pr_start r"
proof (induction rest arbitrary: cur)
  case (Cons s rest)
  show ?case
  proof (cases "touching cur s")
    case True
    with Cons.prems have "pr_start (cur\<lparr>pr_end := pr_end s\<rparr>) \<le> pr_start r"
      by (intro Cons.IH ordered_extend) (auto simp: touching_def)
    then show ?thesis by simp
  next
    case False
    have "pr_start cur \<le> pr_start s" using Cons.prems(1) by (auto simp: ordered_def)
    with False Cons.prems Cons.IH [OF ordered_tl [OF Cons.prems(1)]] show ?thesis
      by (auto simp: merge_list_Cons simp del: merge_list.simps)
  qed
qed simp

lemma merge_list_ordered: "ordered (cur # rest) \<Longrightarrow> ordered (merge_list rest cur)"
proof (induction rest arbitrary: cur)
  case (Cons r rest)
  show ?case
  proof (cases "touching cur r")
    case True
    with Cons ordered_extend show ?thesis by (simp add: touching_def)
  next
    case False
    have "\<forall>s\<in>set (merge_list rest r). pr_start r \<le> pr_start s"
      using merge_list_start_ge ordered_tl [OF Cons.prems] by blast
    moreover have "ordered (merge_list rest r)"
      using Cons.IH ordered_tl [OF Cons.prems] .
    ultimately show ?thesis
      using False Cons.prems by (fastforce simp: touching_def ordered_def)
  qed
qed (simp add: ordered_def)

lemma merge_list_kind_at:
  "ordered (cur # rest) \<Longrightarrow> kind_at (merge_list rest cur) a k \<longleftrightarrow> kind_at (cur # rest) a k"
proof (induction rest arbitrary: cur)
  case (Cons r rest)
  show ?case
  proof (cases "touching cur r")
    case True
    with Cons.prems have "kind_at (cur\<lparr>pr_end := pr_end r\<rparr> # rest) a k \<longleftrightarrow> kind_at (cur # r # rest) a k"
      by (fastforce simp: touching_def kind_at_def covers_def ordered_def not_le not_less)
    with True Cons show ?thesis by (simp add: touching_def ordered_extend)
  next
    case False
    with Cons.IH [OF ordered_tl [OF Cons.prems]] show ?thesis
      by (simp add: merge_list_Cons kind_at_def del: merge_list.simps)
  qed
qed simp

lemma merge_list_separate: "successively (\<lambda>r s. \<not> touching r s) (merge_list rest cur)"
proof (induction rest arbitrary: cur)
  case (Cons r rest)
  obtain h ms where "merge_list rest r = h # ms" "pr_start h = pr_start r" "pr_kind h = pr_kind r"
    using merge_list_hd by blast
  with Cons [of r] Cons show ?case by (auto simp: touching_def)
qed simp

lemma merged_ordered: "ordered rs \<Longrightarrow> ordered (merged rs)"
  by (auto simp: merged_def merge_list_ordered split: list.split)

lemma merged_kind_at: "ordered rs \<Longrightarrow> kind_at (merged rs) a k \<longleftrightarrow> kind_at rs a k"
  by (auto simp: merged_def merge_list_kind_at split: list.split)

lemma merged_separate: "successively (\<lambda>r s. \<not> touching r s) (merged rs)"
  by (auto simp: merged_def merge_list_separate split: list.split)

lemma length_merged: "length (merged rs) \<le> length rs"
  using length_merge_list by (auto simp: merged_def split: list.split)

lemma nm_live_merge_adjacent:
  "nm_wf n \<Longrightarrow> nm_live (merge_adjacent n) = merged (nm_live n)"
  by (auto simp: merge_adjacent_def merge_loop_eq merged_def nm_live_def Let_def split: list.split)

lemma nm_wf_merge_adjacent [inv_intros]: "nm_wf n \<Longrightarrow> nm_wf (merge_adjacent n)"
  using length_merged [of "nm_live n"] length_nm_live [of n]
  by (auto simp: merge_adjacent_def merge_loop_eq merged_def nm_wf_def Let_def split: list.splits)

lemma nm_live_align_usable: "nm_wf n \<Longrightarrow> nm_live (align_usable n) = map align_region (nm_live n)"
  by (simp add: align_usable_def nm_live_def nm_wf_def)

lemma nm_wf_align_usable [inv_intros]: "nm_wf n \<Longrightarrow> nm_wf (align_usable n)"
  by (simp add: align_usable_def nm_live_def nm_wf_def)

definition raw_spans :: "memory_map \<Rightarrow> phys_region list" where
  "raw_spans m = take MAX_REGIONS (spans (mm_live m) (sort (boundaries (mm_live m))))"

lemma nm_live_normalize: "nm_live (normalize m) = map align_region (merged (raw_spans m))"
  by (simp add: normalize_def Let_def sort_u64_eq_sort nm_live_align_usable nm_live_merge_adjacent
      nm_wf_merge_adjacent nm_live_normalize_loop raw_spans_def)

lemma nm_wf_normalize: "nm_wf (normalize m)"
  by (simp add: normalize_def Let_def nm_wf_align_usable nm_wf_merge_adjacent nm_live_normalize_loop)

lemma raw_spans_ordered: "ordered (raw_spans m)"
  using spans_ordered [of "sort (boundaries (mm_live m))" "mm_live m"]
  by (auto simp: raw_spans_def ordered_def sorted_wrt_take dest: in_set_takeD)

lemma raw_spans_top: "kind_at (raw_spans m) a k \<Longrightarrow> top_kind (mm_live m) a k"
  by (rule boundaries_spans [THEN iffD1]) (auto simp: raw_spans_def kind_at_def dest: in_set_takeD)

lemma raw_spans_complete:
  assumes "mm_wf m" and "2 * mm_len m \<le> MAX_REGIONS"
  shows "kind_at (raw_spans m) a k \<longleftrightarrow> top_kind (mm_live m) a k"
proof -
  have "length (boundaries (mm_live m)) = 2 * length (mm_live m)"
    by (simp add: boundaries_def length_concat o_def sum_list_triv)
  then have "length (spans (mm_live m) (sort (boundaries (mm_live m)))) \<le> MAX_REGIONS"
    using length_spans [of "mm_live m" "sort (boundaries (mm_live m))"] assms
    by (simp add: length_mm_live)
  then show ?thesis by (simp add: raw_spans_def boundaries_spans)
qed

definition page_of :: "u64 \<Rightarrow> nat" where
  "page_of a = unat a div 4096"

lemma align_region_other [simp]: "pr_kind r \<noteq> UsableRam \<Longrightarrow> align_region r = r"
  by (simp add: align_region_def)

lemma align_region_usableD:
  "pr_kind (align_region r) = UsableRam \<Longrightarrow>
    pr_kind r = UsableRam \<and> pr_start (align_region r) = align_up (pr_start r) PAGE_SIZE \<and>
    pr_end (align_region r) = align_down (pr_end r) PAGE_SIZE"
  by (auto simp: align_region_def Let_def split: if_splits)

lemma align_region_usable_within:
  assumes "pr_kind (align_region r) = UsableRam" and "unat (pr_start r) + 4095 < 2 ^ 64"
  shows "pr_start r \<le> pr_start (align_region r)" and "pr_end (align_region r) \<le> pr_end r"
    and "4096 dvd unat (pr_start (align_region r))" and "4096 dvd unat (pr_end (align_region r))"
  using align_region_usableD [OF assms(1)] assms(2)
  by (simp_all add: align_up_page_ge align_down_page_le unat_align_up_page unat_align_down_page)

lemma align_region_nonempty_within:
  assumes "pr_start (align_region r) < pr_end (align_region r)"
    and "pr_kind r = UsableRam \<Longrightarrow> unat (pr_start r) + 4095 < 2 ^ 64"
  shows "pr_start r \<le> pr_start (align_region r) \<and> pr_end (align_region r) \<le> pr_end r"
proof (cases "pr_kind (align_region r) = UsableRam")
  case True
  then show ?thesis using align_region_usable_within align_region_usableD assms(2) by blast
next
  case False
  with assms(1) show ?thesis by (auto simp: align_region_def Let_def split: if_splits)
qed

lemma ordered_align:
  assumes "ordered rs" and "\<forall>r\<in>set rs. pr_kind r = UsableRam \<longrightarrow> unat (pr_start r) + 4095 < 2 ^ 64"
  shows "ordered (filter (\<lambda>r. pr_start r < pr_end r) (map align_region rs))"
  using assms
proof (induction rs)
  case (Cons r rs)
  have IH: "ordered (filter (\<lambda>r. pr_start r < pr_end r) (map align_region rs))"
    using Cons ordered_tl by (metis list.set_intros(2))
  have "pr_end (align_region r) \<le> pr_start (align_region s)"
    if "s \<in> set rs" "pr_start (align_region s) < pr_end (align_region s)"
      "pr_start (align_region r) < pr_end (align_region r)" for s
    using align_region_nonempty_within [OF that(2)] align_region_nonempty_within [OF that(3)] Cons.prems that(1)
    by (fastforce simp: ordered_def)
  with IH show ?case by (auto simp: ordered_def)
qed (simp add: ordered_def)

text \<open>A maximal region is not followed by an address of its own kind.\<close>

lemma separate_end:
  assumes "ordered rs" and "successively (\<lambda>r s. \<not> touching r s) rs" and "r \<in> set rs"
  shows "\<not> kind_at rs (pr_end r) (pr_kind r)"
  using assms
proof (induction rs)
  case (Cons h rs)
  note lt = Cons.prems(1) [unfolded ordered_def]
  show ?case
  proof (cases "r = h")
    case False
    with Cons.prems have "r \<in> set rs" by simp
    with Cons ordered_tl have "\<not> kind_at rs (pr_end r) (pr_kind r)"
      by (metis successively_Cons successively.simps(1))
    moreover have "pr_end h \<le> pr_end r" using lt \<open>r \<in> set rs\<close> by fastforce
    ultimately show ?thesis by (auto simp: kind_at_def covers_def)
  next
    case True
    show ?thesis
    proof (cases rs)
      case Nil
      with True show ?thesis by (simp add: kind_at_def covers_def)
    next
      case (Cons t ts)
      have "\<not> touching h t" and "pr_end h \<le> pr_start t" and "pr_start t < pr_end t"
        and "\<forall>s\<in>set ts. pr_end t \<le> pr_start s"
        using Cons.prems(2) lt Cons by auto
      then show ?thesis
        using True Cons by (fastforce simp: kind_at_def covers_def touching_def)
    qed
  qed
qed simp

lemma ordered_disjoint:
  "ordered rs \<Longrightarrow> r \<in> set rs \<Longrightarrow> s \<in> set rs \<Longrightarrow>
    r = s \<or> pr_end r \<le> pr_start s \<or> pr_end s \<le> pr_start r"
  by (induction rs) (auto simp: ordered_def)

lemma page_of_bounds: "page_of a * 4096 \<le> unat a" "unat a < page_of a * 4096 + 4096"
  by (simp_all add: page_of_def dividend_less_div_times add.commute)

lemma unat_pred: "p < unat (x :: u64) \<Longrightarrow> unat (x - 1) = unat x - 1"
  by (metis gr_implies_not0 unat_0 unat_minus_one)

lemma separate_page:
  assumes ord: "ordered rs" and sep: "successively (\<lambda>r s. \<not> touching r s) rs"
    and r: "r \<in> set rs" "pr_kind r = k" "covers r a"
    and page: "\<forall>b. page_of b = page_of a \<longrightarrow> kind_at rs b k"
  shows "unat (pr_start r) \<le> page_of a * 4096 \<and> page_of a * 4096 + 4096 \<le> unat (pr_end r)"
proof (rule ccontr)
  have in_r: "unat (pr_start r) \<le> unat a" "unat a < unat (pr_end r)"
    using r(3) by (auto simp: covers_def word_le_nat_alt word_less_nat_alt)
  note pa = page_of_bounds [of a]
  assume "\<not> ?thesis"
  then consider "unat (pr_end r) < page_of a * 4096 + 4096" | "page_of a * 4096 < unat (pr_start r)"
    by linarith
  then show False
  proof cases
    case 1
    with in_r pa have "unat (pr_end r) div 4096 = page_of a" by (intro div_nat_eqI) simp_all
    with page have "kind_at rs (pr_end r) (pr_kind r)" using r(2) by (simp add: page_of_def)
    with separate_end [OF ord sep r(1)] show False by simp
  next
    case 2
    let ?b = "pr_start r - 1"
    have b: "unat ?b = unat (pr_start r) - 1" using 2 by (rule unat_pred)
    with 2 in_r pa have "unat ?b div 4096 = page_of a" by (intro div_nat_eqI) simp_all
    with page obtain s where s: "s \<in> set rs" "covers s ?b" "pr_kind s = k"
      by (auto simp: page_of_def kind_at_def)
    have bs: "unat (pr_start s) \<le> unat ?b" "unat ?b < unat (pr_end s)"
      using s(2) by (auto simp: covers_def word_le_nat_alt word_less_nat_alt)
    have "pr_end s = pr_start r"
      using ordered_disjoint [OF ord r(1) s(1)] bs b in_r 2
      by (auto simp: word_le_nat_alt word_unat_eq_iff)
    then have "kind_at rs (pr_end s) (pr_kind s)"
      using r s(3) in_r by (auto simp: kind_at_def covers_def word_less_nat_alt)
    with separate_end [OF ord sep s(1)] show False by simp
  qed
qed

lemma align_region_covers_page:
  assumes "pr_kind r = UsableRam" and "unat (pr_start r) \<le> page_of a * 4096"
    and "page_of a * 4096 + 4096 \<le> unat (pr_end r)"
  shows "covers (align_region r) a \<and> pr_kind (align_region r) = UsableRam"
proof -
  note p = page_of_bounds [of a]
  have up: "unat (align_up (pr_start r) PAGE_SIZE) \<le> page_of a * 4096"
    using assms(2,3) unat_u64_less [of "pr_end r"] by (simp add: unat_align_up_page)
  have "page_of a + 1 \<le> unat (pr_end r) div 4096"
    using assms(3) by (simp add: less_eq_div_iff_mult_less_eq)
  then have down: "page_of a * 4096 + 4096 \<le> unat (align_down (pr_end r) PAGE_SIZE)"
    by (simp add: unat_align_down_page)
  from up down have "\<not> align_down (pr_end r) PAGE_SIZE \<le> align_up (pr_start r) PAGE_SIZE"
    by (simp add: word_le_nat_alt)
  then have eq: "align_region r =
    r\<lparr>pr_start := align_up (pr_start r) PAGE_SIZE, pr_end := align_down (pr_end r) PAGE_SIZE\<rparr>"
    using assms(1) by (simp add: align_region_def Let_def)
  show ?thesis
    unfolding eq using p up down assms(1) by (simp add: covers_def word_le_nat_alt word_less_nat_alt)
qed

definition below_top_page :: "phys_region list \<Rightarrow> bool" where
  "below_top_page rs \<longleftrightarrow> (\<forall>r\<in>set rs. pr_kind r = UsableRam \<longrightarrow> unat (pr_end r) + 4096 \<le> 2 ^ 64)"

lemma merged_raw:
  "ordered (merged (raw_spans m))" "kind_at (merged (raw_spans m)) a k \<Longrightarrow> top_kind (mm_live m) a k"
  using merged_ordered merged_kind_at raw_spans_ordered raw_spans_top by blast+

lemma merged_usable_start:
  assumes "below_top_page (mm_live m)" and "r \<in> set (merged (raw_spans m))" and "pr_kind r = UsableRam"
  shows "unat (pr_start r) + 4095 < 2 ^ 64"
proof -
  have "kind_at (merged (raw_spans m)) (pr_start r) UsableRam"
    using merged_raw(1) [of m] assms(2,3) by (auto simp: kind_at_def covers_def ordered_def)
  then have "top_kind (mm_live m) (pr_start r) UsableRam" by (rule merged_raw(2))
  then obtain u where "u \<in> set (mm_live m)" "covers u (pr_start r)" "pr_kind u = UsableRam"
    by (auto simp: top_kind_def)
  with assms(1) show ?thesis
    by (fastforce simp: below_top_page_def covers_def word_less_nat_alt)
qed


text \<open>
  Two concrete maps for the witnesses below: one gigabyte of RAM with a kernel image in it, and the
  same image with usable RAM in the last page of the address space.
\<close>

definition demo_map :: memory_map where
  "demo_map = add_region (add_region mm_new 0 0x40000000 UsableRam) 0x80000 0x3800 KernelImage"

definition top_page_map :: memory_map where
  "top_page_map =
     add_region (add_region mm_new 0x80000 0x1000 KernelImage) 0xFFFFFFFFFFFFF800 0x400 UsableRam"

lemma demo_map_live: "mm_live demo_map = [\<lparr>pr_start = 0, pr_end = 0x40000000, pr_kind = UsableRam\<rparr>,
     \<lparr>pr_start = 0x80000, pr_end = 0x83800, pr_kind = KernelImage\<rparr>]"
  by code_simp

lemma demo_map_wf: "mm_wf demo_map" and demo_map_small: "2 * mm_len demo_map \<le> MAX_REGIONS"
  by (simp_all add: demo_map_def inv_intros)
    (simp add: add_region_def mm_new_def MAX_REGIONS_def Let_def)

lemma demo_map_below: "below_top_page (mm_live demo_map)"
  by (simp add: demo_map_live below_top_page_def)

lemma demo_map_normalized: "nm_live (normalize demo_map) =
    [\<lparr>pr_start = 0, pr_end = 0x80000, pr_kind = UsableRam\<rparr>,
     \<lparr>pr_start = 0x80000, pr_end = 0x83800, pr_kind = KernelImage\<rparr>,
     \<lparr>pr_start = 0x84000, pr_end = 0x40000000, pr_kind = UsableRam\<rparr>]"
  by code_simp

section \<open>Properties\<close>

text \<open>
  C36. \<open>sort_u64\<close> sorts in place: the result is ordered and is a permutation of the input.
\<close>

theorem sort_u64_correct: "sorted (sort_u64 values) \<and> mset (sort_u64 values) = mset values"
  using sort_u64_eq_sort by simp

lemma usable_region_sound:
  assumes "below_top_page (mm_live m)"
    and "r \<in> set (nm_live (normalize m))" and "pr_kind r = UsableRam" and "covers r a"
  shows "top_kind (mm_live m) a UsableRam \<and> 4096 dvd unat (pr_start r) \<and> 4096 dvd unat (pr_end r)"
proof -
  obtain q where q: "q \<in> set (merged (raw_spans m))" and r: "r = align_region q"
    using assms(2) by (auto simp: nm_live_normalize)
  have qU: "pr_kind q = UsableRam" using align_region_usableD assms(3) r by blast
  note within = align_region_usable_within [OF assms(3) [unfolded r] merged_usable_start [OF assms(1) q qU]]
  have "covers q a" using assms(4) within(1,2) r by (auto simp: covers_def)
  then have "kind_at (merged (raw_spans m)) a UsableRam" using q qU by (auto simp: kind_at_def)
  then show ?thesis using merged_raw(2) within(3,4) r by blast
qed

text \<open>
  C1. Soundness of normalization for the frame allocator: an address inside a usable region of the
  normalized map belongs to a usable region of the raw map and to no raw region of higher priority
  (kernel image, boot stack, boot info, reserved, MMIO), and the region's bounds are page-aligned.
  The one condition is that no usable RAM reaches into the last page of the 64-bit address space.
\<close>

theorem normalize_usable_sound:
  assumes "below_top_page (mm_live m)"
    and "r \<in> set (nm_live (normalize m))" and "pr_kind r = UsableRam" and "covers r a"
  shows "top_kind (mm_live m) a UsableRam \<and> 4096 dvd unat (pr_start r) \<and> 4096 dvd unat (pr_end r)"
  by (rule usable_region_sound [OF assms])

theorem normalize_usable_sound_witness:
  "top_kind (mm_live demo_map) 0x84010 UsableRam \<and> 4096 dvd unat (0x84000 :: u64)"
  using normalize_usable_sound [OF demo_map_below, of "\<lparr>pr_start = 0x84000, pr_end = 0x40000000, pr_kind = UsableRam\<rparr>" "0x84010"]
  by (simp add: covers_def demo_map_normalized)



text \<open>
  C14. Completeness of normalization: with at most 64 raw regions nothing is lost. An address whose
  highest-priority raw kind is not usable RAM keeps that kind, and a 4 KiB page all of whose
  addresses are usable RAM stays usable.
\<close>

theorem normalize_complete:
  assumes "mm_wf m" and "2 * mm_len m \<le> MAX_REGIONS" and "top_kind (mm_live m) a k"
    and "k = UsableRam \<Longrightarrow> \<forall>b. page_of b = page_of a \<longrightarrow> top_kind (mm_live m) b UsableRam"
  shows "kind_at (nm_live (normalize m)) a k"
proof -
  let ?ms = "merged (raw_spans m)"
  have at: "kind_at ?ms b j \<longleftrightarrow> top_kind (mm_live m) b j" for b j
    using merged_kind_at [OF raw_spans_ordered] raw_spans_complete [OF assms(1,2)] by simp
  obtain r where r: "r \<in> set ?ms" "covers r a" "pr_kind r = k"
    using at assms(3) by (auto simp: kind_at_def)
  show ?thesis
  proof (cases "k = UsableRam")
    case False
    with r have "align_region r = r" by simp
    with r show ?thesis by (force simp: nm_live_normalize kind_at_def)
  next
    case True
    then have "unat (pr_start r) \<le> page_of a * 4096 \<and> page_of a * 4096 + 4096 \<le> unat (pr_end r)"
      using separate_page [OF merged_raw(1) merged_separate r(1,3,2)] at assms(4) by simp
    with align_region_covers_page r(1,3) True show ?thesis
      by (auto simp: nm_live_normalize kind_at_def)
  qed
qed

theorem normalize_complete_witness:
  "kind_at (nm_live (normalize demo_map)) 0x80010 KernelImage \<and>
   kind_at (nm_live (normalize demo_map)) 0x90010 UsableRam"
proof -
  have "\<forall>b. page_of b = page_of 0x90010 \<longrightarrow> top_kind (mm_live demo_map) b UsableRam"
  proof (intro allI impI)
    fix b :: u64
    assume "page_of b = page_of 0x90010"
    then have "page_of b = 0x90" by (simp add: page_of_def)
    then have "0x90000 \<le> unat b" and "unat b < 0x91000" using page_of_bounds [of b] by simp_all
    then show "top_kind (mm_live demo_map) b UsableRam"
      unfolding demo_map_live
      by (simp add: top_kind_def covers_def word_le_nat_alt word_less_nat_alt)
  qed
  then show ?thesis
    using normalize_complete [OF demo_map_wf demo_map_small, of "0x80010" KernelImage]
      normalize_complete [OF demo_map_wf demo_map_small, of "0x90010" UsableRam]
    unfolding demo_map_live by (simp add: top_kind_def covers_def UsableRam_least)
qed


end
