(* ===== verification/Frame.thy ===== *)
theory Frame
  imports Region Bootalloc
begin

text \<open>
  \<open>src/mm/frame.rs\<close>: the physical frame allocator, a bitmap with one bit per 4 KiB frame (set means
  in use). Bit operations index the bitmap slice and so can panic; the loops over frames are
  translated as recursive functions with the loop counter as argument. Frame numbers are at most
  \<open>2 ^ 52\<close>, so their arithmetic cannot wrap and they are \<open>nat\<close>; in \<open>alloc_contiguous\<close> the first
  test, at frame 0, already bounds the requested length by the frame count, so \<open>idx + pages\<close> cannot
  wrap either.
\<close>

section \<open>Definitions\<close>

record frame_allocator =
  frame_count :: nat
  bitmap :: "u64 list"

definition test_bit :: "frame_allocator \<Rightarrow> nat \<Rightarrow> bool res" where
  "test_bit fa idx =
     and_then (arr_get (bitmap fa) (idx div 64)) (\<lambda>w. Inr (w AND push_bit (idx mod 64) 1 \<noteq> 0))"

definition set_bit :: "frame_allocator \<Rightarrow> nat \<Rightarrow> frame_allocator res" where
  "set_bit fa idx =
     and_then (arr_get (bitmap fa) (idx div 64)) (\<lambda>w.
     and_then (arr_set (bitmap fa) (idx div 64) (w OR push_bit (idx mod 64) 1)) (\<lambda>bm.
     Inr (fa\<lparr>bitmap := bm\<rparr>)))"

definition clear_bit :: "frame_allocator \<Rightarrow> nat \<Rightarrow> frame_allocator res" where
  "clear_bit fa idx =
     and_then (arr_get (bitmap fa) (idx div 64)) (\<lambda>w.
     and_then (arr_set (bitmap fa) (idx div 64) (w AND NOT (push_bit (idx mod 64) 1))) (\<lambda>bm.
     Inr (fa\<lparr>bitmap := bm\<rparr>)))"

function mark_free_loop :: "frame_allocator \<Rightarrow> nat \<Rightarrow> nat \<Rightarrow> frame_allocator res" where
  "mark_free_loop fa idx end_idx =
     (if idx < end_idx
      then and_then (clear_bit fa idx) (\<lambda>fa'. mark_free_loop fa' (idx + 1) end_idx)
      else Inr fa)"
  by pat_completeness auto
termination
  by (relation "measure (\<lambda>(fa, idx, end_idx). end_idx - idx)") auto

definition mark_free :: "frame_allocator \<Rightarrow> u64 \<Rightarrow> u64 \<Rightarrow> frame_allocator res" where
  "mark_free fa start end = mark_free_loop fa (unat (start div PAGE_SIZE)) (unat (end div PAGE_SIZE))"

function mark_used_loop :: "frame_allocator \<Rightarrow> nat \<Rightarrow> nat \<Rightarrow> frame_allocator res" where
  "mark_used_loop fa idx end_idx =
     (if idx < end_idx
      then and_then (set_bit fa idx) (\<lambda>fa'. mark_used_loop fa' (idx + 1) end_idx)
      else Inr fa)"
  by pat_completeness auto
termination
  by (relation "measure (\<lambda>(fa, idx, end_idx). end_idx - idx)") auto

definition mark_used :: "frame_allocator \<Rightarrow> u64 \<Rightarrow> u64 \<Rightarrow> frame_allocator res" where
  "mark_used fa start end =
     mark_used_loop fa (unat (start div PAGE_SIZE)) (unat (align_up end PAGE_SIZE div PAGE_SIZE))"

function alloc_frame_loop :: "frame_allocator \<Rightarrow> nat \<Rightarrow> (frame_allocator \<times> u64 option) res" where
  "alloc_frame_loop fa idx =
     (if idx < frame_count fa
      then and_then (test_bit fa idx) (\<lambda>b.
        if \<not> b
        then and_then (set_bit fa idx) (\<lambda>fa'. Inr (fa', Some (of_nat idx * PAGE_SIZE)))
        else alloc_frame_loop fa (idx + 1))
      else Inr (fa, None))"
  by pat_completeness auto
termination
  by (relation "measure (\<lambda>(fa, idx). frame_count fa - idx)") auto

definition fa_alloc_frame :: "frame_allocator \<Rightarrow> (frame_allocator \<times> u64 option) res" where
  "fa_alloc_frame fa = alloc_frame_loop fa 0"

text \<open>The inner scan of \<open>alloc_contiguous\<close>: are all frames in \<open>[check, stop)\<close> free?\<close>

function run_free :: "frame_allocator \<Rightarrow> nat \<Rightarrow> nat \<Rightarrow> bool res" where
  "run_free fa check stop =
     (if check < stop
      then and_then (test_bit fa check) (\<lambda>b. if b then Inr False else run_free fa (check + 1) stop)
      else Inr True)"
  by pat_completeness auto
termination
  by (relation "measure (\<lambda>(fa, check, stop). stop - check)") auto

function alloc_contiguous_loop ::
  "frame_allocator \<Rightarrow> nat \<Rightarrow> nat \<Rightarrow> (frame_allocator \<times> u64 option) res" where
  "alloc_contiguous_loop fa pages idx =
     (if idx + pages \<le> frame_count fa
      then and_then (run_free fa idx (idx + pages)) (\<lambda>ok.
        if ok
        then and_then (mark_used_loop fa idx (idx + pages)) (\<lambda>fa'.
          Inr (fa', Some (of_nat idx * PAGE_SIZE)))
        else alloc_contiguous_loop fa pages (idx + 1))
      else Inr (fa, None))"
  by pat_completeness auto
termination
  by (relation "measure (\<lambda>(fa, pages, idx). Suc (frame_count fa) - idx)") auto

declare mark_free_loop.simps [simp del] mark_used_loop.simps [simp del]
  alloc_frame_loop.simps [simp del] run_free.simps [simp del] alloc_contiguous_loop.simps [simp del]

definition fa_alloc_contiguous ::
  "frame_allocator \<Rightarrow> nat \<Rightarrow> (frame_allocator \<times> u64 option) res" where
  "fa_alloc_contiguous fa pages =
     (if pages = 0 then Inr (fa, None) else alloc_contiguous_loop fa pages 0)"

definition fa_free_frame :: "frame_allocator \<Rightarrow> u64 \<Rightarrow> frame_allocator res" where
  "fa_free_frame fa paddr =
     (let idx = unat (paddr div PAGE_SIZE) in
      if idx < frame_count fa then clear_bit fa idx else Inr fa)"

subsection \<open>The module's entry points, on the static \<open>FRAME_ALLOC\<close>\<close>

definition alloc_frame :: "frame_allocator option \<Rightarrow> (frame_allocator option \<times> u64 option) res" where
  "alloc_frame guard =
     (case guard of
        None \<Rightarrow> Inr (None, None)
      | Some fa \<Rightarrow> and_then (fa_alloc_frame fa) (\<lambda>(fa', r). Inr (Some fa', r)))"

definition alloc_contiguous ::
  "nat \<Rightarrow> frame_allocator option \<Rightarrow> (frame_allocator option \<times> u64 option) res" where
  "alloc_contiguous pages guard =
     (case guard of
        None \<Rightarrow> Inr (None, None)
      | Some fa \<Rightarrow> and_then (fa_alloc_contiguous fa pages) (\<lambda>(fa', r). Inr (Some fa', r)))"

definition free_frame :: "u64 \<Rightarrow> frame_allocator option \<Rightarrow> frame_allocator option res" where
  "free_frame paddr guard =
     (case guard of
        None \<Rightarrow> Inr None
      | Some fa \<Rightarrow> and_then (fa_free_frame fa paddr) (\<lambda>fa'. Inr (Some fa')))"

definition usable_max_end :: "normalized_map \<Rightarrow> u64" where
  "usable_max_end n =
     fold (\<lambda>r max_end. if pr_kind r = UsableRam \<and> pr_end r > max_end then pr_end r else max_end)
       (nm_live n) 0"

fun mark_usable :: "phys_region list \<Rightarrow> frame_allocator \<Rightarrow> frame_allocator res" where
  "mark_usable [] fa = Inr fa"
| "mark_usable (r # rs) fa =
     (if pr_kind r \<noteq> UsableRam then mark_usable rs fa
      else and_then (mark_free fa (pr_start r) (pr_end r)) (mark_usable rs))"

definition frame_init ::
  "normalized_map \<Rightarrow> boot_state \<times> frame_allocator option \<Rightarrow>
   (boot_state \<times> frame_allocator option) res" where
  "frame_init nmap st =
     (let max_end = usable_max_end nmap in
      if max_end = 0 then Inr st
      else let count = unat (align_up max_end PAGE_SIZE div PAGE_SIZE);
               words = (count + 63) div 64;
               bytes = words * 8
        in case boot_alloc (of_nat bytes) 8 (fst st) of
             (boot, None) \<Rightarrow> Inr (boot, snd st)
           | (boot, Some bitmap_paddr) \<Rightarrow>
               and_then
                 (mark_usable (nm_live nmap) \<lparr>frame_count = count, bitmap = replicate words u64_max\<rparr>)
                 (\<lambda>fa. and_then (mark_used fa (fst (used_range boot)) (snd (used_range boot)))
                    (\<lambda>fa'. Inr (boot, Some fa'))))"

section \<open>Bits\<close>

definition bit_capacity :: "frame_allocator \<Rightarrow> nat" where
  "bit_capacity fa = 64 * length (bitmap fa)"

definition used :: "frame_allocator \<Rightarrow> nat \<Rightarrow> bool" where
  "used fa i \<longleftrightarrow> bit (bitmap fa ! (i div 64)) (i mod 64)"

definition free_frames :: "frame_allocator \<Rightarrow> nat set" where
  "free_frames fa = {i. i < frame_count fa \<and> \<not> used fa i}"

definition frame_wf :: "frame_allocator \<Rightarrow> bool" where
  "frame_wf fa \<longleftrightarrow> frame_count fa \<le> 2 ^ 52 \<and> length (bitmap fa) = (frame_count fa + 63) div 64"

text \<open>Two states of the same allocator: the geometry agrees.\<close>

definition same_shape :: "frame_allocator \<Rightarrow> frame_allocator \<Rightarrow> bool" where
  "same_shape fa fb \<longleftrightarrow> frame_count fb = frame_count fa \<and> length (bitmap fb) = length (bitmap fa)"

lemma same_shape_refl [simp]: "same_shape fa fa"
  by (simp add: same_shape_def)

lemma same_shape_trans: "same_shape fa fb \<Longrightarrow> same_shape fb fc \<Longrightarrow> same_shape fa fc"
  by (simp add: same_shape_def)

lemma same_shape_capacity: "same_shape fa fb \<Longrightarrow> bit_capacity fb = bit_capacity fa"
  by (simp add: same_shape_def bit_capacity_def)

lemma same_shape_wf: "same_shape fa fb \<Longrightarrow> frame_wf fa \<Longrightarrow> frame_wf fb"
  by (simp add: same_shape_def frame_wf_def)

lemma frame_count_capacity: "frame_wf fa \<Longrightarrow> frame_count fa \<le> bit_capacity fa"
  by (simp add: frame_wf_def bit_capacity_def)

lemma capacity_index: "i < bit_capacity fa \<Longrightarrow> i div 64 < length (bitmap fa)"
  by (simp add: bit_capacity_def less_mult_imp_div_less mult.commute)

lemma test_bit_ok [res_simps]: "i < bit_capacity fa \<Longrightarrow> test_bit fa i = Inr (used fa i)"
  by (simp add: test_bit_def used_def capacity_index bit_iff_and_push_bit_not_eq_0)

lemma used_update:
  assumes "i < bit_capacity fa" and "j < bit_capacity fa"
    and "\<And>b. bit w b \<longleftrightarrow> (if b = i mod 64 then v else bit (bitmap fa ! (i div 64)) b)"
  shows "used (fa\<lparr>bitmap := (bitmap fa)[i div 64 := w]\<rparr>) j \<longleftrightarrow> (if j = i then v else used fa j)"
proof (cases "j div 64 = i div 64")
  case True
  then have "j mod 64 = i mod 64 \<longleftrightarrow> j = i" by (metis div_mult_mod_eq)
  with True capacity_index [OF assms(1)] assms(3) show ?thesis by (auto simp: used_def)
next
  case False
  then show ?thesis by (auto simp: used_def)
qed

lemma bit_set_u64: "k < 64 \<Longrightarrow> bit ((w :: u64) OR push_bit k 1) b \<longleftrightarrow> (if b = k then True else bit w b)"
  by (auto simp: bit_simps)

lemma bit_clear_u64:
  "k < 64 \<Longrightarrow> bit ((w :: u64) AND NOT (push_bit k 1)) b \<longleftrightarrow> (if b = k then False else bit w b)"
  by (auto simp: bit_simps dest: bit_imp_le_length)

lemma set_bit_ok:
  assumes "i < bit_capacity fa"
  shows "\<exists>fb. set_bit fa i = Inr fb \<and> same_shape fa fb \<and>
    (\<forall>j<bit_capacity fa. used fb j \<longleftrightarrow> j = i \<or> used fa j)"
proof -
  let ?w = "bitmap fa ! (i div 64) OR push_bit (i mod 64) 1"
  have "\<forall>j<bit_capacity fa. used (fa\<lparr>bitmap := (bitmap fa)[i div 64 := ?w]\<rparr>) j \<longleftrightarrow> (if j = i then True else used fa j)"
    by (intro allI impI, rule used_update [OF assms]) (simp_all only: bit_set_u64 mod_less_divisor zero_less_numeral)
  with capacity_index [OF assms] show ?thesis
    by (simp add: set_bit_def same_shape_def del: push_bit_of_1)
qed

lemma clear_bit_ok:
  assumes "i < bit_capacity fa"
  shows "\<exists>fb. clear_bit fa i = Inr fb \<and> same_shape fa fb \<and>
    (\<forall>j<bit_capacity fa. used fb j \<longleftrightarrow> j \<noteq> i \<and> used fa j)"
proof -
  let ?w = "bitmap fa ! (i div 64) AND NOT (push_bit (i mod 64) 1)"
  have "\<forall>j<bit_capacity fa. used (fa\<lparr>bitmap := (bitmap fa)[i div 64 := ?w]\<rparr>) j \<longleftrightarrow> (if j = i then False else used fa j)"
    by (intro allI impI, rule used_update [OF assms]) (simp_all only: bit_clear_u64 mod_less_divisor zero_less_numeral)
  with capacity_index [OF assms] show ?thesis
    by (simp add: clear_bit_def same_shape_def del: push_bit_of_1)
qed

section \<open>Loops over frames\<close>

lemma mark_free_loop_ok:
  "end_idx \<le> bit_capacity fa \<Longrightarrow>
   \<exists>fb. mark_free_loop fa idx end_idx = Inr fb \<and> same_shape fa fb \<and>
     (\<forall>j<bit_capacity fa. used fb j \<longleftrightarrow> \<not> (idx \<le> j \<and> j < end_idx) \<and> used fa j)"
proof (induction "end_idx - idx" arbitrary: fa idx)
  case 0
  then show ?case by (auto simp: mark_free_loop.simps [of fa idx])
next
  case (Suc n)
  then have idx: "idx < end_idx" "idx < bit_capacity fa" by simp_all
  obtain fb where fb: "clear_bit fa idx = Inr fb" "same_shape fa fb"
    "\<forall>j<bit_capacity fa. used fb j \<longleftrightarrow> j \<noteq> idx \<and> used fa j"
    using clear_bit_ok [OF idx(2)] by blast
  have "\<exists>fc. mark_free_loop fb (idx + 1) end_idx = Inr fc \<and> same_shape fb fc \<and>
      (\<forall>j<bit_capacity fb. used fc j \<longleftrightarrow> \<not> (idx + 1 \<le> j \<and> j < end_idx) \<and> used fb j)"
    using Suc same_shape_capacity [OF fb(2)] by (intro Suc.hyps(1)) simp_all
  then obtain fc where fc: "mark_free_loop fb (idx + 1) end_idx = Inr fc" "same_shape fb fc"
      "\<forall>j<bit_capacity fa. used fc j \<longleftrightarrow> \<not> (idx + 1 \<le> j \<and> j < end_idx) \<and> used fb j"
    using same_shape_capacity [OF fb(2)] by auto
  have "\<forall>j<bit_capacity fa. used fc j \<longleftrightarrow> \<not> (idx \<le> j \<and> j < end_idx) \<and> used fa j"
    using fc(3) fb(3) idx(1) by (auto simp: less_eq_Suc_le [symmetric] le_less)
  with fb fc idx(1) same_shape_trans show ?case
    by (auto simp: mark_free_loop.simps [of fa idx])
qed

lemma mark_used_loop_ok:
  "end_idx \<le> bit_capacity fa \<Longrightarrow>
   \<exists>fb. mark_used_loop fa idx end_idx = Inr fb \<and> same_shape fa fb \<and>
     (\<forall>j<bit_capacity fa. used fb j \<longleftrightarrow> (idx \<le> j \<and> j < end_idx) \<or> used fa j)"
proof (induction "end_idx - idx" arbitrary: fa idx)
  case 0
  then show ?case by (auto simp: mark_used_loop.simps [of fa idx])
next
  case (Suc n)
  then have idx: "idx < end_idx" "idx < bit_capacity fa" by simp_all
  obtain fb where fb: "set_bit fa idx = Inr fb" "same_shape fa fb"
    "\<forall>j<bit_capacity fa. used fb j \<longleftrightarrow> j = idx \<or> used fa j"
    using set_bit_ok [OF idx(2)] by blast
  have "\<exists>fc. mark_used_loop fb (idx + 1) end_idx = Inr fc \<and> same_shape fb fc \<and>
      (\<forall>j<bit_capacity fb. used fc j \<longleftrightarrow> (idx + 1 \<le> j \<and> j < end_idx) \<or> used fb j)"
    using Suc same_shape_capacity [OF fb(2)] by (intro Suc.hyps(1)) simp_all
  then obtain fc where fc: "mark_used_loop fb (idx + 1) end_idx = Inr fc" "same_shape fb fc"
      "\<forall>j<bit_capacity fa. used fc j \<longleftrightarrow> (idx + 1 \<le> j \<and> j < end_idx) \<or> used fb j"
    using same_shape_capacity [OF fb(2)] by auto
  have "\<forall>j<bit_capacity fa. used fc j \<longleftrightarrow> (idx \<le> j \<and> j < end_idx) \<or> used fa j"
    using fc(3) fb(3) idx(1) by (auto simp: less_eq_Suc_le [symmetric] le_less)
  with fb fc idx(1) same_shape_trans show ?case
    by (auto simp: mark_used_loop.simps [of fa idx])
qed

lemma run_free_ok:
  "stop \<le> bit_capacity fa \<Longrightarrow>
   run_free fa check stop = Inr (\<forall>j. check \<le> j \<and> j < stop \<longrightarrow> \<not> used fa j)"
proof (induction fa check stop rule: run_free.induct)
  case (1 fa check stop)
  show ?case
  proof (cases "check < stop")
    case False
    then show ?thesis by (auto simp: run_free.simps [of fa check])
  next
    case True
    with "1.prems" have t: "test_bit fa check = Inr (used fa check)" by (simp add: test_bit_ok)
    have unroll: "(\<forall>j. check \<le> j \<and> j < stop \<longrightarrow> \<not> used fa j) \<longleftrightarrow>
        \<not> used fa check \<and> (\<forall>j. check + 1 \<le> j \<and> j < stop \<longrightarrow> \<not> used fa j)"
      using True by (auto simp del: One_nat_def) (metis Suc_eq_plus1 Suc_leI le_neq_implies_less)
    show ?thesis
      using "1.IH" [OF True, of "used fa check"] "1.prems" True t
      by (simp add: run_free.simps [of fa check] unroll del: One_nat_def)
  qed
qed

definition first_free :: "frame_allocator \<Rightarrow> nat \<Rightarrow> nat \<Rightarrow> bool" where
  "first_free fa from i \<longleftrightarrow>
     from \<le> i \<and> i < frame_count fa \<and> \<not> used fa i \<and> (\<forall>j. from \<le> j \<and> j < i \<longrightarrow> used fa j)"

lemma first_free_unique: "first_free fa from i \<Longrightarrow> first_free fa from j \<Longrightarrow> i = j"
  by (metis first_free_def linorder_neqE_nat)

lemma alloc_frame_loop_ok:
  assumes "frame_wf fa"
  shows "(\<exists>i fb. first_free fa idx i \<and> set_bit fa i = Inr fb \<and>
      alloc_frame_loop fa idx = Inr (fb, Some (of_nat i * PAGE_SIZE))) \<or>
    ((\<forall>j. idx \<le> j \<and> j < frame_count fa \<longrightarrow> used fa j) \<and> alloc_frame_loop fa idx = Inr (fa, None))"
proof (induction "frame_count fa - idx" arbitrary: idx)
  case 0
  then show ?case by (auto simp: alloc_frame_loop.simps [of fa idx])
next
  case (Suc n)
  then have idx: "idx < frame_count fa" "idx < bit_capacity fa"
    using frame_count_capacity [OF assms] by simp_all
  have eq: "alloc_frame_loop fa idx =
    (if \<not> used fa idx then and_then (set_bit fa idx) (\<lambda>fa'. Inr (fa', Some (of_nat idx * PAGE_SIZE)))
     else alloc_frame_loop fa (idx + 1))"
    using idx by (simp add: alloc_frame_loop.simps [of fa idx] test_bit_ok)
  show ?case
  proof (cases "used fa idx")
    case False
    then have "first_free fa idx idx" using idx by (auto simp: first_free_def)
    with False eq set_bit_ok [OF idx(2)] show ?thesis by force
  next
    case True
    have step: "idx \<le> j \<longleftrightarrow> j = idx \<or> idx + 1 \<le> j" for j by auto
    have ff: "first_free fa (idx + 1) i \<Longrightarrow> first_free fa idx i" for i
      using True unfolding first_free_def step by blast
    have all: "(\<forall>j. idx + 1 \<le> j \<and> j < frame_count fa \<longrightarrow> used fa j) \<Longrightarrow>
        (\<forall>j. idx \<le> j \<and> j < frame_count fa \<longrightarrow> used fa j)"
      using True unfolding step by blast
    have n: "n = frame_count fa - (idx + 1)" using Suc.hyps(2) by simp
    have eq': "alloc_frame_loop fa idx = alloc_frame_loop fa (idx + 1)" using True eq by simp
    show ?thesis unfolding eq' using Suc.hyps(1) [OF n] ff all by blast
  qed
qed


definition free_run :: "frame_allocator \<Rightarrow> nat \<Rightarrow> nat \<Rightarrow> bool" where
  "free_run fa pages i \<longleftrightarrow> i + pages \<le> frame_count fa \<and> (\<forall>j. i \<le> j \<and> j < i + pages \<longrightarrow> \<not> used fa j)"

lemma alloc_contiguous_loop_ok:
  assumes "frame_wf fa"
  shows "(\<exists>i fb. idx \<le> i \<and> free_run fa pages i \<and> (\<forall>j. idx \<le> j \<and> j < i \<longrightarrow> \<not> free_run fa pages j) \<and>
      mark_used_loop fa i (i + pages) = Inr fb \<and>
      alloc_contiguous_loop fa pages idx = Inr (fb, Some (of_nat i * PAGE_SIZE))) \<or>
    ((\<forall>j. idx \<le> j \<longrightarrow> \<not> free_run fa pages j) \<and> alloc_contiguous_loop fa pages idx = Inr (fa, None))"
proof (induction "Suc (frame_count fa) - (idx + pages)" arbitrary: idx)
  case 0
  then show ?case by (auto simp: alloc_contiguous_loop.simps [of fa pages idx] free_run_def)
next
  case (Suc n)
  then have idx: "idx + pages \<le> frame_count fa" "idx + pages \<le> bit_capacity fa"
    using frame_count_capacity [OF assms] by simp_all
  have free: "run_free fa idx (idx + pages) = Inr (free_run fa pages idx)"
    using run_free_ok [OF idx(2)] idx(1) by (simp add: free_run_def)
  show ?case
  proof (cases "free_run fa pages idx")
    case True
    then show ?thesis
      using mark_used_loop_ok [OF idx(2), of idx] idx(1) free
      by (force simp: alloc_contiguous_loop.simps [of fa pages idx])
  next
    case False
    then have eq: "alloc_contiguous_loop fa pages idx = alloc_contiguous_loop fa pages (idx + 1)"
      using idx(1) free by (simp add: alloc_contiguous_loop.simps [of fa pages idx])
    have step: "idx \<le> j \<longleftrightarrow> j = idx \<or> idx + 1 \<le> j" for j by auto
    have IH: "(\<exists>i fb. idx + 1 \<le> i \<and> free_run fa pages i \<and> (\<forall>j. idx + 1 \<le> j \<and> j < i \<longrightarrow> \<not> free_run fa pages j) \<and>
        mark_used_loop fa i (i + pages) = Inr fb \<and>
        alloc_contiguous_loop fa pages (idx + 1) = Inr (fb, Some (of_nat i * PAGE_SIZE))) \<or>
      ((\<forall>j. idx + 1 \<le> j \<longrightarrow> \<not> free_run fa pages j) \<and> alloc_contiguous_loop fa pages (idx + 1) = Inr (fa, None))"
      using Suc.hyps(2) by (intro Suc.hyps(1)) simp
    show ?thesis unfolding eq step using IH False by blast
  qed
qed

section \<open>Operations\<close>

lemma unat_frame_addr: "i \<le> 2 ^ 52 - 1 \<Longrightarrow> unat (of_nat i * PAGE_SIZE) = i * 4096"
  by (simp add: unat_word_ariths unat_of_nat)

lemma frame_of_addr: "i \<le> 2 ^ 52 - 1 \<Longrightarrow> unat ((of_nat i * PAGE_SIZE) div PAGE_SIZE) = i"
  by (simp add: unat_div unat_frame_addr)

lemma free_frames_shape:
  "same_shape fa fb \<Longrightarrow> frame_wf fa \<Longrightarrow> (\<forall>j<bit_capacity fa. used fb j \<longleftrightarrow> P j \<or> used fa j) \<Longrightarrow>
    free_frames fb = free_frames fa - Collect P"
  using frame_count_capacity [of fa] by (auto simp: free_frames_def same_shape_def)

lemma fa_alloc_frame_ok:
  assumes "frame_wf fa"
  shows "if free_frames fa = {} then fa_alloc_frame fa = Inr (fa, None)
    else \<exists>fb. fa_alloc_frame fa = Inr (fb, Some (of_nat (Min (free_frames fa)) * PAGE_SIZE)) \<and>
      same_shape fa fb \<and> free_frames fb = free_frames fa - {Min (free_frames fa)}"
proof (cases "\<exists>i. first_free fa 0 i")
  case True
  then obtain i where i: "first_free fa 0 i" by blast
  then have "i \<in> free_frames fa" and "\<forall>j\<in>free_frames fa. i \<le> j"
    by (auto simp: first_free_def free_frames_def not_less [symmetric])
  moreover have "finite (free_frames fa)" by (simp add: free_frames_def)
  ultimately have min: "Min (free_frames fa) = i" "free_frames fa \<noteq> {}" by (auto intro: Min_eqI)
  have "i < bit_capacity fa" using i frame_count_capacity [OF assms] by (simp add: first_free_def)
  from set_bit_ok [OF this] obtain fb where fb: "set_bit fa i = Inr fb" "same_shape fa fb"
    "\<forall>j<bit_capacity fa. used fb j \<longleftrightarrow> j = i \<or> used fa j" by blast
  have "alloc_frame_loop fa 0 = Inr (fb, Some (of_nat i * PAGE_SIZE))"
    using alloc_frame_loop_ok [OF assms, of 0]
  proof (elim disjE exE conjE)
    fix j fc
    assume "first_free fa 0 j" "set_bit fa j = Inr fc" "alloc_frame_loop fa 0 = Inr (fc, Some (of_nat j * PAGE_SIZE))"
    with first_free_unique [OF i] fb(1) show ?thesis by simp
  qed (use i in \<open>auto simp: first_free_def\<close>)
  with fb min free_frames_shape [OF fb(2) assms fb(3)] show ?thesis by (simp add: fa_alloc_frame_def)
next
  case False
  then show ?thesis using alloc_frame_loop_ok [OF assms, of 0]
    by (auto simp: fa_alloc_frame_def free_frames_def)
qed

lemma fa_alloc_contiguous_ok:
  assumes "frame_wf fa" and "0 < pages"
  shows "((\<forall>j. \<not> free_run fa pages j) \<and> fa_alloc_contiguous fa pages = Inr (fa, None)) \<or>
    (\<exists>i fb. free_run fa pages i \<and> (\<forall>j<i. \<not> free_run fa pages j) \<and>
      fa_alloc_contiguous fa pages = Inr (fb, Some (of_nat i * PAGE_SIZE)) \<and>
      same_shape fa fb \<and> free_frames fb = free_frames fa - {i..<i + pages})"
proof (cases "\<exists>j. free_run fa pages j")
  case False
  then show ?thesis using alloc_contiguous_loop_ok [OF assms(1), of 0 pages] assms(2)
    by (auto simp: fa_alloc_contiguous_def)
next
  case True
  then obtain i fb where i: "free_run fa pages i" "\<forall>j<i. \<not> free_run fa pages j"
    and fb: "mark_used_loop fa i (i + pages) = Inr fb"
      "alloc_contiguous_loop fa pages 0 = Inr (fb, Some (of_nat i * PAGE_SIZE))"
    using alloc_contiguous_loop_ok [OF assms(1), of 0 pages] by auto
  have "i + pages \<le> bit_capacity fa"
    using i(1) frame_count_capacity [OF assms(1)] by (simp add: free_run_def)
  from mark_used_loop_ok [OF this, of i] fb(1) have "same_shape fa fb"
    and "\<forall>j<bit_capacity fa. used fb j \<longleftrightarrow> (i \<le> j \<and> j < i + pages) \<or> used fa j" by auto
  then have "same_shape fa fb \<and> free_frames fb = free_frames fa - {i..<i + pages}"
    using free_frames_shape [OF _ assms(1), of fb "\<lambda>j. i \<le> j \<and> j < i + pages"] by auto
  with i fb(2) assms(2) show ?thesis by (auto simp: fa_alloc_contiguous_def)
qed

lemma fa_free_frame_ok:
  assumes "frame_wf fa"
  shows "\<exists>fb. fa_free_frame fa p = Inr fb \<and> same_shape fa fb \<and>
    free_frames fb = free_frames fa \<union> ({unat p div 4096} \<inter> {..<frame_count fa})"
proof (cases "unat p div 4096 < frame_count fa")
  case True
  then have "unat p div 4096 < bit_capacity fa" using frame_count_capacity [OF assms] by simp
  from clear_bit_ok [OF this] True show ?thesis
    using frame_count_capacity [OF assms]
    by (auto simp: fa_free_frame_def Let_def unat_div free_frames_def same_shape_def)
next
  case False
  then show ?thesis by (simp add: fa_free_frame_def Let_def unat_div)
qed

section \<open>The contract of a frame source, and ownership\<close>

definition frame_no :: "u64 \<Rightarrow> nat" where
  "frame_no p = unat p div 4096"

text \<open>
  A client holds the frames it was given and has not returned. \<open>own_step\<close> interleaves the three
  operations of a frame source in any order; a client returns only frames it holds.
\<close>

inductive own_step ::
  "('s \<Rightarrow> ('s \<times> u64 option) res) \<Rightarrow> ('s \<Rightarrow> nat \<Rightarrow> ('s \<times> u64 option) res) \<Rightarrow> ('s \<Rightarrow> u64 \<Rightarrow> 's res) \<Rightarrow>
   's \<times> nat set \<Rightarrow> 's \<times> nat set \<Rightarrow> bool"
  for alloc1 alloc_run free1 where
  own_one: "alloc1 s = Inr (t, Some p) \<Longrightarrow>
     own_step alloc1 alloc_run free1 (s, own) (t, insert (frame_no p) own)"
| own_run: "alloc_run s n = Inr (t, Some p) \<Longrightarrow>
     own_step alloc1 alloc_run free1 (s, own) (t, own \<union> {frame_no p..<frame_no p + n})"
| own_free: "frame_no p \<in> own \<Longrightarrow> free1 s p = Inr t \<Longrightarrow>
     own_step alloc1 alloc_run free1 (s, own) (t, own - {frame_no p})"

locale frame_source =
  fixes alloc1 :: "'s \<Rightarrow> ('s \<times> u64 option) res"
    and alloc_run :: "'s \<Rightarrow> nat \<Rightarrow> ('s \<times> u64 option) res"
    and free1 :: "'s \<Rightarrow> u64 \<Rightarrow> 's res"
    and avail :: "'s \<Rightarrow> nat set" and bound :: "'s \<Rightarrow> nat" and ok :: "'s \<Rightarrow> bool"
  assumes alloc1_some: "ok s \<Longrightarrow> alloc1 s = Inr (t, Some p) \<Longrightarrow>
      ok t \<and> bound t = bound s \<and> frame_no p \<in> avail s \<and> avail t = avail s - {frame_no p}"
    and alloc_run_some: "ok s \<Longrightarrow> alloc_run s n = Inr (t, Some p) \<Longrightarrow>
      ok t \<and> bound t = bound s \<and> {frame_no p..<frame_no p + n} \<subseteq> avail s \<and>
      avail t = avail s - {frame_no p..<frame_no p + n}"
    and free1_ok: "ok s \<Longrightarrow> frame_no p < bound s \<Longrightarrow> free1 s p = Inr t \<Longrightarrow>
      ok t \<and> bound t = bound s \<and> avail t = insert (frame_no p) (avail s)"
    and avail_bound: "ok s \<Longrightarrow> avail s \<subseteq> {..<bound s}"
begin

definition own_inv :: "'s \<times> nat set \<Rightarrow> bool" where
  "own_inv s \<longleftrightarrow> ok (fst s) \<and> snd s \<inter> avail (fst s) = {} \<and> snd s \<subseteq> {..<bound (fst s)}"

lemma own_step_inv: "own_step alloc1 alloc_run free1 s t \<Longrightarrow> own_inv s \<Longrightarrow> own_inv t"
proof (induction rule: own_step.induct)
  case (own_one s t p own)
  then show ?case using alloc1_some [of s t p] avail_bound [of s] by (auto simp: own_inv_def)
next
  case (own_run s n t p own)
  then show ?case using alloc_run_some [of s n t p] avail_bound [of s] by (fastforce simp: own_inv_def)
next
  case (own_free p own s t)
  then have "frame_no p < bound s" by (auto simp: own_inv_def)
  with own_free show ?case using free1_ok [of s p t] by (auto simp: own_inv_def)
qed

end

sublocale frame_source \<subseteq> own: invariant_system
  "\<lambda>c. ok (fst c) \<and> snd c = {}" "own_step alloc1 alloc_run free1" own_inv
proof unfold_locales
  show "own_inv c" if "ok (fst c) \<and> snd c = {}" for c
    using that by (simp add: own_inv_def)
  show "own_inv d" if "own_step alloc1 alloc_run free1 c d" and "own_inv c" for c d
    using that by (rule own_step_inv)
qed

context frame_source
begin

lemma fresh_one:
  assumes "reachable (\<lambda>c. ok (fst c) \<and> snd c = {}) (own_step alloc1 alloc_run free1) (s, own)"
    and "alloc1 s = Inr (t, Some p)"
  shows "frame_no p \<notin> own"
  using own.reachable_inv [OF assms(1)] alloc1_some [OF _ assms(2)] by (auto simp: own_inv_def)

lemma fresh_run:
  assumes "reachable (\<lambda>c. ok (fst c) \<and> snd c = {}) (own_step alloc1 alloc_run free1) (s, own)"
    and "alloc_run s n = Inr (t, Some p)"
  shows "{frame_no p..<frame_no p + n} \<inter> own = {}"
proof -
  have "ok s" and "own \<inter> avail s = {}"
    using own.reachable_inv [OF assms(1)] by (auto simp: own_inv_def)
  with alloc_run_some [OF _ assms(2)] show ?thesis by blast
qed

end

lemma frame_no_addr: "i < 2 ^ 52 \<Longrightarrow> frame_no (of_nat i * PAGE_SIZE) = i"
  by (simp add: frame_no_def unat_frame_addr)

interpretation frames: frame_source fa_alloc_frame fa_alloc_contiguous fa_free_frame
  free_frames frame_count frame_wf
proof
  fix s t p
  assume wf: "frame_wf s" and al: "fa_alloc_frame s = Inr (t, Some p)"
  then have ne: "free_frames s \<noteq> {}" using fa_alloc_frame_ok [OF wf] by (auto split: if_splits)
  have "Min (free_frames s) \<in> free_frames s" using ne by (intro Min_in) (auto simp: free_frames_def)
  moreover from this have "Min (free_frames s) < 2 ^ 52" using wf by (auto simp: free_frames_def frame_wf_def)
  ultimately show "frame_wf t \<and> frame_count t = frame_count s \<and> frame_no p \<in> free_frames s \<and>
      free_frames t = free_frames s - {frame_no p}"
    using fa_alloc_frame_ok [OF wf] ne al same_shape_wf [OF _ wf]
    by (auto simp: frame_no_addr same_shape_def)
next
  fix s n t p
  assume wf: "frame_wf s" and al: "fa_alloc_contiguous s n = Inr (t, Some p)"
  then have "0 < n" by (auto simp: fa_alloc_contiguous_def split: if_splits)
  from fa_alloc_contiguous_ok [OF wf this] al obtain i where i: "free_run s n i" "p = of_nat i * PAGE_SIZE"
    "same_shape s t" "free_frames t = free_frames s - {i..<i + n}" by auto
  then have "i < 2 ^ 52" using wf \<open>0 < n\<close> by (simp add: free_run_def frame_wf_def)
  with i same_shape_wf [OF _ wf] show "frame_wf t \<and> frame_count t = frame_count s \<and>
      {frame_no p..<frame_no p + n} \<subseteq> free_frames s \<and> free_frames t = free_frames s - {frame_no p..<frame_no p + n}"
    by (auto simp: frame_no_addr same_shape_def free_run_def free_frames_def)
next
  fix s p t
  assume "frame_wf s" "frame_no p < frame_count s" "fa_free_frame s p = Inr t"
  then show "frame_wf t \<and> frame_count t = frame_count s \<and> free_frames t = insert (frame_no p) (free_frames s)"
    using fa_free_frame_ok [of s p] same_shape_wf [of s t] by (auto simp: frame_no_def same_shape_def)
qed (auto simp: free_frames_def)

section \<open>Initialisation\<close>

definition in_frames :: "phys_region \<Rightarrow> nat \<Rightarrow> bool" where
  "in_frames r j \<longleftrightarrow> pr_kind r = UsableRam \<and> unat (pr_start r) div 4096 \<le> j \<and> j < unat (pr_end r) div 4096"

lemma mark_usable_ok:
  "\<forall>r\<in>set rs. pr_kind r = UsableRam \<longrightarrow> unat (pr_end r) div 4096 \<le> bit_capacity fa \<Longrightarrow>
   \<exists>fb. mark_usable rs fa = Inr fb \<and> same_shape fa fb \<and>
     (\<forall>j<bit_capacity fa. used fb j \<longleftrightarrow> used fa j \<and> \<not> (\<exists>r\<in>set rs. in_frames r j))"
proof (induction rs arbitrary: fa)
  case (Cons r rs)
  show ?case
  proof (cases "pr_kind r = UsableRam")
    case False
    with Cons show ?thesis by (auto simp: in_frames_def)
  next
    case True
    obtain fb where fb: "mark_free fa (pr_start r) (pr_end r) = Inr fb" "same_shape fa fb"
      "\<forall>j<bit_capacity fa. used fb j \<longleftrightarrow> \<not> in_frames r j \<and> used fa j"
      using mark_free_loop_ok [of "unat (pr_end r) div 4096" fa "unat (pr_start r) div 4096"] Cons.prems True
      by (auto simp: mark_free_def unat_div in_frames_def)
    note cap = same_shape_capacity [OF fb(2)]
    obtain fc where "mark_usable rs fb = Inr fc" "same_shape fb fc"
      "\<forall>j<bit_capacity fb. used fc j \<longleftrightarrow> used fb j \<and> \<not> (\<exists>r\<in>set rs. in_frames r j)"
      using Cons.IH [of fb] Cons.prems cap by auto
    with fb True same_shape_trans show ?thesis unfolding cap by auto
  qed
qed auto

lemma mark_used_ok:
  assumes "unat e + 4095 < 2 ^ 64" and "(unat e + 4095) div 4096 \<le> bit_capacity fa"
  shows "\<exists>fb. mark_used fa s e = Inr fb \<and> same_shape fa fb \<and>
    (\<forall>j<bit_capacity fa. used fb j \<longleftrightarrow>
       (unat s div 4096 \<le> j \<and> j < (unat e + 4095) div 4096) \<or> used fa j)"
proof -
  have "unat (align_up e PAGE_SIZE div PAGE_SIZE) = (unat e + 4095) div 4096"
    using assms(1) by (simp add: unat_div unat_align_up_page)
  with mark_used_loop_ok [OF assms(2), of "unat s div 4096"] show ?thesis
    by (simp add: mark_used_def unat_div)
qed

lemma usable_max_end_ge:
  assumes "r \<in> set (nm_live n)" and "pr_kind r = UsableRam"
  shows "pr_end r \<le> usable_max_end n"
proof -
  let ?f = "\<lambda>r m. if pr_kind r = UsableRam \<and> pr_end r > m then pr_end r else m"
  have mono: "m \<le> fold ?f rs m" for rs m
    by (induction rs arbitrary: m) (auto intro: order_trans less_imp_le)
  have "r \<in> set rs \<Longrightarrow> pr_end r \<le> fold ?f rs m" for rs m
    using assms(2) by (induction rs arbitrary: m) (auto intro: order_trans [OF _ mono])
  with assms(1) show ?thesis by (simp add: usable_max_end_def)
qed

lemma fresh_bitmap_used: "i < 64 * words \<Longrightarrow> used \<lparr>frame_count = c, bitmap = replicate words u64_max\<rparr> i"
  by (simp add: used_def u64_max_def less_mult_imp_div_less mult.commute)

text \<open>The bitmap after the usable regions were released: free exactly where a usable region is.\<close>

abbreviation fresh_allocator :: "nat \<Rightarrow> frame_allocator" where
  "fresh_allocator cnt \<equiv> \<lparr>frame_count = cnt, bitmap = replicate ((cnt + 63) div 64) u64_max\<rparr>"

lemma fresh_usable_ok:
  assumes cnt: "cnt = (unat (usable_max_end n) + 4095) div 4096"
  shows "\<exists>fb. mark_usable (nm_live n) (fresh_allocator cnt) = Inr fb \<and> same_shape (fresh_allocator cnt) fb \<and>
    (\<forall>j<bit_capacity fb. used fb j \<longleftrightarrow> \<not> (\<exists>r\<in>set (nm_live n). in_frames r j))"
proof -
  let ?fa = "fresh_allocator cnt"
  have "unat (pr_end r) div 4096 \<le> cnt" if "r \<in> set (nm_live n)" "pr_kind r = UsableRam" for r
    unfolding cnt using usable_max_end_ge [OF that]
    by (intro div_le_mono trans_le_add1) (simp add: word_le_nat_alt)
  moreover have "cnt \<le> bit_capacity ?fa" by (simp add: bit_capacity_def)
  ultimately have "\<forall>r\<in>set (nm_live n). pr_kind r = UsableRam \<longrightarrow> unat (pr_end r) div 4096 \<le> bit_capacity ?fa"
    using order_trans by blast
  from mark_usable_ok [OF this] obtain fb where fb: "mark_usable (nm_live n) ?fa = Inr fb" "same_shape ?fa fb"
    "\<forall>j<bit_capacity ?fa. used fb j \<longleftrightarrow> used ?fa j \<and> \<not> (\<exists>r\<in>set (nm_live n). in_frames r j)"
    by blast
  moreover have "used ?fa j" if "j < bit_capacity ?fa" for j
    using that by (intro fresh_bitmap_used) (simp add: bit_capacity_def)
  ultimately show ?thesis using same_shape_capacity [OF fb(2)] by auto
qed

lemma in_frames_below:
  assumes "r \<in> set (nm_live n)" and "in_frames r j"
  shows "j < (unat (usable_max_end n) + 4095) div 4096"
proof -
  have "unat (pr_end r) div 4096 \<le> (unat (usable_max_end n) + 4095) div 4096"
    using usable_max_end_ge [OF assms(1)] assms(2)
    by (intro div_le_mono trans_le_add1) (simp add: word_le_nat_alt in_frames_def)
  with assms(2) show ?thesis by (simp add: in_frames_def)
qed

lemma frame_init_ok:
  assumes boot: "boot_ok b" "unat (BOOT_END b) \<le> unat (usable_max_end n)"
    and top: "unat (usable_max_end n) + 4095 < 2 ^ 64" and nz: "usable_max_end n \<noteq> 0"
    and al: "boot_alloc (of_nat (((unat (usable_max_end n) + 4095) div 4096 + 63) div 64 * 8)) 8 b = (b', Some p)"
  shows "\<exists>fa. frame_init n (b, g) = Inr (b', Some fa) \<and> frame_wf fa \<and>
    frame_count fa = (unat (usable_max_end n) + 4095) div 4096 \<and>
    free_frames fa = {j. (\<exists>r\<in>set (nm_live n). in_frames r j) \<and>
      \<not> (unat (BOOT_START b) div 4096 \<le> j \<and> j < (unat (BOOT_CURRENT b') + 4095) div 4096)}"
proof -
  define cnt where cnt: "cnt = (unat (usable_max_end n) + 4095) div 4096"
  have wf: "frame_wf (fresh_allocator cnt)" using top by (simp add: frame_wf_def cnt)
  obtain fb where fb: "mark_usable (nm_live n) (fresh_allocator cnt) = Inr fb"
      "same_shape (fresh_allocator cnt) fb"
      "\<forall>j<bit_capacity fb. used fb j \<longleftrightarrow> \<not> (\<exists>r\<in>set (nm_live n). in_frames r j)"
    using fresh_usable_ok [OF cnt] by blast
  have cap: "cnt \<le> bit_capacity fb"
    using frame_count_capacity [OF wf] same_shape_capacity [OF fb(2)] by simp
  have b': "unat (BOOT_CURRENT b') \<le> unat (usable_max_end n)" "BOOT_START b' = BOOT_START b"
    using boot_alloc_some [OF boot(1), of 3] al boot(2) by (fastforce simp: word_le_nat_alt)+
  then have "(unat (BOOT_CURRENT b') + 4095) div 4096 \<le> bit_capacity fb"
    by (intro order_trans [OF div_le_mono cap [unfolded cnt]]) simp
  from mark_used_ok [OF _ this, of "BOOT_START b"] obtain fc
    where fc: "mark_used fb (BOOT_START b) (BOOT_CURRENT b') = Inr fc" "same_shape fb fc"
      "\<forall>j<bit_capacity fb. used fc j \<longleftrightarrow> (unat (BOOT_START b) div 4096 \<le> j \<and>
         j < (unat (BOOT_CURRENT b') + 4095) div 4096) \<or> used fb j"
    using b'(1) top by auto
  have used_fc: "used fc j \<longleftrightarrow> (unat (BOOT_START b) div 4096 \<le> j \<and>
      j < (unat (BOOT_CURRENT b') + 4095) div 4096) \<or> \<not> (\<exists>r\<in>set (nm_live n). in_frames r j)"
    if "j < cnt" for j
    using fb(3) fc(3) less_le_trans [OF that cap] by blast
  have shape: "same_shape (fresh_allocator cnt) fc" using same_shape_trans fb(2) fc(2) .
  have "frame_init n (b, g) = Inr (b', Some fc)"
    using nz fb(1) fc(1) b'(2) al top
    by (simp add: frame_init_def Let_def used_range_def unat_div unat_align_up_page cnt)
  moreover have "frame_count fc = cnt" using shape by (simp add: same_shape_def)
  moreover have "free_frames fc = {j. (\<exists>r\<in>set (nm_live n). in_frames r j) \<and>
      \<not> (unat (BOOT_START b) div 4096 \<le> j \<and> j < (unat (BOOT_CURRENT b') + 4095) div 4096)}"
    unfolding free_frames_def \<open>frame_count fc = cnt\<close>
    using used_fc in_frames_below [of _ n] unfolding cnt by auto
  ultimately show ?thesis using same_shape_wf [OF shape wf] cnt by blast
qed


lemma free_run_iff: "0 < pages \<Longrightarrow> free_run fa pages i \<longleftrightarrow> {i..<i + pages} \<subseteq> free_frames fa"
proof
  assume "0 < pages" and sub: "{i..<i + pages} \<subseteq> free_frames fa"
  then have "i + pages - 1 \<in> free_frames fa" by auto
  with sub \<open>0 < pages\<close> show "free_run fa pages i" by (auto simp: free_run_def free_frames_def)
qed (auto simp: free_run_def free_frames_def)

section \<open>Properties\<close>

definition demo_frames :: frame_allocator where
  "demo_frames = \<lparr>frame_count = 5, bitmap = [0xFFFFFFFFFFFFFFE5]\<rparr>"

lemma demo_frames_wf: "frame_wf demo_frames"
  by (simp add: demo_frames_def frame_wf_def)

lemma demo_frames_used: "j < 5 \<Longrightarrow> used demo_frames j \<longleftrightarrow> j = 0 \<or> j = 2"
proof -
  assume "j < 5"
  then consider "j = 0" | "j = 1" | "j = 2" | "j = 3" | "j = 4" by linarith
  then show ?thesis by cases (simp_all add: demo_frames_def used_def bit_numeral_rec)
qed

lemma demo_frames_free: "free_frames demo_frames = {1, 3, 4}"
proof -
  have "free_frames demo_frames = {j. j < 5 \<and> \<not> used demo_frames j}"
    by (simp add: free_frames_def demo_frames_def)
  also have "\<dots> = {j. j < 5 \<and> \<not> (j = 0 \<or> j = 2)}" using demo_frames_used by blast
  also have "\<dots> = {1, 3, 4}" by auto
  finally show ?thesis .
qed

text \<open>
  C29. \<open>alloc_frame\<close> hands out the lowest free frame and marks exactly that frame used; it returns
  \<open>None\<close>, with the allocator unchanged, only when no frame is free, and it never panics.
\<close>

theorem alloc_frame_lowest_free:
  assumes "frame_wf fa"
  shows "if free_frames fa = {} then alloc_frame (Some fa) = Inr (Some fa, None)
    else \<exists>fb p. alloc_frame (Some fa) = Inr (Some fb, Some p) \<and> unat p = Min (free_frames fa) * 4096 \<and>
      frame_wf fb \<and> free_frames fb = free_frames fa - {Min (free_frames fa)}"
proof (cases "free_frames fa = {}")
  case False
  have "Min (free_frames fa) \<in> free_frames fa" using False by (intro Min_in) (auto simp: free_frames_def)
  then have "Min (free_frames fa) \<le> 2 ^ 52 - 1" using assms by (auto simp: free_frames_def frame_wf_def)
  then show ?thesis
    using fa_alloc_frame_ok [OF assms] False same_shape_wf [OF _ assms]
    by (auto simp: alloc_frame_def unat_frame_addr)
qed (use fa_alloc_frame_ok [OF assms] in \<open>simp add: alloc_frame_def\<close>)

theorem alloc_frame_lowest_free_witness:
  "\<exists>fb p. alloc_frame (Some demo_frames) = Inr (Some fb, Some p) \<and> unat p = 4096 \<and> free_frames fb = {3, 4}"
  using alloc_frame_lowest_free [OF demo_frames_wf] by (auto simp: demo_frames_free)

text \<open>
  C30. \<open>alloc_contiguous\<close> is first fit: it returns the lowest run of the requested length all of whose
  frames are free, marks exactly that run used, and fails only when no such run exists.
\<close>

theorem alloc_contiguous_first_fit:
  assumes "frame_wf fa" and "0 < pages"
  shows "if \<exists>i. {i..<i + pages} \<subseteq> free_frames fa
    then \<exists>i fb p. alloc_contiguous pages (Some fa) = Inr (Some fb, Some p) \<and> unat p = i * 4096 \<and>
      {i..<i + pages} \<subseteq> free_frames fa \<and> (\<forall>j<i. \<not> {j..<j + pages} \<subseteq> free_frames fa) \<and>
      frame_wf fb \<and> free_frames fb = free_frames fa - {i..<i + pages}
    else alloc_contiguous pages (Some fa) = Inr (Some fa, None)"
proof -
  have run: "free_run fa pages i \<longleftrightarrow> {i..<i + pages} \<subseteq> free_frames fa" for i
    using assms(2) by (rule free_run_iff)
  from fa_alloc_contiguous_ok [OF assms] show ?thesis
  proof (elim disjE exE conjE)
    fix i fb
    assume i: "free_run fa pages i" "\<forall>j<i. \<not> free_run fa pages j"
      and fb: "fa_alloc_contiguous fa pages = Inr (fb, Some (of_nat i * PAGE_SIZE))"
        "same_shape fa fb" "free_frames fb = free_frames fa - {i..<i + pages}"
    have "i \<le> 2 ^ 52 - 1" using i(1) assms by (simp add: free_run_def frame_wf_def)
    with i fb same_shape_wf [OF fb(2) assms(1)] show ?thesis
      unfolding run by (auto simp: alloc_contiguous_def unat_frame_addr)
  qed (simp add: run alloc_contiguous_def)
qed

theorem alloc_contiguous_first_fit_witness:
  "\<exists>i fb p. alloc_contiguous 2 (Some demo_frames) = Inr (Some fb, Some p) \<and> unat p = i * 4096 \<and>
     {i..<i + 2} \<subseteq> free_frames demo_frames \<and> free_frames fb = free_frames demo_frames - {i..<i + 2}"
proof -
  have "{3..<3 + 2} \<subseteq> free_frames demo_frames" by (auto simp: demo_frames_free)
  then have ex: "\<exists>i. {i..<i + 2} \<subseteq> free_frames demo_frames" by blast
  have "0 < (2 :: nat)" by simp
  from alloc_contiguous_first_fit [OF demo_frames_wf this, unfolded if_P [OF ex]] show ?thesis by blast
qed

text \<open>
  Allocation and release are inverse: freeing the frame that \<open>alloc_frame\<close> just returned succeeds
  and restores the set of free frames, and a second \<open>alloc_frame\<close> returns the same frame again.
\<close>

theorem free_frame_undoes_alloc:
  assumes "frame_wf fa" and "alloc_frame (Some fa) = Inr (Some fb, Some p)"
  shows "\<exists>fc. free_frame p (Some fb) = Inr (Some fc) \<and> frame_wf fc \<and> free_frames fc = free_frames fa \<and>
    (\<exists>fd. alloc_frame (Some fc) = Inr (Some fd, Some p) \<and> free_frames fd = free_frames fb)"
proof -
  have al: "fa_alloc_frame fa = Inr (fb, Some p)"
    using assms(2) by (auto simp: alloc_frame_def res_simps)
  note s = frames.alloc1_some [OF assms(1) al]
  from s have fb: "frame_wf fb" "unat p div 4096 < frame_count fb" "unat p div 4096 \<in> free_frames fa"
    by (auto simp: frame_no_def free_frames_def)
  from fa_free_frame_ok [OF fb(1), of p] obtain fc where fc: "fa_free_frame fb p = Inr fc"
    "same_shape fb fc" "free_frames fc = free_frames fb \<union> ({unat p div 4096} \<inter> {..<frame_count fb})" by blast
  then have free: "free_frames fc = free_frames fa" using s fb by (auto simp: frame_no_def)
  have wf: "frame_wf fc" using fc(2) fb(1) by (rule same_shape_wf)
  have ne: "free_frames fa \<noteq> {}" using fb(3) by auto
  from fa_alloc_frame_ok [OF wf] ne free obtain fd where
    fd: "fa_alloc_frame fc = Inr (fd, Some (of_nat (Min (free_frames fa)) * PAGE_SIZE))"
      "free_frames fd = free_frames fa - {Min (free_frames fa)}" by auto
  have "p = of_nat (Min (free_frames fa)) * PAGE_SIZE" "free_frames fb = free_frames fa - {Min (free_frames fa)}"
    using fa_alloc_frame_ok [OF assms(1)] ne al by auto
  with fc free wf fd show ?thesis by (auto simp: free_frame_def alloc_frame_def)
qed

theorem free_frame_undoes_alloc_witness:
  "\<exists>fb p fc. alloc_frame (Some demo_frames) = Inr (Some fb, Some p) \<and>
     free_frame p (Some fb) = Inr (Some fc) \<and> free_frames fc = {1, 3, 4}"
proof -
  obtain fb p where "alloc_frame (Some demo_frames) = Inr (Some fb, Some p)"
    using fa_alloc_frame_ok [OF demo_frames_wf] by (auto simp: demo_frames_free alloc_frame_def)
  with free_frame_undoes_alloc [OF demo_frames_wf this] show ?thesis by (auto simp: demo_frames_free)
qed

text \<open>
  C3. No frame has two owners. In every state reached by interleaving single allocations, contiguous
  allocations and releases of held frames, a further contiguous allocation returns only frames that
  nobody holds, all of them inside the managed memory.
\<close>

theorem no_double_allocation:
  assumes "reachable (\<lambda>c. frame_wf (fst c) \<and> snd c = {})
      (own_step fa_alloc_frame fa_alloc_contiguous fa_free_frame) (s, own)"
    and "fa_alloc_contiguous s n = Inr (t, Some p)"
  shows "{frame_no p..<frame_no p + n} \<inter> own = {} \<and> {frame_no p..<frame_no p + n} \<subseteq> {..<frame_count s}"
proof -
  have "frame_wf s" using frames.own.reachable_inv [OF assms(1)] by (simp add: frames.own_inv_def)
  with frames.fresh_run [OF assms] frames.alloc_run_some [OF _ assms(2)] frames.avail_bound [of s]
  show ?thesis by blast
qed

theorem no_double_allocation_witness:
  "\<exists>s own t p. {frame_no p..<frame_no p + 2} \<inter> own = {} \<and> own = {1} \<and>
     fa_alloc_contiguous s 2 = Inr (t, Some p)"
proof -
  obtain s p where s: "fa_alloc_frame demo_frames = Inr (s, Some p)"
    using fa_alloc_frame_ok [OF demo_frames_wf] by (auto simp: demo_frames_free)
  from s have p: "p = of_nat 1 * PAGE_SIZE" and fs: "free_frames s = {3, 4}"
    using fa_alloc_frame_ok [OF demo_frames_wf] by (auto simp: demo_frames_free)
  have no: "frame_no p = 1" unfolding p by (rule frame_no_addr) simp
  let ?step = "own_step fa_alloc_frame fa_alloc_contiguous fa_free_frame"
  have "?step (demo_frames, {}) (s, insert (frame_no p) {})" using s by (rule own_one)
  then have "?step (demo_frames, {}) (s, {1})" by (simp add: no)
  moreover have "reachable (\<lambda>c. frame_wf (fst c) \<and> snd c = {}) ?step (demo_frames, {})"
    by (rule reachable_init) (simp add: demo_frames_wf)
  ultimately have r: "reachable (\<lambda>c. frame_wf (fst c) \<and> snd c = {}) ?step (s, {1})"
    by (rule reachable_step [rotated])
  have wf: "frame_wf s" using frames.alloc1_some [OF demo_frames_wf s] by blast
  have "{3..<3 + 2} \<subseteq> free_frames s" by (auto simp: fs)
  then have "free_run s 2 3" using free_run_iff [of 2 s 3] by simp
  then obtain t q where "fa_alloc_contiguous s 2 = Inr (t, Some q)"
    using fa_alloc_contiguous_ok [OF wf, of 2] by auto
  with no_double_allocation [OF r this] show ?thesis by blast
qed

end
