(* ===== verification/Board.thy ===== *)
theory Board
  imports Layout
begin

text \<open>
  \<open>src/platform/board.rs\<close> and \<open>src/arch/aarch64/mmu.rs\<close>. The two board features are exclusive, so a
  build is one of the two values of \<open>board\<close> and each \<open>cfg\<close> block is a case of it. The system
  registers the kernel writes are the fields of \<open>mmu_regs\<close>; barriers and TLB maintenance have no
  effect on them. The serial progress marks of early boot are left out.
\<close>

section \<open>Boards\<close>

datatype board = Rpi5 | Qemu

definition SOC_BASE :: usize where
  "SOC_BASE = 0x107c000000"

definition SOC_MMIO_SIZE :: usize where
  "SOC_MMIO_SIZE = 0x80000000"

definition GICD_BASE :: usize where
  "GICD_BASE = SOC_BASE + 0x7fff9000"

definition GICC_BASE :: usize where
  "GICC_BASE = SOC_BASE + 0x7fffc000"

definition PERIPHERAL_BASE :: usize where
  "PERIPHERAL_BASE = 0x3F000000"

definition PERIPHERAL_SIZE :: usize where
  "PERIPHERAL_SIZE = 0x01000000"

definition QEMU_RAM_SIZE :: u64 where
  "QEMU_RAM_SIZE = 8 * 1024 * 1024 * 1024"

fun MBOX_BASE :: "board \<Rightarrow> usize" where
  "MBOX_BASE Rpi5 = SOC_BASE + 0x7c013880"
| "MBOX_BASE Qemu = PERIPHERAL_BASE + 0x0000B880"

fun UART_BASE :: "board \<Rightarrow> usize" where
  "UART_BASE Rpi5 = SOC_BASE + 0x7d001000"
| "UART_BASE Qemu = PERIPHERAL_BASE + 0x00201000"

definition GPIO_BASE :: usize where
  "GPIO_BASE = PERIPHERAL_BASE + 0x00200000"

fun VC_MEM_BASE :: "board \<Rightarrow> u32" where
  "VC_MEM_BASE Rpi5 = 0x00000000"
| "VC_MEM_BASE Qemu = 0x40000000"

fun VC_MEM_MASK :: "board \<Rightarrow> u32" where
  "VC_MEM_MASK Rpi5 = 0xFFFFFFFF"
| "VC_MEM_MASK Qemu = 0x3FFFFFFF"

section \<open>Translation registers\<close>

record mmu_regs =
  sctlr_el1 :: u64
  mair_el1 :: u64
  tcr_el1 :: u64
  ttbr0_el1 :: u64
  ttbr1_el1 :: u64

definition IPS :: u64 where
  "IPS = 0b010"

definition VADDR_BITS :: u64 where
  "VADDR_BITS = 48"

definition enable_mmu :: "u64 \<Rightarrow> u64 \<Rightarrow> mmu_regs \<Rightarrow> mmu_regs" where
  "enable_mmu ttbr0_pa ttbr1_pa regs =
     (let sctlr = sctlr_el1 regs;
          mair = 0x00 OR push_bit 8 0xFF;
          t0sz = 64 - VADDR_BITS;
          t1sz = 64 - VADDR_BITS;
          tcr = t0sz OR push_bit 16 t1sz OR push_bit 8 0b01 OR push_bit 10 0b01 OR push_bit 12 0b11
            OR push_bit 14 0b00 OR push_bit 24 0b01 OR push_bit 26 0b01 OR push_bit 28 0b11
            OR push_bit 30 0b10 OR push_bit 32 IPS
      in regs\<lparr>mair_el1 := mair, tcr_el1 := tcr, ttbr0_el1 := ttbr0_pa, ttbr1_el1 := ttbr1_pa,
              sctlr_el1 := sctlr OR push_bit 0 1\<rparr>)"

definition set_ttbr0 :: "u64 \<Rightarrow> mmu_regs \<Rightarrow> mmu_regs" where
  "set_ttbr0 ttbr0_pa regs = regs\<lparr>ttbr0_el1 := ttbr0_pa\<rparr>"

definition set_ttbr1 :: "u64 \<Rightarrow> mmu_regs \<Rightarrow> mmu_regs" where
  "set_ttbr1 ttbr1_pa regs = regs\<lparr>ttbr1_el1 := ttbr1_pa\<rparr>"

definition enable_caches :: "mmu_regs \<Rightarrow> mmu_regs" where
  "enable_caches regs = regs\<lparr>sctlr_el1 := sctlr_el1 regs OR push_bit 2 1 OR push_bit 12 1\<rparr>"

end
