(* ===== verification/Paging.thy ===== *)
theory Paging
  imports Region Board
begin

text \<open>
  \<open>src/mm/paging.rs\<close>: the boot page tables. Each of the two address spaces (kernel, under TTBR1; user,
  under TTBR0) is a level-0 table with one live entry, one level-1 table, and a pool of level-2
  tables filled with 2 MiB block descriptors. A table is indexed by nine address bits only, so it
  is a function on \<open>nat\<close>. The addresses the linker gives the static tables are the parameter
  \<open>table_addrs\<close>; following a descriptor back to its table is a pool lookup by address, and a pointer
  to anything else is a \<open>Wild_Access\<close>.

  \<open>translate\<close> is the table walk of the architecture for 4 KiB granules and 48-bit addresses, the
  specification the tables are checked against.
\<close>

section \<open>Definitions\<close>

definition L2_TABLES :: nat where
  "L2_TABLES = 1024"

definition BLOCK_SIZE :: u64 where
  "BLOCK_SIZE = 0x200000"

definition KERNEL_L0_INDEX :: nat where
  "KERNEL_L0_INDEX = unat (drop_bit 39 KERNEL_VIRT_BASE AND 0x1ff)"

definition RP1_BASE :: u64 where
  "RP1_BASE = 0x1c00000000"

definition RP1_SIZE :: u64 where
  "RP1_SIZE = 0x40000000"

type_synonym page_table = "nat \<Rightarrow> u64"

definition zero_table :: page_table where
  "zero_table = (\<lambda>_. 0)"

record table_set =
  l1 :: page_table
  l2_pool :: "nat \<Rightarrow> page_table"
  next_l2 :: nat

record paging_state =
  K_L0 :: page_table
  K_tables :: table_set
  U_L0 :: page_table
  U_tables :: table_set
  KERNEL_ROOT_PA :: u64
  USER_ROOT_PA :: u64
  EXTRA_MMIO_BASE :: u64
  EXTRA_MMIO_SIZE :: u64

record table_addrs =
  K_L0_addr :: usize
  K_L1_addr :: usize
  K_L2_POOL_addr :: usize
  U_L0_addr :: usize
  U_L1_addr :: usize
  U_L2_POOL_addr :: usize

definition DESC_BLOCK :: u64 where
  "DESC_BLOCK = 0b01"

definition DESC_TABLE :: u64 where
  "DESC_TABLE = 0b11"

definition AF_BIT :: u64 where
  "AF_BIT = push_bit 10 1"

definition UXN_BIT :: u64 where
  "UXN_BIT = push_bit 54 1"

definition PXN_BIT :: u64 where
  "PXN_BIT = push_bit 53 1"

definition ATTR_DEVICE :: u64 where
  "ATTR_DEVICE = 0"

definition ATTR_NORMAL :: u64 where
  "ATTR_NORMAL = 1"

definition AP_EL1_RW :: u64 where
  "AP_EL1_RW = 0b00"

definition AP_EL0_RW :: u64 where
  "AP_EL0_RW = 0b01"

definition SH_NONE :: u64 where
  "SH_NONE = 0b00"

definition SH_INNER :: u64 where
  "SH_INNER = 0b11"

definition table_desc :: "u64 \<Rightarrow> u64" where
  "table_desc pa = (pa AND 0x0000FFFFFFFFF000) OR DESC_TABLE"

definition block_desc :: "u64 \<Rightarrow> u64 \<Rightarrow> u64 \<Rightarrow> u64 \<Rightarrow> bool \<Rightarrow> u64" where
  "block_desc pa attr ap sh xn =
     (let desc = DESC_BLOCK;
          desc = desc OR push_bit 2 (attr AND 0x7);
          desc = desc OR push_bit 6 (ap AND 0x3);
          desc = desc OR push_bit 8 (sh AND 0x3);
          desc = desc OR AF_BIT;
          desc = desc OR (pa AND 0x0000FFFFFFE00000)
      in if xn then desc OR (UXN_BIT OR PXN_BIT) else desc)"

text \<open>The address of \<open>l2_pool[k]\<close>, and the pool slot a pointer designates.\<close>

definition slot_addr :: "usize \<Rightarrow> nat \<Rightarrow> usize" where
  "slot_addr pool_addr k = pool_addr + of_nat k * 4096"

definition slot_at :: "usize \<Rightarrow> usize \<Rightarrow> nat res" where
  "slot_at pool_addr va =
     (let off = unat (va - pool_addr) in
      if off mod 4096 = 0 \<and> off div 4096 < L2_TABLES then Inr (off div 4096) else Inl Wild_Access)"

definition get_l2_table_with :: "usize \<Rightarrow> table_set \<Rightarrow> nat \<Rightarrow> (table_set \<times> nat) res" where
  "get_l2_table_with pool_addr ts l1_idx =
     (if l1 ts l1_idx AND 0b11 = DESC_TABLE
      then let pa = l1 ts l1_idx AND 0x0000FFFFFFFFF000;
               va = phys_to_virt pa
        in and_then (slot_at pool_addr va) (\<lambda>idx. Inr (ts, idx))
      else let idx = next_l2 ts
        in if idx \<ge> L2_TABLES then Inl Halt_Loop
           else let pa = virt_to_phys (slot_addr pool_addr idx)
             in Inr (ts\<lparr>next_l2 := idx + 1, l2_pool := (l2_pool ts)(idx := zero_table),
                        l1 := (l1 ts)(l1_idx := table_desc pa)\<rparr>, idx))"

definition map_block_with ::
  "usize \<Rightarrow> table_set \<Rightarrow> u64 \<Rightarrow> u64 \<Rightarrow> u64 \<Rightarrow> u64 \<Rightarrow> u64 \<Rightarrow> bool \<Rightarrow> table_set res" where
  "map_block_with pool_addr ts vaddr paddr attr ap sh xn =
     (let l1_idx = unat (drop_bit 30 vaddr AND 0x1ff);
          l2_idx = unat (drop_bit 21 vaddr AND 0x1ff)
      in and_then (get_l2_table_with pool_addr ts l1_idx) (\<lambda>(ts', idx).
         let desc = block_desc paddr attr ap sh xn
         in Inr (ts'\<lparr>l2_pool := (l2_pool ts')(idx := (l2_pool ts' idx)(l2_idx := desc))\<rparr>)))"

text \<open>
  The loop of \<open>map_range_with\<close>. Its end is a multiple of the block size, hence at most
  \<open>2 ^ 64 - BLOCK_SIZE\<close>, and \<open>vaddr + BLOCK_SIZE\<close> cannot wrap past it: the second conjunct of the
  condition is true in every call and makes the recursion total.
\<close>

function map_range_loop ::
  "usize \<Rightarrow> table_set \<Rightarrow> u64 \<Rightarrow> u64 \<Rightarrow> u64 \<Rightarrow> u64 \<Rightarrow> u64 \<Rightarrow> u64 \<Rightarrow> bool \<Rightarrow> table_set res" where
  "map_range_loop pool_addr ts vaddr paddr end attr ap sh xn =
     (if vaddr < end \<and> end \<le> - BLOCK_SIZE
      then and_then (map_block_with pool_addr ts vaddr paddr attr ap sh xn) (\<lambda>ts'.
        map_range_loop pool_addr ts' (vaddr + BLOCK_SIZE) (paddr + BLOCK_SIZE) end attr ap sh xn)
      else Inr ts)"
  by pat_completeness auto
termination
proof (relation "measure (\<lambda>(pool_addr, ts, vaddr, paddr, end, attr, ap, sh, xn). unat end - unat vaddr)", goal_cases)
  case 1
  then show ?case by simp
next
  case (2 pool_addr ts vaddr paddr "end" attr ap sh xn x)
  then have "unat vaddr < unat end" "unat end \<le> 2 ^ 64 - 0x200000"
    by (simp_all add: word_less_nat_alt word_le_nat_alt BLOCK_SIZE_def)
  moreover from this have "unat (vaddr + BLOCK_SIZE) = unat vaddr + 0x200000"
    by (simp add: unat_word_ariths BLOCK_SIZE_def)
  ultimately show ?case by simp
qed

declare map_range_loop.simps [simp del]

definition map_range_with ::
  "usize \<Rightarrow> table_set \<Rightarrow> u64 \<Rightarrow> u64 \<Rightarrow> u64 \<Rightarrow> u64 \<Rightarrow> u64 \<Rightarrow> u64 \<Rightarrow> bool \<Rightarrow> table_set res" where
  "map_range_with pool_addr ts vstart pstart sz attr ap sh xn =
     (if sz = 0 then Inr ts
      else let vaddr = align_down vstart BLOCK_SIZE;
               paddr = align_down pstart BLOCK_SIZE;
               end = align_up (vstart + sz) BLOCK_SIZE
        in map_range_loop pool_addr ts vaddr paddr end attr ap sh xn)"

text \<open>The two kinds of call of \<open>map_range_with\<close>: identity in the user tables, offset by the kernel base in the kernel tables.\<close>

definition map_user ::
  "table_addrs \<Rightarrow> u64 \<Rightarrow> u64 \<Rightarrow> u64 \<Rightarrow> u64 \<Rightarrow> u64 \<Rightarrow> bool \<Rightarrow> paging_state \<Rightarrow> paging_state res" where
  "map_user addrs base sz attr ap sh xn st =
     and_then (map_range_with (U_L2_POOL_addr addrs) (U_tables st) base base sz attr ap sh xn)
       (\<lambda>ts. Inr (st\<lparr>U_tables := ts\<rparr>))"

definition map_kernel ::
  "table_addrs \<Rightarrow> u64 \<Rightarrow> u64 \<Rightarrow> u64 \<Rightarrow> u64 \<Rightarrow> u64 \<Rightarrow> bool \<Rightarrow> paging_state \<Rightarrow> paging_state res" where
  "map_kernel addrs base sz attr ap sh xn st =
     and_then (map_range_with (K_L2_POOL_addr addrs) (K_tables st) (KERNEL_VIRT_BASE + base) base sz attr ap sh xn)
       (\<lambda>ts. Inr (st\<lparr>K_tables := ts\<rparr>))"

definition map_window ::
  "table_addrs \<Rightarrow> u64 \<Rightarrow> u64 \<Rightarrow> u64 \<Rightarrow> u64 \<Rightarrow> paging_state \<Rightarrow> paging_state res" where
  "map_window addrs base sz attr sh st =
     and_then (map_user addrs base sz attr AP_EL1_RW sh True st)
       (map_kernel addrs base sz attr AP_EL1_RW sh True)"

definition map_mmio :: "board \<Rightarrow> table_addrs \<Rightarrow> paging_state \<Rightarrow> paging_state res" where
  "map_mmio b addrs st =
     and_then
       (case b of
          Qemu \<Rightarrow>
            and_then (map_window addrs PERIPHERAL_BASE PERIPHERAL_SIZE ATTR_DEVICE SH_NONE st) (\<lambda>st.
            and_then (map_window addrs 0x40000000 0x00200000 ATTR_DEVICE SH_NONE st) (\<lambda>st.
            map_window addrs 0x3c000000 0x04000000 ATTR_NORMAL SH_INNER st))
        | Rpi5 \<Rightarrow>
            and_then (map_window addrs SOC_BASE SOC_MMIO_SIZE ATTR_DEVICE SH_NONE st) (\<lambda>st.
            map_window addrs RP1_BASE RP1_SIZE ATTR_DEVICE SH_NONE st))
       (\<lambda>st. if EXTRA_MMIO_SIZE st \<noteq> 0
             then map_window addrs (EXTRA_MMIO_BASE st) (EXTRA_MMIO_SIZE st) ATTR_DEVICE SH_NONE st
             else Inr st)"

definition map_region :: "board \<Rightarrow> table_addrs \<Rightarrow> phys_region \<Rightarrow> paging_state \<Rightarrow> paging_state res" where
  "map_region b addrs region st =
     (if pr_kind region = Mmio then Inr st
      else let start = pr_start region;
               cap = saturating_add start 0x40000000;
               end = (if b = Rpi5 \<and> pr_kind region = UsableRam \<and> pr_end region > cap then cap
                      else pr_end region);
               sz = saturating_sub end start
        in if sz = 0 then Inr st
           else and_then (map_kernel addrs start sz ATTR_NORMAL AP_EL1_RW SH_INNER False st)
             (map_user addrs start sz ATTR_NORMAL AP_EL0_RW SH_INNER False))"

fun map_regions :: "board \<Rightarrow> table_addrs \<Rightarrow> phys_region list \<Rightarrow> paging_state \<Rightarrow> paging_state res" where
  "map_regions b addrs [] st = Inr st"
| "map_regions b addrs (r # rs) st = and_then (map_region b addrs r st) (map_regions b addrs rs)"

definition reset_tables :: "table_addrs \<Rightarrow> paging_state \<Rightarrow> paging_state" where
  "reset_tables addrs st =
     st\<lparr>K_L0 := zero_table(KERNEL_L0_INDEX := table_desc (virt_to_phys (K_L1_addr addrs))),
        K_tables := (K_tables st)\<lparr>l1 := zero_table, next_l2 := 0\<rparr>,
        U_L0 := zero_table(0 := table_desc (virt_to_phys (U_L1_addr addrs))),
        U_tables := (U_tables st)\<lparr>l1 := zero_table, next_l2 := 0\<rparr>\<rparr>"

definition paging_init ::
  "board \<Rightarrow> table_addrs \<Rightarrow> normalized_map \<Rightarrow> paging_state \<times> mmu_regs \<Rightarrow> (paging_state \<times> mmu_regs) res" where
  "paging_init b addrs nmap st =
     and_then (map_regions b addrs (nm_live nmap) (reset_tables addrs (fst st))) (\<lambda>ps.
     and_then (map_mmio b addrs ps) (\<lambda>ps.
     let ps = ps\<lparr>KERNEL_ROOT_PA := virt_to_phys (K_L0_addr addrs),
                 USER_ROOT_PA := virt_to_phys (U_L0_addr addrs)\<rparr>
     in Inr (ps, enable_mmu (USER_ROOT_PA ps) (KERNEL_ROOT_PA ps) (snd st))))"

definition set_extra_mmio :: "u64 \<Rightarrow> u64 \<Rightarrow> paging_state \<Rightarrow> paging_state" where
  "set_extra_mmio base sz st = st\<lparr>EXTRA_MMIO_BASE := base, EXTRA_MMIO_SIZE := sz\<rparr>"

section \<open>Descriptors\<close>

text \<open>The page of an address survives the round trip through a table descriptor.\<close>

definition page_ok :: "usize \<Rightarrow> bool" where
  "page_ok va \<longleftrightarrow> virt_to_phys va AND 0x0000FFFFFFFFF000 = virt_to_phys va"

lemmas and_or_distrib = bit.conj_disj_distrib bit.conj_disj_distrib2

lemma table_desc_table [simp]: "table_desc pa AND 0b11 = DESC_TABLE"
  by (simp add: table_desc_def DESC_TABLE_def and_or_distrib and.assoc)

lemma table_desc_page [simp]: "page_ok va \<Longrightarrow> phys_to_virt (table_desc (virt_to_phys va) AND 0x0000FFFFFFFFF000) = va"
  by (simp add: page_ok_def table_desc_def DESC_TABLE_def and_or_distrib)

lemma block_desc_block [simp]: "block_desc pa attr ap sh xn AND 0b11 = DESC_BLOCK"
  by (simp add: block_desc_def DESC_BLOCK_def AF_BIT_def UXN_BIT_def PXN_BIT_def Let_def
      and_or_distrib push_bit_and and.assoc)

lemma block_desc_addr [simp]:
  "block_desc pa attr ap sh xn AND 0x0000FFFFFFE00000 = pa AND 0x0000FFFFFFE00000"
  by (simp add: block_desc_def DESC_BLOCK_def AF_BIT_def UXN_BIT_def PXN_BIT_def Let_def
      and_or_distrib push_bit_and and.assoc)

section \<open>Indices\<close>

definition l1_index :: "u64 \<Rightarrow> nat" where
  "l1_index va = unat (drop_bit 30 va AND 0x1ff)"

definition l2_index :: "u64 \<Rightarrow> nat" where
  "l2_index va = unat (drop_bit 21 va AND 0x1ff)"

lemma unat_and_low: "unat ((x :: u64) AND mask k) = unat x mod 2 ^ k"
  by (simp only: take_bit_eq_mask [symmetric] unsigned_take_bit_eq) (simp only: take_bit_eq_mod)

lemma unat_drop_and_9: "unat (drop_bit k (va :: u64) AND 0x1ff) = unat va div 2 ^ k mod 512"
proof -
  have "(0x1ff :: u64) = mask 9" by (simp add: mask_eq_exp_minus_1)
  then have "unat (drop_bit k va AND 0x1ff) = unat (drop_bit k va) mod 2 ^ 9" by (simp only: unat_and_low)
  moreover have "unat (drop_bit k va) = unat va div 2 ^ k"
    by (subst unat_drop_bit_eq) (simp only: drop_bit_eq_div)
  ultimately show ?thesis by simp
qed

text \<open>
  Both indices together are the block number modulo \<open>2 ^ 18\<close>: the level-1 table covers 512 GiB.
\<close>

definition block_no :: "u64 \<Rightarrow> nat" where
  "block_no va = unat va div 2 ^ 21"

lemma l1_index_block: "l1_index va = block_no va mod 2 ^ 18 div 512"
proof -
  have "unat va div 2 ^ 30 = block_no va div 512" by (simp add: block_no_def div_mult2_eq [symmetric])
  then show ?thesis unfolding l1_index_def unat_drop_and_9 by (simp add: mod_mult2_eq [of _ 512 512, simplified] )
qed

lemma l2_index_block: "l2_index va = block_no va mod 2 ^ 18 mod 512"
  unfolding l2_index_def unat_drop_and_9 block_no_def by (simp add: mod_mod_cancel)


section \<open>The abstract table\<close>

text \<open>
  What the tables of one address space amount to: for each block number below \<open>2 ^ 18\<close>, the
  level-2 descriptor found by following the level-1 entry, \<open>0\<close> (invalid) where there is none.
\<close>

definition l2_slot :: "usize \<Rightarrow> table_set \<Rightarrow> nat \<Rightarrow> nat option" where
  "l2_slot pool ts i =
     (if l1 ts i AND 0b11 = DESC_TABLE
      then case slot_at pool (phys_to_virt (l1 ts i AND 0x0000FFFFFFFFF000)) of Inr k \<Rightarrow> Some k | Inl _ \<Rightarrow> None
      else None)"

definition entry :: "usize \<Rightarrow> table_set \<Rightarrow> nat \<Rightarrow> u64" where
  "entry pool ts n =
     (case l2_slot pool ts (n div 512) of None \<Rightarrow> 0 | Some k \<Rightarrow> l2_pool ts k (n mod 512))"

text \<open>
  Well-formed tables: the level-1 entries that are tables are exactly those handed out from the
  pool so far, each pool slot to one entry.
\<close>

definition tables_ok :: "usize \<Rightarrow> table_set \<Rightarrow> bool" where
  "tables_ok pool ts \<longleftrightarrow> (\<exists>own. distinct own \<and> length own = next_l2 ts \<and> set own \<subseteq> {..<512} \<and>
     (\<forall>i<512. l1 ts i AND 0b11 = DESC_TABLE \<longleftrightarrow> i \<in> set own) \<and>
     (\<forall>k<length own. l1 ts (own ! k) = table_desc (virt_to_phys (slot_addr pool k))))"

definition pool_ok :: "usize \<Rightarrow> bool" where
  "pool_ok pool \<longleftrightarrow> (\<forall>k<L2_TABLES. page_ok (slot_addr pool k))"

lemma slot_at_addr [simp]: "k < L2_TABLES \<Longrightarrow> slot_at pool (slot_addr pool k) = Inr k"
proof -
  assume k: "k < L2_TABLES"
  then have "unat (of_nat k * 4096 :: u64) = k * 4096"
    by (simp add: unat_word_ariths unat_of_nat L2_TABLES_def)
  with k show ?thesis by (simp add: slot_at_def slot_addr_def)
qed

lemma length_own_le: "distinct own \<Longrightarrow> set own \<subseteq> {..<512 :: nat} \<Longrightarrow> length own \<le> 512"
  using card_mono [of "{..<512}" "set own"] by (simp add: distinct_card)

text \<open>
  A level-1 index has a table or the pool still has one: the 1024 tables of the pool outnumber the
  512 level-1 entries, so the halt branch is dead.
\<close>

lemma get_l2_ok:
  assumes ok: "tables_ok pool ts" "pool_ok pool" and i: "i < 512"
  shows "\<exists>ts' k. get_l2_table_with pool ts i = Inr (ts', k) \<and> tables_ok pool ts' \<and>
    l2_slot pool ts' i = Some k \<and> (l2_slot pool ts i = None \<or> l2_slot pool ts i = Some k) \<and>
    (\<forall>j<512. j \<noteq> i \<longrightarrow> l2_slot pool ts' j = l2_slot pool ts j \<and> l2_slot pool ts j \<noteq> Some k) \<and>
    (\<forall>k'. k' \<noteq> k \<longrightarrow> l2_pool ts' k' = l2_pool ts k') \<and>
    l2_pool ts' k = (if l2_slot pool ts i = None then zero_table else l2_pool ts k)"
proof -
  obtain own where own: "distinct own" "length own = next_l2 ts" "set own \<subseteq> {..<512}"
    "\<forall>i<512. l1 ts i AND 0b11 = DESC_TABLE \<longleftrightarrow> i \<in> set own"
    "\<forall>k<length own. l1 ts (own ! k) = table_desc (virt_to_phys (slot_addr pool k))"
    using ok(1) unfolding tables_ok_def by blast
  have len: "length own \<le> 512" using own(1,3) by (rule length_own_le)
  have slot: "l2_slot pool ts (own ! k) = Some k" if "k < length own" for k
  proof -
    have "k < L2_TABLES" using that len by (simp add: L2_TABLES_def)
    moreover from this have "page_ok (slot_addr pool k)" using ok(2) by (simp add: pool_ok_def)
    moreover have "l1 ts (own ! k) = table_desc (virt_to_phys (slot_addr pool k))" using own(5) that by blast
    ultimately show ?thesis by (simp add: l2_slot_def)
  qed
  have none: "j \<notin> set own \<Longrightarrow> j < 512 \<Longrightarrow> l2_slot pool ts j = None" for j
    using own(4) by (simp add: l2_slot_def)
  have slot_iff: "l2_slot pool ts j = Some k \<longleftrightarrow> k < length own \<and> own ! k = j" if "j < 512" for j k
  proof (cases "j \<in> set own")
    case True
    then obtain k' where "k' < length own" "own ! k' = j" by (auto simp: in_set_conv_nth)
    with slot [of k'] own(1) show ?thesis by (auto simp: nth_eq_iff_index_eq)
  next
    case False
    with none [OF _ that] show ?thesis by auto
  qed
  show ?thesis
  proof (cases "i \<in> set own")
    case True
    then obtain k where k: "k < length own" "own ! k = i" by (auto simp: in_set_conv_nth)
    have sk: "l2_slot pool ts i = Some k" using k slot by blast
    have "get_l2_table_with pool ts i = Inr (ts, k)"
    proof -
      have "l1 ts i AND 0b11 = DESC_TABLE" using own(4) i True by blast
      then show ?thesis using sk
        by (auto simp: get_l2_table_with_def l2_slot_def split: sum.splits)
    qed
    moreover have "\<forall>j<512. j \<noteq> i \<longrightarrow> l2_slot pool ts j \<noteq> Some k"
    proof (intro allI impI)
      fix j :: nat
      assume "j < 512" "j \<noteq> i"
      then show "l2_slot pool ts j \<noteq> Some k" using slot_iff [of j k] k(2) by simp
    qed
    ultimately show ?thesis using sk ok(1) by (intro exI [of _ ts] exI [of _ k]) simp
  next
    case False
    let ?k = "next_l2 ts"
    let ?ts = "ts\<lparr>next_l2 := ?k + 1, l2_pool := (l2_pool ts)(?k := zero_table),
      l1 := (l1 ts)(i := table_desc (virt_to_phys (slot_addr pool ?k)))\<rparr>"
    have k: "?k < L2_TABLES" using len own(2) by (simp add: L2_TABLES_def)
    have nt: "l1 ts i AND 0b11 \<noteq> DESC_TABLE" using own(4) i False by blast
    have get: "get_l2_table_with pool ts i = Inr (?ts, ?k)"
      using k nt by (simp add: get_l2_table_with_def Let_def)
    have "page_ok (slot_addr pool ?k)" using k ok(2) by (simp add: pool_ok_def)
    then have new: "l2_slot pool ?ts i = Some ?k" using k by (simp add: l2_slot_def)
    have old: "\<forall>j<512. j \<noteq> i \<longrightarrow> l2_slot pool ?ts j = l2_slot pool ts j \<and> l2_slot pool ts j \<noteq> Some ?k"
      using slot_iff own(2) by (auto simp: l2_slot_def)
    have "tables_ok pool ?ts"
      unfolding tables_ok_def
    proof (intro exI [of _ "own @ [i]"] conjI allI impI)
      fix j :: nat
      assume "j < 512"
      then show "l1 ?ts j AND 0b11 = DESC_TABLE \<longleftrightarrow> j \<in> set (own @ [i])" using own(4) by auto
    next
      fix m
      assume "m < length (own @ [i])"
      then consider "m < length own" | "m = length own" by fastforce
      then show "l1 ?ts ((own @ [i]) ! m) = table_desc (virt_to_phys (slot_addr pool m))"
      proof cases
        case 1
        then have "own ! m \<noteq> i" using False by auto
        with 1 own(5) show ?thesis by (simp add: nth_append)
      qed (simp add: own(2) nth_append)
    qed (use own False i in auto)
    with get new old none [OF False i] show ?thesis
      by (intro exI [of _ ?ts] exI [of _ ?k]) simp
  qed
qed

section \<open>Mapping blocks and ranges\<close>

lemma l2_slot_pool [simp]: "l2_slot pool (ts\<lparr>l2_pool := p\<rparr>) i = l2_slot pool ts i"
  by (simp add: l2_slot_def)

lemma map_block_ok:
  assumes "tables_ok pool ts" "pool_ok pool"
  shows "\<exists>ts'. map_block_with pool ts vaddr paddr attr ap sh xn = Inr ts' \<and> tables_ok pool ts' \<and>
    (\<forall>n<2 ^ 18. entry pool ts' n =
      (if n = block_no vaddr mod 2 ^ 18 then block_desc paddr attr ap sh xn else entry pool ts n))"
proof -
  let ?i = "l1_index vaddr" and ?j = "l2_index vaddr" and ?d = "block_desc paddr attr ap sh xn"
  have i: "?i < 512" unfolding l1_index_def unat_drop_and_9 by simp
  from get_l2_ok [OF assms i] obtain ts1 k where g: "get_l2_table_with pool ts ?i = Inr (ts1, k)" "tables_ok pool ts1"
    "l2_slot pool ts1 ?i = Some k"
    "\<forall>j<512. j \<noteq> ?i \<longrightarrow> l2_slot pool ts1 j = l2_slot pool ts j \<and> l2_slot pool ts j \<noteq> Some k"
    "\<forall>k'. k' \<noteq> k \<longrightarrow> l2_pool ts1 k' = l2_pool ts k'"
    "l2_pool ts1 k = (if l2_slot pool ts ?i = None then zero_table else l2_pool ts k)"
    and same: "l2_slot pool ts ?i = None \<or> l2_slot pool ts ?i = Some k" by blast
  let ?ts = "ts1\<lparr>l2_pool := (l2_pool ts1)(k := (l2_pool ts1 k)(?j := ?d))\<rparr>"
  have "map_block_with pool ts vaddr paddr attr ap sh xn = Inr ?ts"
    using g(1) by (simp add: map_block_with_def Let_def l1_index_def l2_index_def)
  moreover have "tables_ok pool ?ts" using g(2) by (simp add: tables_ok_def)
  moreover have "entry pool ?ts n = (if n = block_no vaddr mod 2 ^ 18 then ?d else entry pool ts n)"
    if n: "n < 2 ^ 18" for n
  proof -
    have idx: "n = block_no vaddr mod 2 ^ 18 \<longleftrightarrow> n div 512 = ?i \<and> n mod 512 = ?j"
      unfolding l1_index_block l2_index_block by (metis div_mult_mod_eq)
    have nd: "n div 512 < 512" using n by (simp add: less_mult_imp_div_less)
    show ?thesis
    proof (cases "n div 512 = ?i")
      case True
      then have old: "entry pool ts n = l2_pool ts1 k (n mod 512)"
        using g(6) same by (auto simp: entry_def zero_table_def)
      have "entry pool ?ts n = ((l2_pool ts1 k)(?j := ?d)) (n mod 512)"
        using True g(3) by (simp add: entry_def)
      with True old idx show ?thesis by (simp only: fun_upd_apply) simp
    next
      case False
      then have "l2_slot pool ts1 (n div 512) = l2_slot pool ts (n div 512)" "l2_slot pool ts (n div 512) \<noteq> Some k"
        using g(4) nd by auto
      with False g(5) idx show ?thesis by (auto simp: entry_def split: option.splits)
    qed
  qed
  ultimately show ?thesis by blast
qed

lemma unat_BLOCK_SIZE: "unat BLOCK_SIZE = 2 ^ 21"
  by (simp add: BLOCK_SIZE_def)

lemma map_range_loop_ok:
  assumes "tables_ok pool ts" "pool_ok pool"
    and "unat vaddr = a * 2 ^ 21" "unat end = b * 2 ^ 21" "s * 2 ^ 18 \<le> a" "b \<le> (s + 1) * 2 ^ 18"
  shows "\<exists>ts'. map_range_loop pool ts vaddr paddr end attr ap sh xn = Inr ts' \<and> tables_ok pool ts' \<and>
    (\<forall>n<2 ^ 18. entry pool ts' n =
      (if a \<le> s * 2 ^ 18 + n \<and> s * 2 ^ 18 + n < b
       then block_desc (paddr + of_nat (s * 2 ^ 18 + n - a) * BLOCK_SIZE) attr ap sh xn else entry pool ts n))"
  using assms
proof (induction "b - a" arbitrary: ts vaddr paddr a)
  case 0
  then have "\<not> vaddr < end" by (simp add: word_less_nat_alt)
  with 0 show ?case by (auto simp: map_range_loop.simps [of pool ts vaddr])
next
  case (Suc m)
  then have ab: "a < b" by simp
  have lt: "vaddr < end" using ab Suc.prems(3,4) by (simp add: word_less_nat_alt)
  have "b * 2 ^ 21 < 2 ^ 64" using Suc.prems(4) unat_u64_less [of "end"] by simp
  then have "b < 2 ^ 43" by simp
  then have "b * 2 ^ 21 \<le> 2 ^ 64 - 2 ^ 21" by simp
  then have top: "end \<le> - BLOCK_SIZE" using Suc.prems(4) by (simp add: word_le_nat_alt BLOCK_SIZE_def)
  have va: "unat (vaddr + BLOCK_SIZE) = (a + 1) * 2 ^ 21"
    using Suc.prems(3) ab \<open>b < 2 ^ 43\<close> by (simp add: unat_word_ariths unat_BLOCK_SIZE)
  have bn: "block_no vaddr mod 2 ^ 18 = a - s * 2 ^ 18"
  proof -
    have "block_no vaddr = s * 2 ^ 18 + (a - s * 2 ^ 18)" using Suc.prems(3,5) by (simp add: block_no_def)
    moreover have "a - s * 2 ^ 18 < 2 ^ 18" using Suc.prems(5,6) ab by simp
    ultimately show ?thesis by (metis mod_less mod_mult_self3)
  qed
  obtain ts1 where b1: "map_block_with pool ts vaddr paddr attr ap sh xn = Inr ts1" "tables_ok pool ts1"
    "\<forall>n<2 ^ 18. entry pool ts1 n =
      (if n = a - s * 2 ^ 18 then block_desc paddr attr ap sh xn else entry pool ts n)"
    using map_block_ok [OF Suc.prems(1,2), of vaddr paddr attr ap sh xn] unfolding bn by blast
  have "m = b - (a + 1)" using Suc.hyps(2) by simp
  from Suc.hyps(1) [OF this b1(2) Suc.prems(2) va Suc.prems(4), of "paddr + BLOCK_SIZE"] Suc.prems(5,6)
  obtain ts2 where b2: "map_range_loop pool ts1 (vaddr + BLOCK_SIZE) (paddr + BLOCK_SIZE) end attr ap sh xn = Inr ts2"
    "tables_ok pool ts2" "\<forall>n<2 ^ 18. entry pool ts2 n =
      (if a + 1 \<le> s * 2 ^ 18 + n \<and> s * 2 ^ 18 + n < b
       then block_desc (paddr + BLOCK_SIZE + of_nat (s * 2 ^ 18 + n - (a + 1)) * BLOCK_SIZE) attr ap sh xn
       else entry pool ts1 n)" by fastforce
  have "map_range_loop pool ts vaddr paddr end attr ap sh xn = Inr ts2"
    using lt top b1(1) b2(1) by (simp add: map_range_loop.simps [of pool ts vaddr])
  moreover have "entry pool ts2 n =
      (if a \<le> s * 2 ^ 18 + n \<and> s * 2 ^ 18 + n < b
       then block_desc (paddr + of_nat (s * 2 ^ 18 + n - a) * BLOCK_SIZE) attr ap sh xn else entry pool ts n)"
    if n: "n < 2 ^ 18" for n
  proof (cases "a + 1 \<le> s * 2 ^ 18 + n \<and> s * 2 ^ 18 + n < b")
    case True
    then have "s * 2 ^ 18 + n - a = Suc (s * 2 ^ 18 + n - (a + 1))" by linarith
    then have eq: "paddr + of_nat (s * 2 ^ 18 + n - a) * BLOCK_SIZE =
        paddr + BLOCK_SIZE + of_nat (s * 2 ^ 18 + n - (a + 1)) * BLOCK_SIZE"
      by (simp only: of_nat_Suc algebra_simps mult_1_left)
    have "a \<le> s * 2 ^ 18 + n" using True by linarith
    with True show ?thesis unfolding b2(3) [rule_format, OF n] eq by (simp only: if_True simp_thms)
  next
    case False
    have "n = a - s * 2 ^ 18 \<longleftrightarrow> s * 2 ^ 18 + n = a" using Suc.prems(5) by auto
    with False b2(3) b1(3) n ab show ?thesis by auto
  qed
  ultimately show ?case using b2(2) by blast
qed

section \<open>The direct map\<close>

definition mapped :: "usize \<Rightarrow> table_set \<Rightarrow> nat \<Rightarrow> bool" where
  "mapped pool ts n \<longleftrightarrow> entry pool ts n AND 0b11 = DESC_BLOCK"

text \<open>Block \<open>n\<close> of the address space leads to block \<open>n\<close> of physical memory.\<close>

definition ident :: "usize \<Rightarrow> table_set \<Rightarrow> bool" where
  "ident pool ts \<longleftrightarrow>
     (\<forall>n<2 ^ 18. mapped pool ts n \<longrightarrow> entry pool ts n AND 0x0000FFFFFFE00000 = of_nat n * BLOCK_SIZE)"

lemma block_mask: "(0x0000FFFFFFE00000 :: u64) = mask 48 AND NOT (mask 21)"
  by (simp add: mask_eq_exp_minus_1)

lemma unat_block: "n < 2 ^ 43 \<Longrightarrow> unat (of_nat n * BLOCK_SIZE) = n * 2 ^ 21"
  by (simp add: unat_word_ariths unat_of_nat unat_BLOCK_SIZE)

lemma block_addr_mask: "n < 2 ^ 18 \<Longrightarrow> of_nat n * BLOCK_SIZE AND 0x0000FFFFFFE00000 = of_nat n * BLOCK_SIZE"
proof -
  assume n: "n < 2 ^ 18"
  then have u: "unat (of_nat n * BLOCK_SIZE) = n * 2 ^ 21" by (intro unat_block) simp
  have "unat (of_nat n * BLOCK_SIZE AND 0x0000FFFFFFE00000) = (n * 2 ^ 21) mod 2 ^ 48 div 2 ^ 21 * 2 ^ 21"
    unfolding block_mask and.assoc [symmetric] unat_and_not_mask unat_and_low u ..
  also have "(n * 2 ^ 21) mod 2 ^ 48 = n * 2 ^ 21" using n by (intro mod_less) simp
  finally have "unat (of_nat n * BLOCK_SIZE AND 0x0000FFFFFFE00000) = unat (of_nat n * BLOCK_SIZE)"
    unfolding u by simp
  then show ?thesis by (simp only: word_unat_eq_iff)
qed

text \<open>The two bases of a direct map: \<open>0\<close> for the user tables, the kernel base for the kernel tables.\<close>

definition map_base :: "u64 \<Rightarrow> bool" where
  "map_base voff \<longleftrightarrow> voff = 0 \<or> voff = KERNEL_VIRT_BASE"

lemma map_base_slot:
  assumes "map_base voff"
  obtains s where "unat voff = s * 2 ^ 39" "s \<le> 0x1FFFF00"
proof (cases "voff = 0")
  case False
  then have "unat voff = 0x1FFFF00 * 2 ^ 39" using assms by (simp add: map_base_def KERNEL_VIRT_BASE_def)
  then show ?thesis by (rule that) simp
qed (use that [of 0] in simp)

lemma unat_align_up_block:
  "unat v + (2 ^ 21 - 1) < 2 ^ 64 \<Longrightarrow> unat (align_up v BLOCK_SIZE) = (unat v + (2 ^ 21 - 1)) div 2 ^ 21 * 2 ^ 21"
  using unat_align_up_pow2 [of 21 v] by (simp add: BLOCK_SIZE_def)

lemma unat_align_down_block: "unat (align_down v BLOCK_SIZE) = unat v div 2 ^ 21 * 2 ^ 21"
  using unat_align_down_pow2 [of v 21] by (simp add: BLOCK_SIZE_def)

lemma align_down_block: "align_down v BLOCK_SIZE = of_nat (unat v div 2 ^ 21) * BLOCK_SIZE"
proof -
  have "unat v div 2 ^ 21 < 2 ^ 43" using unat_u64_less [of v] by (simp add: less_mult_imp_div_less)
  then show ?thesis by (simp only: word_unat_eq_iff unat_align_down_block unat_block)
qed

lemma round_up_div: "n * 2 ^ 21 < (m :: nat) \<longleftrightarrow> n < (m + (2 ^ 21 - 1)) div 2 ^ 21"
  using less_eq_div_iff_mult_less_eq [of "2 ^ 21" "Suc n" "m + (2 ^ 21 - 1)"] by (auto simp: Suc_le_eq)

lemma map_range_entries:
  assumes ok: "tables_ok pool ts" "pool_ok pool" and base: "map_base voff"
    and bound: "unat base + unat sz \<le> 2 ^ 39" and sz: "sz \<noteq> 0"
  shows "\<exists>ts'. map_range_with pool ts (voff + base) base sz attr ap sh xn = Inr ts' \<and> tables_ok pool ts' \<and>
    (\<forall>n<2 ^ 18. entry pool ts' n =
      (if unat base div 2 ^ 21 \<le> n \<and> n * 2 ^ 21 < unat base + unat sz
       then block_desc (of_nat n * BLOCK_SIZE) attr ap sh xn else entry pool ts n))"
proof -
  obtain s where s: "unat voff = s * 2 ^ 39" "s \<le> 0x1FFFF00" using map_base_slot [OF base] .
  let ?a = "unat base div 2 ^ 21" and ?b = "(unat base + unat sz + (2 ^ 21 - 1)) div 2 ^ 21"
  have fits: "s * 2 ^ 39 + (unat base + unat sz) \<le> 2 ^ 64 - 2 ^ 39" using s(2) bound by simp
  have v: "unat (voff + base) = s * 2 ^ 39 + unat base"
    using s(1) fits by (simp add: unat_word_ariths)
  have e: "unat (voff + base + sz) = s * 2 ^ 39 + (unat base + unat sz)"
    using v fits by (simp add: unat_word_ariths)
  have "unat (align_down (voff + base) BLOCK_SIZE) = (s * 2 ^ 18 + ?a) * 2 ^ 21"
  proof -
    have "unat (align_down (voff + base) BLOCK_SIZE) = (s * 2 ^ 18 * 2 ^ 21 + unat base) div 2 ^ 21 * 2 ^ 21"
      unfolding unat_align_down_block v by simp
    also have "\<dots> = (s * 2 ^ 18 + ?a) * 2 ^ 21" by (subst div_mult_self3) simp_all
    finally show ?thesis .
  qed
  moreover have "unat (align_up (voff + base + sz) BLOCK_SIZE) = (s * 2 ^ 18 + ?b) * 2 ^ 21"
  proof -
    have "unat (align_up (voff + base + sz) BLOCK_SIZE) = (unat (voff + base + sz) + (2 ^ 21 - 1)) div 2 ^ 21 * 2 ^ 21"
      using fits by (intro unat_align_up_block) (simp add: e)
    also have "\<dots> = (s * 2 ^ 18 * 2 ^ 21 + (unat base + unat sz + (2 ^ 21 - 1))) div 2 ^ 21 * 2 ^ 21"
      unfolding e by (simp add: add.assoc)
    also have "\<dots> = (s * 2 ^ 18 + ?b) * 2 ^ 21"
      by (subst div_mult_self3) simp_all
    finally show ?thesis .
  qed
  moreover have "?b \<le> 2 ^ 18"
  proof -
    have "?b \<le> (2 ^ 39 + (2 ^ 21 - 1)) div 2 ^ 21" using bound by (intro div_le_mono) linarith
    then show ?thesis by simp
  qed
  moreover have "align_down base BLOCK_SIZE + of_nat (s * 2 ^ 18 + n - (s * 2 ^ 18 + ?a)) * BLOCK_SIZE
      = of_nat n * BLOCK_SIZE" if "?a \<le> n" for n
    using that unfolding align_down_block by (simp flip: distrib_right of_nat_add)
  ultimately show ?thesis
    using map_range_loop_ok [OF ok, of "align_down (voff + base) BLOCK_SIZE" "s * 2 ^ 18 + ?a"
        "align_up (voff + base + sz) BLOCK_SIZE" "s * 2 ^ 18 + ?b" s "align_down base BLOCK_SIZE" attr ap sh xn] sz
    by (simp add: map_range_with_def Let_def round_up_div cong: conj_cong if_cong) fastforce
qed

section \<open>Whole address spaces\<close>

definition addrs_ok :: "table_addrs \<Rightarrow> bool" where
  "addrs_ok addrs \<longleftrightarrow> pool_ok (K_L2_POOL_addr addrs) \<and> pool_ok (U_L2_POOL_addr addrs) \<and>
     page_ok (K_L1_addr addrs) \<and> page_ok (U_L1_addr addrs)"

definition k_entry :: "table_addrs \<Rightarrow> paging_state \<Rightarrow> nat \<Rightarrow> u64" where
  "k_entry addrs st = entry (K_L2_POOL_addr addrs) (K_tables st)"

definition u_entry :: "table_addrs \<Rightarrow> paging_state \<Rightarrow> nat \<Rightarrow> u64" where
  "u_entry addrs st = entry (U_L2_POOL_addr addrs) (U_tables st)"

definition tables_wf :: "table_addrs \<Rightarrow> paging_state \<Rightarrow> bool" where
  "tables_wf addrs st \<longleftrightarrow>
     tables_ok (K_L2_POOL_addr addrs) (K_tables st) \<and> tables_ok (U_L2_POOL_addr addrs) (U_tables st)"

text \<open>The 2 MiB blocks that a byte range touches.\<close>

definition blocks :: "u64 \<Rightarrow> u64 \<Rightarrow> nat set" where
  "blocks base sz = {n. unat base div 2 ^ 21 \<le> n \<and> n * 2 ^ 21 < unat base + unat sz}"

definition same_roots :: "paging_state \<Rightarrow> paging_state \<Rightarrow> bool" where
  "same_roots st st' \<longleftrightarrow> K_L0 st' = K_L0 st \<and> U_L0 st' = U_L0 st \<and>
     EXTRA_MMIO_BASE st' = EXTRA_MMIO_BASE st \<and> EXTRA_MMIO_SIZE st' = EXTRA_MMIO_SIZE st"

text \<open>
  \<open>writes addrs B ku uu f\<close>: from well-formed tables \<open>f\<close> succeeds and rewrites exactly the blocks in
  \<open>B\<close>, in the kernel tables to \<open>kd\<close> and in the user tables to \<open>ud\<close>.
\<close>

definition writes ::
  "table_addrs \<Rightarrow> nat set \<Rightarrow> (nat \<Rightarrow> u64) \<Rightarrow> (nat \<Rightarrow> u64) \<Rightarrow> paging_state \<Rightarrow> paging_state res \<Rightarrow> bool" where
  "writes addrs B kd ud st r \<longleftrightarrow> (\<exists>st'. r = Inr st' \<and> tables_wf addrs st' \<and> same_roots st st' \<and>
     (\<forall>n<2 ^ 18. k_entry addrs st' n = (if n \<in> B then kd n else k_entry addrs st n)) \<and>
     (\<forall>n<2 ^ 18. u_entry addrs st' n = (if n \<in> B then ud n else u_entry addrs st n)))"

lemma map_kernel_ok:
  assumes "addrs_ok addrs" "tables_wf addrs st" "unat base + unat sz \<le> 2 ^ 39" "sz \<noteq> 0"
  shows "\<exists>ts. map_kernel addrs base sz attr ap sh xn st = Inr (st\<lparr>K_tables := ts\<rparr>) \<and>
    tables_wf addrs (st\<lparr>K_tables := ts\<rparr>) \<and>
    (\<forall>n<2 ^ 18. k_entry addrs (st\<lparr>K_tables := ts\<rparr>) n =
      (if n \<in> blocks base sz then block_desc (of_nat n * BLOCK_SIZE) attr ap sh xn else k_entry addrs st n))"
  using map_range_entries [of "K_L2_POOL_addr addrs" "K_tables st" KERNEL_VIRT_BASE base sz attr ap sh xn] assms
  by (auto simp: map_kernel_def tables_wf_def addrs_ok_def k_entry_def blocks_def map_base_def)

lemma map_user_ok:
  assumes "addrs_ok addrs" "tables_wf addrs st" "unat base + unat sz \<le> 2 ^ 39" "sz \<noteq> 0"
  shows "\<exists>ts. map_user addrs base sz attr ap sh xn st = Inr (st\<lparr>U_tables := ts\<rparr>) \<and>
    tables_wf addrs (st\<lparr>U_tables := ts\<rparr>) \<and>
    (\<forall>n<2 ^ 18. u_entry addrs (st\<lparr>U_tables := ts\<rparr>) n =
      (if n \<in> blocks base sz then block_desc (of_nat n * BLOCK_SIZE) attr ap sh xn else u_entry addrs st n))"
  using map_range_entries [of "U_L2_POOL_addr addrs" "U_tables st" 0 base sz attr ap sh xn] assms
  by (auto simp: map_user_def tables_wf_def addrs_ok_def u_entry_def blocks_def map_base_def)

lemma entry_frame [simp]:
  "k_entry addrs (st\<lparr>U_tables := ts\<rparr>) = k_entry addrs st"
  "u_entry addrs (st\<lparr>K_tables := ts\<rparr>) = u_entry addrs st"
  by (simp_all add: k_entry_def u_entry_def)

lemma map_window_writes:
  assumes ok: "addrs_ok addrs" and wf: "tables_wf addrs st" and sz: "unat base + unat sz \<le> 2 ^ 39" "sz \<noteq> 0"
  shows "writes addrs (blocks base sz) (\<lambda>n. block_desc (of_nat n * BLOCK_SIZE) attr AP_EL1_RW sh True)
    (\<lambda>n. block_desc (of_nat n * BLOCK_SIZE) attr AP_EL1_RW sh True) st (map_window addrs base sz attr sh st)"
proof -
  from map_user_ok [OF ok wf sz] obtain tu where
    u: "map_user addrs base sz attr AP_EL1_RW sh True st = Inr (st\<lparr>U_tables := tu\<rparr>)" "tables_wf addrs (st\<lparr>U_tables := tu\<rparr>)"
      "\<forall>n<2 ^ 18. u_entry addrs (st\<lparr>U_tables := tu\<rparr>) n =
        (if n \<in> blocks base sz then block_desc (of_nat n * BLOCK_SIZE) attr AP_EL1_RW sh True else u_entry addrs st n)"
    by blast
  from map_kernel_ok [OF ok u(2) sz] obtain tk where
    k: "map_kernel addrs base sz attr AP_EL1_RW sh True (st\<lparr>U_tables := tu\<rparr>) = Inr (st\<lparr>U_tables := tu, K_tables := tk\<rparr>)"
      "tables_wf addrs (st\<lparr>U_tables := tu, K_tables := tk\<rparr>)"
      "\<forall>n<2 ^ 18. k_entry addrs (st\<lparr>U_tables := tu, K_tables := tk\<rparr>) n =
        (if n \<in> blocks base sz then block_desc (of_nat n * BLOCK_SIZE) attr AP_EL1_RW sh True
         else k_entry addrs (st\<lparr>U_tables := tu\<rparr>) n)"
    by blast
  show ?thesis
    unfolding writes_def
    by (intro exI [of _ "st\<lparr>U_tables := tu, K_tables := tk\<rparr>"])
      (use u k in \<open>simp add: map_window_def same_roots_def\<close>)
qed

text \<open>The address range that \<open>map_region\<close> maps for a region, empty (size 0) where it maps nothing.\<close>

definition region_size :: "board \<Rightarrow> phys_region \<Rightarrow> u64" where
  "region_size b r =
     (if pr_kind r = Mmio then 0
      else saturating_sub
        (if b = Rpi5 \<and> pr_kind r = UsableRam then min (pr_end r) (saturating_add (pr_start r) 0x40000000) else pr_end r)
        (pr_start r))"

lemma map_region_eq:
  "map_region b addrs r st =
     (if region_size b r = 0 then Inr st
      else and_then (map_kernel addrs (pr_start r) (region_size b r) ATTR_NORMAL AP_EL1_RW SH_INNER False st)
        (map_user addrs (pr_start r) (region_size b r) ATTR_NORMAL AP_EL0_RW SH_INNER False))"
proof -
  have "(if b = Rpi5 \<and> pr_kind r = UsableRam \<and> pr_end r > c then c else pr_end r) =
      (if b = Rpi5 \<and> pr_kind r = UsableRam then min (pr_end r) c else pr_end r)" for c
    by (simp add: min_def not_less [symmetric])
  then show ?thesis by (simp add: map_region_def region_size_def Let_def del: saturating_sub_eq_0)
qed

lemma map_region_writes:
  assumes ok: "addrs_ok addrs" and wf: "tables_wf addrs st"
    and sz: "region_size b r \<noteq> 0 \<Longrightarrow> unat (pr_start r) + unat (region_size b r) \<le> 2 ^ 39"
  shows "writes addrs (if region_size b r = 0 then {} else blocks (pr_start r) (region_size b r))
    (\<lambda>n. block_desc (of_nat n * BLOCK_SIZE) ATTR_NORMAL AP_EL1_RW SH_INNER False)
    (\<lambda>n. block_desc (of_nat n * BLOCK_SIZE) ATTR_NORMAL AP_EL0_RW SH_INNER False) st (map_region b addrs r st)"
proof (cases "region_size b r = 0")
  case True
  with wf show ?thesis by (simp add: map_region_eq writes_def same_roots_def)
next
  case False
  let ?B = "blocks (pr_start r) (region_size b r)"
  note bound = sz [OF False] False
  from map_kernel_ok [OF ok wf bound] obtain tk where
    k: "map_kernel addrs (pr_start r) (region_size b r) ATTR_NORMAL AP_EL1_RW SH_INNER False st = Inr (st\<lparr>K_tables := tk\<rparr>)"
      "tables_wf addrs (st\<lparr>K_tables := tk\<rparr>)"
      "\<forall>n<2 ^ 18. k_entry addrs (st\<lparr>K_tables := tk\<rparr>) n =
        (if n \<in> ?B then block_desc (of_nat n * BLOCK_SIZE) ATTR_NORMAL AP_EL1_RW SH_INNER False else k_entry addrs st n)"
    by blast
  from map_user_ok [OF ok k(2) bound] obtain tu where
    u: "map_user addrs (pr_start r) (region_size b r) ATTR_NORMAL AP_EL0_RW SH_INNER False (st\<lparr>K_tables := tk\<rparr>) =
        Inr (st\<lparr>K_tables := tk, U_tables := tu\<rparr>)" "tables_wf addrs (st\<lparr>K_tables := tk, U_tables := tu\<rparr>)"
      "\<forall>n<2 ^ 18. u_entry addrs (st\<lparr>K_tables := tk, U_tables := tu\<rparr>) n =
        (if n \<in> ?B then block_desc (of_nat n * BLOCK_SIZE) ATTR_NORMAL AP_EL0_RW SH_INNER False
         else u_entry addrs (st\<lparr>K_tables := tk\<rparr>) n)"
    by blast
  show ?thesis
    unfolding writes_def
    by (intro exI [of _ "st\<lparr>K_tables := tk, U_tables := tu\<rparr>"])
      (use False u k in \<open>simp add: map_region_eq same_roots_def\<close>)
qed

section \<open>Initialisation\<close>

definition direct_entry :: "nat \<Rightarrow> bool \<Rightarrow> u64 \<Rightarrow> bool" where
  "direct_entry n m d \<longleftrightarrow>
     (if m then d AND 0b11 = DESC_BLOCK \<and> d AND 0x0000FFFFFFE00000 = of_nat n * BLOCK_SIZE else d = 0)"

text \<open>Both address spaces map exactly the blocks in \<open>B\<close>, block \<open>n\<close> to physical block \<open>n\<close>.\<close>

definition direct :: "table_addrs \<Rightarrow> nat set \<Rightarrow> paging_state \<Rightarrow> bool" where
  "direct addrs B st \<longleftrightarrow> tables_wf addrs st \<and>
     (\<forall>n<2 ^ 18. direct_entry n (n \<in> B) (k_entry addrs st n) \<and> direct_entry n (n \<in> B) (u_entry addrs st n))"

lemma direct_writes:
  assumes "direct addrs A st"
    and "writes addrs B (\<lambda>n. block_desc (of_nat n * BLOCK_SIZE) a1 p1 s1 x1)
      (\<lambda>n. block_desc (of_nat n * BLOCK_SIZE) a2 p2 s2 x2) st r"
  shows "\<exists>st'. r = Inr st' \<and> same_roots st st' \<and> direct addrs (A \<union> B) st'"
proof -
  obtain st' where st': "r = Inr st'" "tables_wf addrs st'" "same_roots st st'"
    "\<forall>n<2 ^ 18. k_entry addrs st' n = (if n \<in> B then block_desc (of_nat n * BLOCK_SIZE) a1 p1 s1 x1 else k_entry addrs st n)"
    "\<forall>n<2 ^ 18. u_entry addrs st' n = (if n \<in> B then block_desc (of_nat n * BLOCK_SIZE) a2 p2 s2 x2 else u_entry addrs st n)"
    using assms(2) unfolding writes_def by blast
  have "direct_entry n (n \<in> A \<union> B) (k_entry addrs st' n) \<and> direct_entry n (n \<in> A \<union> B) (u_entry addrs st' n)"
    if n: "n < 2 ^ 18" for n
  proof (cases "n \<in> B")
    case True
    have "direct_entry n True (block_desc (of_nat n * BLOCK_SIZE) a p s x)" for a p s x
      using block_addr_mask [OF n] by (simp add: direct_entry_def)
    with True st'(4,5) n show ?thesis by simp
  next
    case False
    with st'(4,5) n assms(1) show ?thesis by (simp add: direct_def)
  qed
  with st'(1-3) show ?thesis by (auto simp: direct_def)
qed

lemma same_roots_trans: "same_roots a b \<Longrightarrow> same_roots b c \<Longrightarrow> same_roots a c"
  by (simp add: same_roots_def)

definition region_blocks :: "board \<Rightarrow> phys_region \<Rightarrow> nat set" where
  "region_blocks b r = (if region_size b r = 0 then {} else blocks (pr_start r) (region_size b r))"

lemma map_regions_direct:
  assumes "addrs_ok addrs" "direct addrs A st"
    and "\<forall>r\<in>set rs. region_size b r \<noteq> 0 \<longrightarrow> unat (pr_start r) + unat (region_size b r) \<le> 2 ^ 39"
  shows "\<exists>st'. map_regions b addrs rs st = Inr st' \<and> same_roots st st' \<and>
    direct addrs (A \<union> (\<Union>r\<in>set rs. region_blocks b r)) st'"
  using assms
proof (induction rs arbitrary: A st)
  case Nil
  then show ?case by (simp add: same_roots_def)
next
  case (Cons r rs)
  have wf: "tables_wf addrs st" using Cons.prems(2) by (simp add: direct_def)
  have sz: "region_size b r \<noteq> 0 \<Longrightarrow> unat (pr_start r) + unat (region_size b r) \<le> 2 ^ 39"
    using Cons.prems(3) by simp
  from direct_writes [OF Cons.prems(2) map_region_writes [OF Cons.prems(1) wf sz]]
  obtain st1 where st1: "map_region b addrs r st = Inr st1" "same_roots st st1" "direct addrs (A \<union> region_blocks b r) st1"
    by (auto simp: region_blocks_def)
  from Cons.IH [OF Cons.prems(1) st1(3)] Cons.prems(3) obtain st2 where
    st2: "map_regions b addrs rs st1 = Inr st2" "same_roots st1 st2"
      "direct addrs (A \<union> region_blocks b r \<union> (\<Union>r\<in>set rs. region_blocks b r)) st2" by auto
  then show ?case using st1(1) same_roots_trans [OF st1(2) st2(2)] by (simp add: Un_assoc)
qed

lemma map_window_direct:
  assumes "addrs_ok addrs" "direct addrs A st" "unat base + unat sz \<le> 2 ^ 39" "sz \<noteq> 0"
  shows "\<exists>st'. map_window addrs base sz attr sh st = Inr st' \<and> same_roots st st' \<and> direct addrs (A \<union> blocks base sz) st'"
  using direct_writes [OF assms(2) map_window_writes [OF assms(1) _ assms(3,4)]] assms(2) by (simp add: direct_def)

fun board_windows :: "board \<Rightarrow> (u64 \<times> u64) list" where
  "board_windows Qemu = [(PERIPHERAL_BASE, PERIPHERAL_SIZE), (0x40000000, 0x00200000), (0x3c000000, 0x04000000)]"
| "board_windows Rpi5 = [(SOC_BASE, SOC_MMIO_SIZE), (RP1_BASE, RP1_SIZE)]"

definition extra_windows :: "paging_state \<Rightarrow> (u64 \<times> u64) list" where
  "extra_windows st = (if EXTRA_MMIO_SIZE st \<noteq> 0 then [(EXTRA_MMIO_BASE st, EXTRA_MMIO_SIZE st)] else [])"

definition window_blocks :: "(u64 \<times> u64) list \<Rightarrow> nat set" where
  "window_blocks ws = (\<Union>w\<in>set ws. blocks (fst w) (snd w))"

lemma window_bounds:
  "(base, sz) \<in> set (board_windows b) \<Longrightarrow> unat base + unat sz \<le> 2 ^ 39 \<and> sz \<noteq> 0"
  by (cases b) (auto simp: PERIPHERAL_BASE_def PERIPHERAL_SIZE_def SOC_BASE_def SOC_MMIO_SIZE_def RP1_BASE_def RP1_SIZE_def)

lemma extra_window_direct:
  assumes "addrs_ok addrs" "direct addrs A st" "unat (EXTRA_MMIO_BASE st) + unat (EXTRA_MMIO_SIZE st) \<le> 2 ^ 39"
  shows "\<exists>st'. (if EXTRA_MMIO_SIZE st \<noteq> 0
      then map_window addrs (EXTRA_MMIO_BASE st) (EXTRA_MMIO_SIZE st) ATTR_DEVICE SH_NONE st else Inr st) = Inr st' \<and>
    same_roots st st' \<and> direct addrs (A \<union> window_blocks (extra_windows st)) st'"
  using map_window_direct [OF assms(1,2,3), of ATTR_DEVICE SH_NONE] assms(2)
  by (auto simp: extra_windows_def window_blocks_def same_roots_def)

lemma map_mmio_direct:
  assumes ok: "addrs_ok addrs" and st: "direct addrs A st"
    and extra: "unat (EXTRA_MMIO_BASE st) + unat (EXTRA_MMIO_SIZE st) \<le> 2 ^ 39"
  shows "\<exists>st'. map_mmio b addrs st = Inr st' \<and> same_roots st st' \<and>
    direct addrs (A \<union> window_blocks (board_windows b @ extra_windows st)) st'"
proof -
  have win: "\<exists>t. map_window addrs base sz attr sh s = Inr t \<and> same_roots s t \<and> direct addrs (X \<union> blocks base sz) t"
    if "direct addrs X s" "(base, sz) \<in> set (board_windows b)" for base sz attr sh s X
    using map_window_direct [OF ok that(1)] window_bounds [OF that(2)] by blast
  have board: "\<exists>t. (case b of
      Qemu \<Rightarrow> and_then (map_window addrs PERIPHERAL_BASE PERIPHERAL_SIZE ATTR_DEVICE SH_NONE st) (\<lambda>st.
        and_then (map_window addrs 0x40000000 0x00200000 ATTR_DEVICE SH_NONE st) (\<lambda>st.
        map_window addrs 0x3c000000 0x04000000 ATTR_NORMAL SH_INNER st))
    | Rpi5 \<Rightarrow> and_then (map_window addrs SOC_BASE SOC_MMIO_SIZE ATTR_DEVICE SH_NONE st) (\<lambda>st.
        map_window addrs RP1_BASE RP1_SIZE ATTR_DEVICE SH_NONE st)) = Inr t \<and>
    same_roots st t \<and> direct addrs (A \<union> window_blocks (board_windows b)) t"
  proof (cases b)
    case Qemu
    obtain t1 where t1: "map_window addrs PERIPHERAL_BASE PERIPHERAL_SIZE ATTR_DEVICE SH_NONE st = Inr t1"
      "same_roots st t1" "direct addrs (A \<union> blocks PERIPHERAL_BASE PERIPHERAL_SIZE) t1"
      using win [OF st] Qemu by fastforce
    obtain t2 where t2: "map_window addrs 0x40000000 0x00200000 ATTR_DEVICE SH_NONE t1 = Inr t2"
      "same_roots t1 t2" "direct addrs (A \<union> blocks PERIPHERAL_BASE PERIPHERAL_SIZE \<union> blocks 0x40000000 0x00200000) t2"
      using win [OF t1(3)] Qemu by fastforce
    obtain t3 where t3: "map_window addrs 0x3c000000 0x04000000 ATTR_NORMAL SH_INNER t2 = Inr t3" "same_roots t2 t3"
      "direct addrs (A \<union> blocks PERIPHERAL_BASE PERIPHERAL_SIZE \<union> blocks 0x40000000 0x00200000 \<union>
        blocks 0x3c000000 0x04000000) t3"
      using win [OF t2(3)] Qemu by fastforce
    have "same_roots st t3" using t1(2) t2(2) t3(2) same_roots_trans by blast
    with t1(1) t2(1) t3(1,3) Qemu show ?thesis by (simp add: window_blocks_def Un_assoc)
  next
    case Rpi5
    obtain t1 where t1: "map_window addrs SOC_BASE SOC_MMIO_SIZE ATTR_DEVICE SH_NONE st = Inr t1"
      "same_roots st t1" "direct addrs (A \<union> blocks SOC_BASE SOC_MMIO_SIZE) t1"
      using win [OF st] Rpi5 by fastforce
    obtain t2 where t2: "map_window addrs RP1_BASE RP1_SIZE ATTR_DEVICE SH_NONE t1 = Inr t2"
      "same_roots t1 t2" "direct addrs (A \<union> blocks SOC_BASE SOC_MMIO_SIZE \<union> blocks RP1_BASE RP1_SIZE) t2"
      using win [OF t1(3)] Rpi5 by fastforce
    have "same_roots st t2" using t1(2) t2(2) same_roots_trans by blast
    with t1(1) t2(1,3) Rpi5 show ?thesis by (simp add: window_blocks_def Un_assoc)
  qed
  then obtain t where t: "same_roots st t" "direct addrs (A \<union> window_blocks (board_windows b)) t"
    and eq: "map_mmio b addrs st = (if EXTRA_MMIO_SIZE t \<noteq> 0
      then map_window addrs (EXTRA_MMIO_BASE t) (EXTRA_MMIO_SIZE t) ATTR_DEVICE SH_NONE t else Inr t)"
    unfolding map_mmio_def by auto
  have same: "EXTRA_MMIO_BASE t = EXTRA_MMIO_BASE st" "EXTRA_MMIO_SIZE t = EXTRA_MMIO_SIZE st"
    using t(1) by (simp_all add: same_roots_def)
  then have "extra_windows t = extra_windows st" by (simp add: extra_windows_def)
  with extra_window_direct [OF ok t(2)] extra eq same same_roots_trans [OF t(1)] show ?thesis
    by (auto simp: window_blocks_def Un_assoc)
qed

lemma reset_direct: "direct addrs {} (reset_tables addrs st)"
proof -
  have "DESC_TABLE \<noteq> 0" by (simp add: DESC_TABLE_def)
  then have "l2_slot pool ((ts :: table_set)\<lparr>l1 := zero_table, next_l2 := 0\<rparr>) i = None" for pool ts i
    by (simp add: l2_slot_def zero_table_def)
  then have "entry pool ((ts :: table_set)\<lparr>l1 := zero_table, next_l2 := 0\<rparr>) n = 0" for pool ts n
    by (simp add: entry_def)
  moreover have "tables_ok pool ((ts :: table_set)\<lparr>l1 := zero_table, next_l2 := 0\<rparr>)" for pool ts
    unfolding tables_ok_def by (intro exI [of _ "[]"]) (simp add: zero_table_def DESC_TABLE_def)
  ultimately show ?thesis
    by (simp add: direct_def tables_wf_def direct_entry_def k_entry_def u_entry_def reset_tables_def)
qed

section \<open>Translation\<close>

text \<open>
  The table walk: bits 47 to 39 index level 0, bits 38 to 30 level 1, bits 29 to 21 level 2, and
  the low 21 bits are the offset in the block. Addresses whose top 16 bits are clear go through
  TTBR0, those with all of them set through TTBR1, others fault.
\<close>

definition walk :: "page_table \<Rightarrow> usize \<Rightarrow> usize \<Rightarrow> table_set \<Rightarrow> u64 \<Rightarrow> u64 option" where
  "walk l0 l1_addr pool ts va =
     (let e0 = l0 (unat (drop_bit 39 va AND 0x1ff)) in
      if e0 AND 0b11 = DESC_TABLE \<and> phys_to_virt (e0 AND 0x0000FFFFFFFFF000) = l1_addr
      then let d = (case l2_slot pool ts (l1_index va) of None \<Rightarrow> 0 | Some k \<Rightarrow> l2_pool ts k (l2_index va))
        in if d AND 0b11 = DESC_BLOCK then Some ((d AND 0x0000FFFFFFE00000) OR (va AND 0x1FFFFF)) else None
      else None)"

definition translate :: "table_addrs \<Rightarrow> paging_state \<Rightarrow> u64 \<Rightarrow> u64 option" where
  "translate addrs st va =
     (if va < 0x0001000000000000
      then walk (U_L0 st) (U_L1_addr addrs) (U_L2_POOL_addr addrs) (U_tables st) va
      else if 0xFFFF000000000000 \<le> va
      then walk (K_L0 st) (K_L1_addr addrs) (K_L2_POOL_addr addrs) (K_tables st) va
      else None)"

lemma l0_index: "unat (drop_bit 39 va AND 0x1ff) = block_no va div 2 ^ 18 mod 512"
  unfolding unat_drop_and_9 block_no_def by (simp add: div_mult2_eq [symmetric])

lemma block_no_mod_less [simp]: "block_no va mod 2 ^ 18 < 2 ^ 18"
  by simp

lemma walk_root:
  assumes "page_ok l1_addr"
  shows "walk (zero_table(i := table_desc (virt_to_phys l1_addr))) l1_addr pool ts va =
    (if block_no va div 2 ^ 18 mod 512 = i \<and> mapped pool ts (block_no va mod 2 ^ 18)
     then Some ((entry pool ts (block_no va mod 2 ^ 18) AND 0x0000FFFFFFE00000) OR (va AND 0x1FFFFF)) else None)"
proof -
  have ent: "entry pool ts (block_no va mod 2 ^ 18) =
      (case l2_slot pool ts (l1_index va) of None \<Rightarrow> 0 | Some k \<Rightarrow> l2_pool ts k (l2_index va))"
    by (simp only: entry_def l1_index_block l2_index_block)
  show ?thesis
    using assms unfolding walk_def l0_index Let_def ent [symmetric] mapped_def [symmetric]
    by (simp add: zero_table_def) (simp add: DESC_TABLE_def)
qed

lemma block_offset: "of_nat n * BLOCK_SIZE OR (va AND 0x1FFFFF) = of_nat n * BLOCK_SIZE + (va AND 0x1FFFFF)"
proof -
  have "BLOCK_SIZE = 2 ^ 21" by (simp add: BLOCK_SIZE_def)
  then have "of_nat n * BLOCK_SIZE = push_bit 21 (of_nat n)" by (simp only: push_bit_eq_mult)
  moreover have "va AND 0x1FFFFF = take_bit 21 va" by (simp add: take_bit_eq_mask mask_eq_exp_minus_1)
  moreover have "push_bit 21 (of_nat n :: u64) AND take_bit 21 va = 0"
    by (rule bit_eqI) (simp add: bit_simps)
  ultimately show ?thesis by (simp only: disjunctive_add_eq_or)
qed

lemma unat_block_offset:
  "n < 2 ^ 18 \<Longrightarrow> unat (of_nat n * BLOCK_SIZE OR (va AND 0x1FFFFF)) = n * 2 ^ 21 + unat va mod 2 ^ 21"
proof -
  assume n: "n < 2 ^ 18"
  have "va AND 0x1FFFFF = va AND mask 21" by (simp add: mask_eq_exp_minus_1)
  then have off: "unat (va AND 0x1FFFFF) = unat va mod 2 ^ 21" by (simp only: unat_and_low)
  have blk: "unat (of_nat n * BLOCK_SIZE) = n * 2 ^ 21" using n by (intro unat_block) simp
  have "unat va mod 2 ^ 21 < 2 ^ 21" by simp
  then have "n * 2 ^ 21 + unat va mod 2 ^ 21 < 2 ^ 64" using n by simp
  then show ?thesis unfolding block_offset unat_word_ariths(1) blk off by simp
qed


text \<open>The roots as \<open>reset_tables\<close> leaves them.\<close>

definition roots_ok :: "table_addrs \<Rightarrow> paging_state \<Rightarrow> bool" where
  "roots_ok addrs st \<longleftrightarrow> K_L0 st = zero_table(KERNEL_L0_INDEX := table_desc (virt_to_phys (K_L1_addr addrs))) \<and>
     U_L0 st = zero_table(0 := table_desc (virt_to_phys (U_L1_addr addrs)))"

lemma KERNEL_L0_INDEX_256: "KERNEL_L0_INDEX = 256"
  by (simp add: KERNEL_L0_INDEX_def KERNEL_VIRT_BASE_def)

lemma direct_mapped:
  assumes "direct addrs B st" "n < 2 ^ 18"
  shows "mapped (K_L2_POOL_addr addrs) (K_tables st) n \<longleftrightarrow> n \<in> B"
    and "mapped (U_L2_POOL_addr addrs) (U_tables st) n \<longleftrightarrow> n \<in> B"
    and "n \<in> B \<Longrightarrow> entry (K_L2_POOL_addr addrs) (K_tables st) n AND 0x0000FFFFFFE00000 = of_nat n * BLOCK_SIZE"
    and "n \<in> B \<Longrightarrow> entry (U_L2_POOL_addr addrs) (U_tables st) n AND 0x0000FFFFFFE00000 = of_nat n * BLOCK_SIZE"
  using assms
  by (auto simp: direct_def direct_entry_def k_entry_def u_entry_def mapped_def DESC_BLOCK_def split: if_splits)

lemma block_no_split: "unat va = block_no va * 2 ^ 21 + unat va mod 2 ^ 21"
  by (simp add: block_no_def)

lemma user_walk:
  assumes "direct addrs B st" "roots_ok addrs st" "addrs_ok addrs" "unat va < 2 ^ 48"
  shows "walk (U_L0 st) (U_L1_addr addrs) (U_L2_POOL_addr addrs) (U_tables st) va =
    (if unat va < 2 ^ 39 \<and> block_no va \<in> B then Some va else None)"
proof -
  let ?n = "block_no va mod 2 ^ 18"
  have root: "block_no va div 2 ^ 18 mod 512 = 0 \<longleftrightarrow> unat va < 2 ^ 39"
    using assms(4) by (simp add: block_no_def div_mult2_eq [symmetric] div_eq_0_iff less_mult_imp_div_less)
  have w: "walk (U_L0 st) (U_L1_addr addrs) (U_L2_POOL_addr addrs) (U_tables st) va =
    (if unat va < 2 ^ 39 \<and> ?n \<in> B then Some (of_nat ?n * BLOCK_SIZE OR (va AND 0x1FFFFF)) else None)"
  proof -
    have r: "U_L0 st = zero_table(0 := table_desc (virt_to_phys (U_L1_addr addrs)))" "page_ok (U_L1_addr addrs)"
      using assms(2,3) by (simp_all add: roots_ok_def addrs_ok_def)
    show ?thesis
      unfolding r(1) walk_root [OF r(2)] root direct_mapped(2) [OF assms(1) block_no_mod_less]
      using direct_mapped(4) [OF assms(1) block_no_mod_less [of va]] by simp
  qed
  have "?n = block_no va \<and> of_nat ?n * BLOCK_SIZE OR (va AND 0x1FFFFF) = va" if "unat va < 2 ^ 39"
  proof
    show n: "?n = block_no va" using that by (simp add: block_no_def less_mult_imp_div_less)
    show "of_nat ?n * BLOCK_SIZE OR (va AND 0x1FFFFF) = va"
      using unat_block_offset [OF block_no_mod_less [of va], of va] block_no_split [of va]
      unfolding n by (simp only: word_unat_eq_iff)
  qed
  then show ?thesis unfolding w by auto
qed

lemma kernel_offset:
  assumes "2 ^ 64 - 2 ^ 48 \<le> unat va"
  shows "block_no va div 2 ^ 18 mod 512 = 256 \<longleftrightarrow> unat (virt_to_phys va) < 2 ^ 39"
    and "unat (virt_to_phys va) < 2 ^ 39 \<Longrightarrow> unat va = 0x1FFFF00 * 2 ^ 39 + unat (virt_to_phys va)"
proof -
  have kvb: "unat PHYS_MAP_BASE = 0x1FFFF00 * 2 ^ 39" by (simp add: PHYS_MAP_BASE_def KERNEL_VIRT_BASE_def)
  define m where "m = unat va - 0x1FFFE00 * 2 ^ 39"
  have m: "unat va = 0x1FFFE00 * 2 ^ 39 + m" "m < 2 ^ 48"
    using assms unat_u64_less [of va] by (simp_all add: m_def)
  have "block_no va div 2 ^ 18 = (0x1FFFE00 * 2 ^ 39 + m) div 2 ^ 39"
    using m(1) by (simp add: block_no_def div_mult2_eq [symmetric])
  also have "\<dots> = 0x1FFFE00 + m div 2 ^ 39" by (rule div_mult_self3) simp
  finally have "block_no va div 2 ^ 18 mod 512 = (65535 * 512 + m div 2 ^ 39) mod 512" by simp
  also have "\<dots> = m div 2 ^ 39" using m(2) by (simp only: mod_mult_self3) (simp add: less_mult_imp_div_less)
  finally have idx: "block_no va div 2 ^ 18 mod 512 = m div 2 ^ 39" .
  have "m div 2 ^ 39 = 256 \<longleftrightarrow> 256 * 2 ^ 39 \<le> m \<and> m < 257 * 2 ^ 39"
    by (auto simp: div_nat_eqI)
  moreover have p: "unat (virt_to_phys va) =
      (if 256 * 2 ^ 39 \<le> m then m - 256 * 2 ^ 39 else m + 2 ^ 64 - 256 * 2 ^ 39)"
    unfolding virt_to_phys_def unat_sub_if' kvb m(1) by simp
  ultimately show "block_no va div 2 ^ 18 mod 512 = 256 \<longleftrightarrow> unat (virt_to_phys va) < 2 ^ 39"
    unfolding idx by auto
  show "unat (virt_to_phys va) < 2 ^ 39 \<Longrightarrow> unat va = 0x1FFFF00 * 2 ^ 39 + unat (virt_to_phys va)"
    unfolding p using m(1) by (auto split: if_splits)
qed

lemma kernel_walk:
  assumes "direct addrs B st" "roots_ok addrs st" "addrs_ok addrs" "2 ^ 64 - 2 ^ 48 \<le> unat va"
  shows "walk (K_L0 st) (K_L1_addr addrs) (K_L2_POOL_addr addrs) (K_tables st) va =
    (if unat (virt_to_phys va) < 2 ^ 39 \<and> block_no (virt_to_phys va) \<in> B then Some (virt_to_phys va) else None)"
proof -
  let ?n = "block_no va mod 2 ^ 18" and ?p = "virt_to_phys va"
  have w: "walk (K_L0 st) (K_L1_addr addrs) (K_L2_POOL_addr addrs) (K_tables st) va =
    (if unat ?p < 2 ^ 39 \<and> ?n \<in> B then Some (of_nat ?n * BLOCK_SIZE OR (va AND 0x1FFFFF)) else None)"
  proof -
    have r: "K_L0 st = zero_table(256 := table_desc (virt_to_phys (K_L1_addr addrs)))" "page_ok (K_L1_addr addrs)"
      using assms(2,3) by (simp_all add: roots_ok_def addrs_ok_def KERNEL_L0_INDEX_256)
    show ?thesis
      unfolding r(1) walk_root [OF r(2)] kernel_offset(1) [OF assms(4)] direct_mapped(1) [OF assms(1) block_no_mod_less]
      using direct_mapped(3) [OF assms(1) block_no_mod_less [of va]] by simp
  qed
  have "?n = block_no ?p \<and> of_nat ?n * BLOCK_SIZE OR (va AND 0x1FFFFF) = ?p" if p: "unat ?p < 2 ^ 39"
  proof
    have va: "unat va = 0x1FFFF00 * 2 ^ 18 * 2 ^ 21 + unat ?p" using kernel_offset(2) [OF assms(4) p] by simp
    have "block_no va = 0x1FFFF00 * 2 ^ 18 + block_no ?p"
      unfolding block_no_def va by (rule div_mult_self3) simp
    moreover have small: "block_no ?p < 2 ^ 18" using p by (simp add: block_no_def less_mult_imp_div_less)
    ultimately show n: "?n = block_no ?p" by (simp only: mod_mult_self3 mod_less)
    have "unat va mod 2 ^ 21 = unat ?p mod 2 ^ 21" unfolding va by (simp only: mod_mult_self3)
    then show "of_nat ?n * BLOCK_SIZE OR (va AND 0x1FFFFF) = ?p"
      using unat_block_offset [OF block_no_mod_less [of va], of va] block_no_split [of ?p]
      unfolding n by (simp only: word_unat_eq_iff)
  qed
  then show ?thesis unfolding w by auto
qed

lemma translate_direct:
  assumes "direct addrs B st" "roots_ok addrs st" "addrs_ok addrs"
  shows "translate addrs st va =
    (if unat va < 2 ^ 39 \<and> block_no va \<in> B then Some va
     else if unat (virt_to_phys va) < 2 ^ 39 \<and> block_no (virt_to_phys va) \<in> B then Some (virt_to_phys va)
     else None)"
proof -
  have p: "unat (virt_to_phys va) = (if unat PHYS_MAP_BASE \<le> unat va then unat va - unat PHYS_MAP_BASE
      else unat va + 2 ^ 64 - unat PHYS_MAP_BASE)" and kvb: "unat PHYS_MAP_BASE = 2 ^ 64 - 2 ^ 47"
    by (simp_all add: virt_to_phys_def unat_sub_if' PHYS_MAP_BASE_def KERNEL_VIRT_BASE_def)
  consider "unat va < 2 ^ 48" | "2 ^ 48 \<le> unat va" "unat va < 2 ^ 64 - 2 ^ 48" | "2 ^ 64 - 2 ^ 48 \<le> unat va"
    by linarith
  then show ?thesis
  proof cases
    case 1
    then have "\<not> unat (virt_to_phys va) < 2 ^ 39" unfolding p kvb by simp
    with 1 user_walk [OF assms 1] show ?thesis by (simp add: translate_def word_less_nat_alt)
  next
    case 2
    then have "\<not> unat (virt_to_phys va) < 2 ^ 39" unfolding p kvb by simp
    with 2 show ?thesis by (simp add: translate_def word_less_nat_alt word_le_nat_alt)
  next
    case 3
    with kernel_walk [OF assms 3] show ?thesis by (simp add: translate_def word_less_nat_alt word_le_nat_alt)
  qed
qed

section \<open>Properties\<close>

definition in_range :: "u64 \<Rightarrow> u64 \<Rightarrow> u64 \<Rightarrow> bool" where
  "in_range pa base sz \<longleftrightarrow> unat base \<le> unat pa \<and> unat pa < unat base + unat sz"

text \<open>
  The physical bytes \<open>paging_init\<close> sets out to map: the non-MMIO regions (usable RAM capped at 1 GiB
  per region on the Raspberry Pi), the windows of the board, and the extra window.
\<close>

definition to_map :: "board \<Rightarrow> normalized_map \<Rightarrow> paging_state \<Rightarrow> u64 \<Rightarrow> bool" where
  "to_map b nmap st pa \<longleftrightarrow>
     (\<exists>r\<in>set (nm_live nmap). in_range pa (pr_start r) (region_size b r)) \<or>
     (\<exists>w\<in>set (board_windows b @ extra_windows st). in_range pa (fst w) (snd w))"

text \<open>Everything to be mapped ends at or below 512 GiB.\<close>

definition below_512G :: "normalized_map \<Rightarrow> paging_state \<Rightarrow> bool" where
  "below_512G nmap st \<longleftrightarrow> (\<forall>r\<in>set (nm_live nmap). unat (pr_end r) \<le> 2 ^ 39) \<and>
     unat (EXTRA_MMIO_BASE st) + unat (EXTRA_MMIO_SIZE st) \<le> 2 ^ 39"

lemma in_range_block: "in_range pa base sz \<Longrightarrow> block_no pa \<in> blocks base sz"
  by (auto simp: in_range_def blocks_def block_no_def div_le_mono)

lemma region_size_bound: "unat (region_size b r) \<le> unat (pr_end r) - unat (pr_start r)"
  by (auto simp: region_size_def unat_saturating_sub min_def word_le_nat_alt)

lemma region_size_fits:
  assumes "unat (pr_end r) \<le> 2 ^ 39" "region_size b r \<noteq> 0"
  shows "unat (pr_start r) + unat (region_size b r) \<le> 2 ^ 39"
proof -
  have "0 < unat (region_size b r)" using assms(2) by (simp add: unat_gt_0)
  with region_size_bound [of b r] assms(1) show ?thesis by linarith
qed

definition all_blocks :: "board \<Rightarrow> normalized_map \<Rightarrow> paging_state \<Rightarrow> nat set" where
  "all_blocks b nmap st =
     (\<Union>r\<in>set (nm_live nmap). region_blocks b r) \<union> window_blocks (board_windows b @ extra_windows st)"

lemma extra_windows_same: "same_roots a c \<Longrightarrow> extra_windows c = extra_windows a"
  by (simp add: extra_windows_def same_roots_def)

lemma paging_init_direct:
  assumes ok: "addrs_ok addrs" and fits: "below_512G nmap st"
  shows "\<exists>ps. paging_init b addrs nmap (st, regs) =
      Inr (ps, enable_mmu (virt_to_phys (U_L0_addr addrs)) (virt_to_phys (K_L0_addr addrs)) regs) \<and>
    roots_ok addrs ps \<and> direct addrs (all_blocks b nmap st) ps"
proof -
  let ?s0 = "reset_tables addrs st"
  have e0: "EXTRA_MMIO_BASE ?s0 = EXTRA_MMIO_BASE st" "EXTRA_MMIO_SIZE ?s0 = EXTRA_MMIO_SIZE st"
    by (simp_all add: reset_tables_def)
  have "\<forall>r\<in>set (nm_live nmap). region_size b r \<noteq> 0 \<longrightarrow> unat (pr_start r) + unat (region_size b r) \<le> 2 ^ 39"
    using fits region_size_fits by (simp add: below_512G_def)
  from map_regions_direct [OF ok reset_direct this] obtain s1 where
    s1: "map_regions b addrs (nm_live nmap) ?s0 = Inr s1" "same_roots ?s0 s1"
      "direct addrs ({} \<union> (\<Union>r\<in>set (nm_live nmap). region_blocks b r)) s1" by blast
  have "unat (EXTRA_MMIO_BASE s1) + unat (EXTRA_MMIO_SIZE s1) \<le> 2 ^ 39"
    using fits s1(2) e0 by (simp add: below_512G_def same_roots_def)
  from map_mmio_direct [OF ok s1(3) this] obtain s2 where
    s2: "map_mmio b addrs s1 = Inr s2" "same_roots s1 s2"
      "direct addrs ({} \<union> (\<Union>r\<in>set (nm_live nmap). region_blocks b r) \<union> window_blocks (board_windows b @ extra_windows s1)) s2"
    by blast
  let ?ps = "s2\<lparr>KERNEL_ROOT_PA := virt_to_phys (K_L0_addr addrs), USER_ROOT_PA := virt_to_phys (U_L0_addr addrs)\<rparr>"
  have "extra_windows s1 = extra_windows st"
    using extra_windows_same [OF s1(2)] e0 by (simp add: extra_windows_def)
  then have "direct addrs (all_blocks b nmap st) ?ps"
    using s2(3) by (simp add: all_blocks_def direct_def tables_wf_def k_entry_def u_entry_def)
  moreover have "roots_ok addrs ?ps"
    using same_roots_trans [OF s1(2) s2(2)] by (simp add: roots_ok_def same_roots_def reset_tables_def)
  ultimately show ?thesis using s1(1) s2(1) by (simp add: paging_init_def)
qed

lemma to_map_block:
  assumes "to_map b nmap st pa" "below_512G nmap st"
  shows "unat pa < 2 ^ 39 \<and> block_no pa \<in> all_blocks b nmap st"
  using assms(1) unfolding to_map_def
proof (elim disjE bexE)
  fix r
  assume r: "r \<in> set (nm_live nmap)" "in_range pa (pr_start r) (region_size b r)"
  then have nz: "region_size b r \<noteq> 0" by (auto simp: in_range_def)
  have "unat (pr_start r) + unat (region_size b r) \<le> 2 ^ 39"
    using assms(2) r(1) region_size_fits [OF _ nz] by (simp add: below_512G_def)
  with r(2) have "unat pa < 2 ^ 39" by (simp add: in_range_def)
  with r nz in_range_block [OF r(2)] show ?thesis by (auto simp: all_blocks_def region_blocks_def)
next
  fix w
  assume w: "w \<in> set (board_windows b @ extra_windows st)" "in_range pa (fst w) (snd w)"
  have "unat (fst w) + unat (snd w) \<le> 2 ^ 39"
    using w(1) window_bounds [of "fst w" "snd w" b] assms(2)
    by (auto simp: extra_windows_def below_512G_def split: if_splits)
  with w(2) have "unat pa < 2 ^ 39" by (simp add: in_range_def)
  with w(1) in_range_block [OF w(2)] show ?thesis by (auto simp: all_blocks_def window_blocks_def)
qed

text \<open>
  C4. \<open>paging::init\<close> builds the direct map. It never exhausts the table pool and never follows a
  bad descriptor; afterwards every byte of a mapped region or device window translates to itself
  through the user tables and, at its higher-half alias, to itself through the kernel tables; and
  nothing translates to anything else.
\<close>

theorem paging_init_direct_map:
  assumes "addrs_ok addrs" and "below_512G nmap st"
  shows "\<exists>ps regs'. paging_init b addrs nmap (st, regs) = Inr (ps, regs') \<and>
    (\<forall>pa. to_map b nmap st pa \<longrightarrow>
       translate addrs ps pa = Some pa \<and> translate addrs ps (phys_to_virt pa) = Some pa) \<and>
    (\<forall>va pa. translate addrs ps va = Some pa \<longrightarrow> va = pa \<or> va = phys_to_virt pa)"
proof -
  from paging_init_direct [OF assms] obtain ps where
    ps: "paging_init b addrs nmap (st, regs) =
        Inr (ps, enable_mmu (virt_to_phys (U_L0_addr addrs)) (virt_to_phys (K_L0_addr addrs)) regs)"
      "roots_ok addrs ps" "direct addrs (all_blocks b nmap st) ps" by blast
  note tr = translate_direct [OF ps(3,2) assms(1)]
  have "translate addrs ps pa = Some pa \<and> translate addrs ps (phys_to_virt pa) = Some pa"
    if "to_map b nmap st pa" for pa
  proof -
    note pa = to_map_block [OF that assms(2)]
    have "unat (phys_to_virt pa) = unat pa + (2 ^ 64 - 2 ^ 47)"
      using pa by (simp add: phys_to_virt_def PHYS_MAP_BASE_def KERNEL_VIRT_BASE_def unat_word_ariths)
    then have "\<not> unat (phys_to_virt pa) < 2 ^ 39" by simp
    with pa show ?thesis unfolding tr by simp
  qed
  moreover have "translate addrs ps va = Some pa \<longrightarrow> va = pa \<or> va = phys_to_virt pa" for va pa
    unfolding tr by auto
  ultimately show ?thesis using ps(1) by blast
qed


lemma page_mask: "(0x0000FFFFFFFFF000 :: u64) = mask 48 AND NOT (mask 12)"
  by (simp add: mask_eq_exp_minus_1)

lemma page_okI: "unat (virt_to_phys va) = m * 4096 \<Longrightarrow> m < 2 ^ 36 \<Longrightarrow> page_ok va"
proof -
  assume u: "unat (virt_to_phys va) = m * 4096" and m: "m < 2 ^ 36"
  have "unat (virt_to_phys va AND 0x0000FFFFFFFFF000) = (m * 4096) mod 2 ^ 48 div 2 ^ 12 * 2 ^ 12"
    unfolding page_mask and.assoc [symmetric] unat_and_not_mask unat_and_low u ..
  also have "\<dots> = unat (virt_to_phys va)" using m u by simp
  finally show ?thesis unfolding page_ok_def by (simp only: word_unat_eq_iff)
qed

lemma pool_okI: "unat (virt_to_phys pool) = m * 4096 \<Longrightarrow> m < 2 ^ 35 \<Longrightarrow> pool_ok pool"
  unfolding pool_ok_def
proof (intro allI impI)
  fix k
  assume u: "unat (virt_to_phys pool) = m * 4096" and m: "m < 2 ^ 35" and k: "k < L2_TABLES"
  have "virt_to_phys (slot_addr pool k) = virt_to_phys pool + of_nat k * 4096"
    by (simp add: virt_to_phys_def slot_addr_def)
  moreover have "unat (of_nat k * 4096 :: u64) = k * 4096"
    using k by (simp add: unat_word_ariths unat_of_nat L2_TABLES_def)
  ultimately have "unat (virt_to_phys (slot_addr pool k)) = (m + k) * 4096"
    using u m k by (simp add: unat_word_ariths(1) L2_TABLES_def)
  then show "page_ok (slot_addr pool k)" by (rule page_okI) (use m k in \<open>simp add: L2_TABLES_def\<close>)
qed

definition demo_addrs :: table_addrs where
  "demo_addrs = \<lparr>K_L0_addr = phys_to_virt 0x100000, K_L1_addr = phys_to_virt 0x101000,
     K_L2_POOL_addr = phys_to_virt 0x200000, U_L0_addr = phys_to_virt 0x102000,
     U_L1_addr = phys_to_virt 0x103000, U_L2_POOL_addr = phys_to_virt 0x600000\<rparr>"

lemma demo_addrs_ok: "addrs_ok demo_addrs"
  unfolding addrs_ok_def demo_addrs_def
  by (auto intro: pool_okI [where m = "0x200"] pool_okI [where m = "0x600"] page_okI [where m = "0x101"] page_okI [where m = "0x103"])

definition demo_normalized :: normalized_map where
  "demo_normalized = \<lparr>nm_regions = (replicate 128 empty_region)
     [0 := \<lparr>pr_start = 0x80000, pr_end = 0x3c000000, pr_kind = UsableRam\<rparr>], nm_len = 1\<rparr>"

lemma demo_normalized_live:
  "nm_live demo_normalized = [\<lparr>pr_start = 0x80000, pr_end = 0x3c000000, pr_kind = UsableRam\<rparr>]"
  by (simp add: demo_normalized_def nm_live_def numeral_eq_Suc)

definition boot_tables :: paging_state where
  "boot_tables =
     (let ts = \<lparr>l1 = zero_table, l2_pool = (\<lambda>_. zero_table), next_l2 = 0\<rparr> in
      \<lparr>K_L0 = zero_table, K_tables = ts, U_L0 = zero_table, U_tables = ts, KERNEL_ROOT_PA = 0, USER_ROOT_PA = 0,
       EXTRA_MMIO_BASE = 0, EXTRA_MMIO_SIZE = 0\<rparr>)"

lemma demo_below: "below_512G demo_normalized boot_tables"
  by (simp add: below_512G_def demo_normalized_live boot_tables_def Let_def)

theorem paging_init_direct_map_witness:
  "\<forall>regs. \<exists>ps regs'. paging_init Qemu demo_addrs demo_normalized (boot_tables, regs) = Inr (ps, regs') \<and>
     translate demo_addrs ps 0x100123 = Some 0x100123 \<and>
     translate demo_addrs ps 0xFFFF800000100123 = Some 0x100123"
proof -
  have "to_map Qemu demo_normalized boot_tables 0x100123"
    by (simp add: to_map_def demo_normalized_live in_range_def region_size_def unat_saturating_sub)
  moreover have "phys_to_virt 0x100123 = 0xFFFF800000100123"
    by (simp add: phys_to_virt_def PHYS_MAP_BASE_def KERNEL_VIRT_BASE_def)
  ultimately show ?thesis
    using paging_init_direct_map [OF demo_addrs_ok demo_below, of Qemu] by metis
qed

text \<open>The VideoCore window of QEMU contains the blocks of the peripherals.\<close>

lemma peripheral_block:
  assumes "in_range pa PERIPHERAL_BASE PERIPHERAL_SIZE"
  shows "block_no pa < 2 ^ 18 \<and> block_no pa \<in> blocks 0x3c000000 0x04000000 \<and>
    of_nat (block_no pa) * BLOCK_SIZE = align_down pa BLOCK_SIZE"
proof -
  have "0x3F000000 \<le> unat pa" "unat pa < 0x40000000"
    using assms by (simp_all add: in_range_def PERIPHERAL_BASE_def PERIPHERAL_SIZE_def)
  then have "504 \<le> block_no pa" "block_no pa < 512" by (simp_all add: block_no_def less_mult_imp_div_less)
  then show ?thesis by (simp add: blocks_def align_down_block block_no_def)
qed

text \<open>
  C38. On QEMU the peripheral window is not device memory. \<open>map_mmio\<close> first maps it as device memory
  and then maps the VideoCore window over it, which ends where the peripherals end, as normal
  cacheable memory: after \<open>paging::init\<close> every peripheral register is reached through a normal,
  inner-shareable block in both address spaces.
\<close>

theorem qemu_peripherals_mapped_normal:
  assumes "addrs_ok addrs" and "below_512G nmap st" and "EXTRA_MMIO_SIZE st = 0"
  shows "\<exists>ps regs'. paging_init Qemu addrs nmap (st, regs) = Inr (ps, regs') \<and>
    (\<forall>pa. in_range pa PERIPHERAL_BASE PERIPHERAL_SIZE \<longrightarrow>
       u_entry addrs ps (block_no pa) = block_desc (align_down pa BLOCK_SIZE) ATTR_NORMAL AP_EL1_RW SH_INNER True \<and>
       k_entry addrs ps (block_no pa) = block_desc (align_down pa BLOCK_SIZE) ATTR_NORMAL AP_EL1_RW SH_INNER True)"
proof -
  let ?s0 = "reset_tables addrs st"
  have "\<forall>r\<in>set (nm_live nmap). region_size Qemu r \<noteq> 0 \<longrightarrow> unat (pr_start r) + unat (region_size Qemu r) \<le> 2 ^ 39"
    using assms(2) region_size_fits by (simp add: below_512G_def)
  from map_regions_direct [OF assms(1) reset_direct this] obtain s1 A where
    s1: "map_regions Qemu addrs (nm_live nmap) ?s0 = Inr s1" "same_roots ?s0 s1" "direct addrs A s1" by blast
  have win: "unat b + unat z \<le> 2 ^ 39" "z \<noteq> 0" if "(b, z) \<in> set (board_windows Qemu)" for b z
    using window_bounds [OF that] by auto
  obtain t1 A1 where t1: "map_window addrs PERIPHERAL_BASE PERIPHERAL_SIZE ATTR_DEVICE SH_NONE s1 = Inr t1"
    "same_roots s1 t1" "direct addrs A1 t1"
    using map_window_direct [OF assms(1) s1(3) win [of PERIPHERAL_BASE PERIPHERAL_SIZE], of ATTR_DEVICE SH_NONE] by auto
  obtain t2 A2 where t2: "map_window addrs 0x40000000 0x00200000 ATTR_DEVICE SH_NONE t1 = Inr t2"
    "same_roots t1 t2" "direct addrs A2 t2"
    using map_window_direct [OF assms(1) t1(3) win [of "0x40000000" "0x00200000"], of ATTR_DEVICE SH_NONE] by auto
  have wf: "tables_wf addrs t2" using t2(3) by (simp add: direct_def)
  have "writes addrs (blocks 0x3c000000 0x04000000) (\<lambda>n. block_desc (of_nat n * BLOCK_SIZE) ATTR_NORMAL AP_EL1_RW SH_INNER True)
      (\<lambda>n. block_desc (of_nat n * BLOCK_SIZE) ATTR_NORMAL AP_EL1_RW SH_INNER True) t2
      (map_window addrs 0x3c000000 0x04000000 ATTR_NORMAL SH_INNER t2)"
    by (rule map_window_writes [OF assms(1) wf]) simp_all
  then obtain t3 where t3: "map_window addrs 0x3c000000 0x04000000 ATTR_NORMAL SH_INNER t2 = Inr t3" "same_roots t2 t3"
    and d: "\<And>n. n < 2 ^ 18 \<Longrightarrow> n \<in> blocks 0x3c000000 0x04000000 \<Longrightarrow>
      k_entry addrs t3 n = block_desc (of_nat n * BLOCK_SIZE) ATTR_NORMAL AP_EL1_RW SH_INNER True \<and>
      u_entry addrs t3 n = block_desc (of_nat n * BLOCK_SIZE) ATTR_NORMAL AP_EL1_RW SH_INNER True"
    unfolding writes_def by auto
  have "EXTRA_MMIO_SIZE t3 = 0"
    using assms(3) s1(2) t1(2) t2(2) t3(2) by (simp add: same_roots_def reset_tables_def)
  then have init: "\<exists>regs'. paging_init Qemu addrs nmap (st, regs) = Inr (t3\<lparr>KERNEL_ROOT_PA := virt_to_phys (K_L0_addr addrs),
      USER_ROOT_PA := virt_to_phys (U_L0_addr addrs)\<rparr>, regs')"
    using s1(1) t1(1) t2(1) t3(1) by (simp add: paging_init_def map_mmio_def)
  have "k_entry addrs t3 (block_no pa) = block_desc (align_down pa BLOCK_SIZE) ATTR_NORMAL AP_EL1_RW SH_INNER True \<and>
      u_entry addrs t3 (block_no pa) = block_desc (align_down pa BLOCK_SIZE) ATTR_NORMAL AP_EL1_RW SH_INNER True"
    if "in_range pa PERIPHERAL_BASE PERIPHERAL_SIZE" for pa using peripheral_block [OF that] d by metis
  with init show ?thesis by (fastforce simp: k_entry_def u_entry_def)
qed

theorem qemu_peripherals_mapped_normal_witness:
  "\<exists>ps. u_entry demo_addrs ps (block_no (UART_BASE Qemu)) = block_desc 0x3F200000 ATTR_NORMAL AP_EL1_RW SH_INNER True"
proof -
  have "in_range (UART_BASE Qemu) PERIPHERAL_BASE PERIPHERAL_SIZE"
    by (simp add: in_range_def PERIPHERAL_BASE_def PERIPHERAL_SIZE_def)
  moreover have "align_down (UART_BASE Qemu) BLOCK_SIZE = 0x3F200000"
    by (simp add: align_down_def BLOCK_SIZE_def PERIPHERAL_BASE_def)
  moreover have "EXTRA_MMIO_SIZE boot_tables = 0" by (simp add: boot_tables_def Let_def)
  ultimately show ?thesis
    using qemu_peripherals_mapped_normal [OF demo_addrs_ok demo_below] by metis
qed

end
