(* ===== verification/Sync.thy ===== *)
theory Sync
  imports Prelude
begin

text \<open>
  \<open>src/util/sync.rs\<close>: the test-and-test-and-set spin lock behind every shared table of the kernel.
  CPUs interleave at the atomic accesses of \<open>lock\<close>, \<open>try_lock\<close> and \<open>drop\<close>; between acquiring and
  dropping a guard a CPU may change the protected data through \<open>deref_mut\<close>, and only then. The
  theorems justify modelling a lock-protected operation as one step of its component.
\<close>

section \<open>Definitions\<close>

text \<open>
  Where a CPU is: outside, about to try the compare-exchange of \<open>lock\<close>, spinning on the relaxed load,
  about to try the one of \<open>try_lock\<close>, or holding the guard.
\<close>

datatype phase = Outside | Locking | Spinning | Trying | Holding

record 'a spin_lock =
  locked :: bool
  data :: 'a
  cpu_phase :: "nat \<Rightarrow> phase"

definition spin_new :: "'a \<Rightarrow> 'a spin_lock" where
  "spin_new d = \<lparr>locked = False, data = d, cpu_phase = (\<lambda>_. Outside)\<rparr>"

text \<open>\<open>compare_exchange(false, true)\<close>: the old value, and the lock with the new one.\<close>

definition compare_exchange :: "'a spin_lock \<Rightarrow> bool \<times> 'a spin_lock" where
  "compare_exchange l = (if \<not> locked l then (True, l\<lparr>locked := True\<rparr>) else (False, l))"

definition at_phase :: "nat \<Rightarrow> phase \<Rightarrow> 'a spin_lock \<Rightarrow> 'a spin_lock" where
  "at_phase c p l = l\<lparr>cpu_phase := (cpu_phase l)(c := p)\<rparr>"

definition lock_try :: "nat \<Rightarrow> 'a spin_lock \<Rightarrow> 'a spin_lock" where
  "lock_try c l =
     (case compare_exchange l of (True, l') \<Rightarrow> at_phase c Holding l' | (False, l') \<Rightarrow> at_phase c Spinning l')"

definition lock_spin :: "nat \<Rightarrow> 'a spin_lock \<Rightarrow> 'a spin_lock" where
  "lock_spin c l = (if locked l then l else at_phase c Locking l)"

definition try_lock_try :: "nat \<Rightarrow> 'a spin_lock \<Rightarrow> 'a spin_lock" where
  "try_lock_try c l =
     (case compare_exchange l of (True, l') \<Rightarrow> at_phase c Holding l' | (False, l') \<Rightarrow> at_phase c Outside l')"

definition guard_drop :: "nat \<Rightarrow> 'a spin_lock \<Rightarrow> 'a spin_lock" where
  "guard_drop c l = at_phase c Outside (l\<lparr>locked := False\<rparr>)"

inductive spin_step :: "nat \<Rightarrow> 'a spin_lock \<Rightarrow> 'a spin_lock \<Rightarrow> bool" where
  call_lock: "cpu_phase l c = Outside \<Longrightarrow> spin_step c l (at_phase c Locking l)"
| call_try_lock: "cpu_phase l c = Outside \<Longrightarrow> spin_step c l (at_phase c Trying l)"
| do_lock: "cpu_phase l c = Locking \<Longrightarrow> spin_step c l (lock_try c l)"
| do_spin: "cpu_phase l c = Spinning \<Longrightarrow> spin_step c l (lock_spin c l)"
| do_try_lock: "cpu_phase l c = Trying \<Longrightarrow> spin_step c l (try_lock_try c l)"
| do_write: "cpu_phase l c = Holding \<Longrightarrow> spin_step c l (l\<lparr>data := d\<rparr>)"
| do_drop: "cpu_phase l c = Holding \<Longrightarrow> spin_step c l (guard_drop c l)"

inductive_cases spin_stepE: "spin_step c l m"

section \<open>Mutual exclusion\<close>

lemmas spin_defs = compare_exchange_def at_phase_def lock_try_def lock_spin_def try_lock_try_def guard_drop_def

definition exclusive :: "'a spin_lock \<Rightarrow> bool" where
  "exclusive l \<longleftrightarrow> (if locked l then \<exists>!c. cpu_phase l c = Holding else \<forall>c. cpu_phase l c \<noteq> Holding)"

lemma exclusive_step: "spin_step c l m \<Longrightarrow> exclusive l \<Longrightarrow> exclusive m"
proof (induction rule: spin_step.induct)
  case (do_drop l c)
  then show ?case by (auto simp: exclusive_def spin_defs split: if_splits)
next
  case (do_write l c d)
  then show ?case by (simp add: exclusive_def)
qed (force simp: exclusive_def spin_defs split: if_splits)+

interpretation spin: invariant_system "\<lambda>l. \<exists>d. l = spin_new d" "\<lambda>l m. \<exists>c. spin_step c l m" exclusive
proof unfold_locales
  show "exclusive l" if "\<exists>d. l = spin_new d" for l :: "'a spin_lock"
    using that by (auto simp: exclusive_def spin_new_def)
  show "exclusive m" if "\<exists>c. spin_step c l m" and "exclusive l" for l m :: "'a spin_lock"
    using that exclusive_step by blast
qed

section \<open>Properties\<close>

text \<open>
  C27. The lock excludes: in every interleaving of any number of CPUs, at most one CPU holds the
  guard, and while it does no step of another CPU changes the protected data or frees the lock.
\<close>

theorem spin_lock_excludes:
  assumes "reachable (\<lambda>l. \<exists>d. l = spin_new d) (\<lambda>l m. \<exists>c. spin_step c l m) l" and "cpu_phase l c = Holding"
  shows "(\<forall>c'. cpu_phase l c' = Holding \<longrightarrow> c' = c) \<and>
    (\<forall>c' m. c' \<noteq> c \<and> spin_step c' l m \<longrightarrow> data m = data l \<and> locked m \<and> cpu_phase m c = Holding)"
proof -
  have ex: "exclusive l" using assms(1) by (rule spin.reachable_inv)
  with assms(2) have lk: "locked l" and one: "\<forall>c'. cpu_phase l c' = Holding \<longrightarrow> c' = c"
    by (auto simp: exclusive_def split: if_splits)
  have "data m = data l \<and> locked m \<and> cpu_phase m c = Holding" if ne: "c' \<noteq> c" and st: "spin_step c' l m" for c' m
  proof -
    have "cpu_phase l c' \<noteq> Holding" using ne one by blast
    with st ne lk assms(2) show ?thesis
      by (elim spin_stepE) (simp_all add: spin_defs)
  qed
  with one show ?thesis by blast
qed

theorem spin_lock_excludes_witness:
  "\<exists>l :: nat spin_lock. cpu_phase l 0 = Holding \<and> cpu_phase l 1 = Spinning \<and>
     (\<forall>m. spin_step 1 l m \<longrightarrow> data m = data l \<and> locked m)"
proof -
  let ?i = "\<lambda>l. \<exists>d. l = (spin_new d :: nat spin_lock)" and ?s = "\<lambda>l m. \<exists>c. spin_step c l (m :: nat spin_lock)"
  define l1 where "l1 = at_phase 0 Locking (spin_new (7 :: nat))"
  define l2 where "l2 = lock_try 0 l1"
  define l3 where "l3 = at_phase 1 Locking l2"
  define l4 where "l4 = lock_try 1 l3"
  have more: "reachable ?i ?s m" if "reachable ?i ?s l" "spin_step c l m" for c l m
    using that by (blast intro: reachable_step)
  have "reachable ?i ?s (spin_new 7)" by (rule reachable_init) blast
  moreover have "spin_step 0 (spin_new 7) l1"
    unfolding l1_def by (rule call_lock) (simp add: spin_new_def)
  moreover have "spin_step 0 l1 l2"
    unfolding l2_def by (rule do_lock) (simp add: l1_def at_phase_def)
  moreover have "spin_step 1 l2 l3"
    unfolding l3_def by (rule call_lock) (simp add: l1_def l2_def spin_defs spin_new_def)
  moreover have "spin_step 1 l3 l4"
    unfolding l4_def by (rule do_lock) (simp add: l3_def at_phase_def)
  ultimately have r: "reachable ?i ?s l4" using more by blast
  have "cpu_phase l4 0 = Holding" "cpu_phase l4 1 = Spinning"
    by (simp_all add: l1_def l2_def l3_def l4_def spin_defs spin_new_def)
  with spin_lock_excludes [OF r, of 0] show ?thesis by auto
qed

text \<open>
  The lock is live at its own step: whenever no CPU holds the guard, the next compare-exchange of
  any CPU that is in \<open>lock\<close> or \<open>try_lock\<close> acquires it, and a spinning CPU leaves the inner loop.
\<close>

theorem spin_lock_free_acquires:
  assumes "reachable (\<lambda>l. \<exists>d. l = spin_new d) (\<lambda>l m. \<exists>c. spin_step c l m) l"
    and "\<forall>c'. cpu_phase l c' \<noteq> Holding"
  shows "(cpu_phase l c = Locking \<longrightarrow> spin_step c l (lock_try c l) \<and> cpu_phase (lock_try c l) c = Holding) \<and>
    (cpu_phase l c = Trying \<longrightarrow> spin_step c l (try_lock_try c l) \<and> cpu_phase (try_lock_try c l) c = Holding) \<and>
    (cpu_phase l c = Spinning \<longrightarrow> spin_step c l (lock_spin c l) \<and> cpu_phase (lock_spin c l) c = Locking)"
proof -
  have "exclusive l" using assms(1) by (rule spin.reachable_inv)
  with assms(2) have "\<not> locked l" by (auto simp: exclusive_def split: if_splits)
  then have "cpu_phase (lock_try c l) c = Holding" "cpu_phase (try_lock_try c l) c = Holding"
    "cpu_phase (lock_spin c l) c = Locking"
    by (simp_all add: spin_defs)
  then show ?thesis by (blast intro: do_lock do_try_lock do_spin)
qed

theorem spin_lock_free_acquires_witness:
  "cpu_phase (lock_try 2 (at_phase 2 Locking (spin_new (0 :: nat)))) 2 = Holding"
proof -
  let ?l = "at_phase 2 Locking (spin_new (0 :: nat))"
  have "spin_step 2 (spin_new 0) ?l" by (rule call_lock) (simp add: spin_new_def)
  then have "reachable (\<lambda>l. \<exists>d. l = spin_new d) (\<lambda>l m. \<exists>c. spin_step c l m) ?l"
    by (intro reachable_step [OF reachable_init]) blast+
  moreover have "\<forall>c'. cpu_phase ?l c' \<noteq> Holding" "cpu_phase ?l 2 = Locking"
    by (simp_all add: at_phase_def spin_new_def)
  ultimately show ?thesis using spin_lock_free_acquires [of ?l 2] by blast
qed

end
