(* ===== verification/Ring.thy ===== *)
theory Ring
  imports Prelude
begin

text \<open>
  Bounded queues kept in a circular array. Two components of the kernel use one, the run queue of
  the scheduler and the input buffer of the keyboard; \<open>ring_items\<close> is the abstract content of both,
  and the locale \<open>bounded_fifo\<close> is the contract their clients rely on.
\<close>

section \<open>The content of a circular array\<close>

definition ring_items :: "'a list \<Rightarrow> nat \<Rightarrow> nat \<Rightarrow> 'a list" where
  "ring_items buf head len = map (\<lambda>i. buf ! ((head + i) mod length buf)) [0..<len]"

definition ring_ok :: "'a list \<Rightarrow> nat \<Rightarrow> nat \<Rightarrow> nat \<Rightarrow> bool" where
  "ring_ok buf head tail len \<longleftrightarrow>
     0 < length buf \<and> head < length buf \<and> len \<le> length buf \<and> tail = (head + len) mod length buf"

lemma length_ring_items [simp]: "length (ring_items buf head len) = len"
  by (simp add: ring_items_def)

lemma ring_items_Nil [simp]: "ring_items buf head 0 = []"
  by (simp add: ring_items_def)

lemma ring_ok_tail: "ring_ok buf head tail len \<Longrightarrow> tail < length buf"
  by (simp add: ring_ok_def)

lemma ring_index_distinct:
  "i < n \<Longrightarrow> j < n \<Longrightarrow> i < j \<Longrightarrow> (h + i) mod n \<noteq> (h + j) mod (n :: nat)"
proof
  assume "i < n" "j < n" "i < j" and eq: "(h + i) mod n = (h + j) mod n"
  then have "n dvd (h + j) - (h + i)" by (metis mod_eq_dvd_iff_nat add_le_cancel_left less_imp_le_nat)
  then have "n dvd j - i" by simp
  with \<open>i < j\<close> \<open>j < n\<close> show False using nat_dvd_not_less [of "j - i" n] by simp
qed

lemma ring_push:
  assumes "ring_ok buf head tail len" and "len < length buf"
  shows "ring_ok (buf[tail := x]) head ((tail + 1) mod length buf) (len + 1)"
    and "ring_items (buf[tail := x]) head (len + 1) = ring_items buf head len @ [x]"
proof -
  have t: "tail = (head + len) mod length buf" "0 < length buf" using assms(1) by (auto simp: ring_ok_def)
  show "ring_ok (buf[tail := x]) head ((tail + 1) mod length buf) (len + 1)"
    using assms by (simp add: ring_ok_def mod_Suc_eq)
  have "(head + i) mod length buf \<noteq> tail" if "i < len" for i
    using ring_index_distinct [of i "length buf" len head] that assms(2) t(1) by auto
  then have "map (\<lambda>i. buf[tail := x] ! ((head + i) mod length buf)) [0..<len] =
      map (\<lambda>i. buf ! ((head + i) mod length buf)) [0..<len]"
    by (intro map_cong) (metis atLeastLessThan_iff atLeastLessThan_upt nth_list_update_neq)+
  then show "ring_items (buf[tail := x]) head (len + 1) = ring_items buf head len @ [x]"
    using t by (simp add: ring_items_def)
qed

lemma ring_pop:
  assumes "ring_ok buf head tail len" and "0 < len"
  shows "ring_ok buf ((head + 1) mod length buf) tail (len - 1)"
    and "ring_items buf head len = buf ! head # ring_items buf ((head + 1) mod length buf) (len - 1)"
proof -
  obtain m where m: "len = Suc m" using assms(2) by (cases len) auto
  have h: "head < length buf" "0 < length buf" using assms(1) by (auto simp: ring_ok_def)
  have shift: "((head + 1) mod length buf + i) mod length buf = (head + Suc i) mod length buf" for i
    by (simp add: mod_add_left_eq)
  show "ring_ok buf ((head + 1) mod length buf) tail (len - 1)"
    using assms(1) m shift [of m] h by (simp add: ring_ok_def)
  show "ring_items buf head len = buf ! head # ring_items buf ((head + 1) mod length buf) (len - 1)"
    unfolding ring_items_def m diff_Suc_1 shift upt_conv_Cons [OF zero_less_Suc] map_Suc_upt [symmetric]
    using h by simp
qed

section \<open>The contract of a bounded queue\<close>

locale bounded_fifo =
  fixes push :: "'q \<Rightarrow> 'a \<Rightarrow> 'q" and pop :: "'q \<Rightarrow> 'q \<times> 'a option"
    and items :: "'q \<Rightarrow> 'a list" and capacity :: nat and ok :: "'q \<Rightarrow> bool"
  assumes push_room: "ok q \<Longrightarrow> length (items q) < capacity \<Longrightarrow> ok (push q x) \<and> items (push q x) = items q @ [x]"
    and push_full: "ok q \<Longrightarrow> capacity \<le> length (items q) \<Longrightarrow> push q x = q"
    and pop_empty: "ok q \<Longrightarrow> items q = [] \<Longrightarrow> pop q = (q, None)"
    and pop_cons: "ok q \<Longrightarrow> items q = x # xs \<Longrightarrow> \<exists>q'. pop q = (q', Some x) \<and> ok q' \<and> items q' = xs"
    and items_bound: "ok q \<Longrightarrow> length (items q) \<le> capacity"
begin

lemma push_ok: "ok q \<Longrightarrow> ok (push q x)"
  using push_room push_full by (cases "length (items q) < capacity") auto

lemma push_all:
  "ok q \<Longrightarrow> ok (fold (\<lambda>x q. push q x) xs q) \<and>
    items (fold (\<lambda>x q. push q x) xs q) = take capacity (items q @ xs)"
proof (induction xs arbitrary: q)
  case Nil
  then show ?case using items_bound by simp
next
  case (Cons x xs)
  show ?case
  proof (cases "length (items q) < capacity")
    case True
    then show ?thesis using Cons.IH [of "push q x"] push_room [OF Cons.prems True, of x] by simp
  next
    case False
    then have "push q x = q" "length (items q) = capacity"
      using push_full [OF Cons.prems] items_bound [OF Cons.prems] by auto
    then show ?thesis using Cons by simp
  qed
qed

text \<open>Popping at most \<open>n\<close> elements, the way a client drains the queue.\<close>

fun drain :: "nat \<Rightarrow> 'q \<Rightarrow> 'q \<times> 'a list" where
  "drain 0 q = (q, [])"
| "drain (Suc n) q =
     (case pop q of
        (q', None) \<Rightarrow> (q', [])
      | (q', Some x) \<Rightarrow> (case drain n q' of (r, xs) \<Rightarrow> (r, x # xs)))"

lemma drain_items:
  "ok q \<Longrightarrow> drain n q = (r, xs) \<Longrightarrow> ok r \<and> xs = take n (items q) \<and> items r = drop n (items q)"
proof (induction n arbitrary: q r xs)
  case (Suc n)
  show ?case
  proof (cases "items q")
    case Nil
    then show ?thesis using Suc.prems pop_empty [OF Suc.prems(1) Nil] by auto
  next
    case (Cons y ys)
    then obtain q' where q': "pop q = (q', Some y)" "ok q'" "items q' = ys"
      using pop_cons [OF Suc.prems(1) Cons] by blast
    obtain r' xs' where d: "drain n q' = (r', xs')" by (cases "drain n q'")
    then show ?thesis using Suc.IH [OF q'(2) d] Suc.prems q' Cons by auto
  qed
qed auto

end

end
