(* ===== verification/Uart.thy ===== *)
theory Uart
  imports Board
begin

text \<open>
  \<open>src/drivers/mmio.rs\<close> and \<open>src/drivers/uart.rs\<close>. The hardware behind a register is not part of the
  program: a \<open>device\<close> is a parameter that says what a volatile read returns and how reads and writes
  change the hardware state. \<open>pl011\<close> states the documented behaviour of the serial port that the
  driver relies on; the driver's statics are the fields of \<open>uart_state\<close>.

  The wait for space in the transmit FIFO is unbounded on QEMU and capped on the Raspberry Pi; it is a
  partial function whose value \<open>None\<close> means that the loop does not end.
\<close>

section \<open>Definitions\<close>

record 'd device =
  dev_read :: "usize \<Rightarrow> 'd \<Rightarrow> u32 \<times> 'd"
  dev_write :: "usize \<Rightarrow> u32 \<Rightarrow> 'd \<Rightarrow> 'd"

definition read32 :: "'d device \<Rightarrow> usize \<Rightarrow> 'd \<Rightarrow> u32 \<times> 'd" where
  "read32 dev addr d = dev_read dev addr d"

definition write32 :: "'d device \<Rightarrow> usize \<Rightarrow> u32 \<Rightarrow> 'd \<Rightarrow> 'd" where
  "write32 dev addr v d = dev_write dev addr v d"

definition UART_DR :: usize where "UART_DR = 0x00"
definition UART_FR :: usize where "UART_FR = 0x18"
definition UART_IBRD :: usize where "UART_IBRD = 0x24"
definition UART_FBRD :: usize where "UART_FBRD = 0x28"
definition UART_LCRH :: usize where "UART_LCRH = 0x2C"
definition UART_CR :: usize where "UART_CR = 0x30"
definition UART_IMSC :: usize where "UART_IMSC = 0x38"
definition UART_ICR :: usize where "UART_ICR = 0x44"

definition GPFSEL1 :: usize where "GPFSEL1 = 0x04"
definition GPPUD :: usize where "GPPUD = 0x94"
definition GPPUDCLK0 :: usize where "GPPUDCLK0 = 0x98"

record uart_state =
  UART_BASE_ADDR :: usize
  UART_READY :: bool
  UART_SKIP_INIT :: bool
  UART_CLOCK_HZ :: usize
  UART_REG_SHIFT :: usize
  UART_REG_IO_WIDTH :: usize

definition uart_static :: "board \<Rightarrow> uart_state" where
  "uart_static b = \<lparr>UART_BASE_ADDR = UART_BASE b, UART_READY = False, UART_SKIP_INIT = False,
     UART_CLOCK_HZ = 0, UART_REG_SHIFT = 0, UART_REG_IO_WIDTH = 4\<rparr>"

definition set_base :: "usize \<Rightarrow> uart_state \<Rightarrow> uart_state" where
  "set_base base u = u\<lparr>UART_BASE_ADDR := base\<rparr>"

definition set_clock_hz :: "u32 option \<Rightarrow> uart_state \<Rightarrow> uart_state" where
  "set_clock_hz clock u = u\<lparr>UART_CLOCK_HZ := ucast (case clock of Some c \<Rightarrow> c | None \<Rightarrow> 0)\<rparr>"

definition set_reg_shift :: "u32 \<Rightarrow> uart_state \<Rightarrow> uart_state" where
  "set_reg_shift shift u = u\<lparr>UART_REG_SHIFT := ucast shift\<rparr>"

definition set_reg_io_width :: "u32 \<Rightarrow> uart_state \<Rightarrow> uart_state" where
  "set_reg_io_width width u = u\<lparr>UART_REG_IO_WIDTH := ucast width\<rparr>"

definition set_skip_init :: "bool \<Rightarrow> uart_state \<Rightarrow> uart_state" where
  "set_skip_init skip u = u\<lparr>UART_SKIP_INIT := skip\<rparr>"

text \<open>A release build masks a shift amount to the width of the word.\<close>

definition reg_addr :: "uart_state \<Rightarrow> usize \<Rightarrow> usize \<Rightarrow> usize" where
  "reg_addr u base offset = base + push_bit (unat (UART_REG_SHIFT u) mod 64) offset"

definition baud_divisors :: "u32 \<Rightarrow> u32 \<Rightarrow> u32 \<times> u32" where
  "baud_divisors clock_hz baud =
     (let baud = ucast baud :: u64;
          clock = ucast clock_hz :: u64
      in if baud = 0 then (0, 0)
         else let denom = 16 * baud;
                  ibrd = ucast (clock div denom) :: u32;
                  rem = clock mod denom;
                  frac = ucast ((rem * 64 + denom div 2) div denom) :: u32;
                  fbrd = (if frac > 63 then 63 else frac)
           in (ibrd, fbrd))"

definition uart_init :: "board \<Rightarrow> 'd device \<Rightarrow> uart_state \<Rightarrow> 'd \<Rightarrow> uart_state \<times> 'd" where
  "uart_init b dev u d =
     (let base = UART_BASE_ADDR u in
      if base = 0 then (u, d)
      else if UART_SKIP_INIT u
      then let (cr, d) = read32 dev (reg_addr u base UART_CR) d;
               enable = push_bit 0 1 OR push_bit 8 1 OR push_bit 9 1;
               d = write32 dev (reg_addr u base UART_CR) (cr OR enable) d
        in (u\<lparr>UART_READY := True\<rparr>, d)
      else let d = write32 dev (reg_addr u base UART_CR) 0 d;
               d = (case b of
                      Qemu \<Rightarrow>
                        let (gpfsel1, d) = read32 dev (GPIO_BASE + GPFSEL1) d;
                            gpfsel1 = gpfsel1 AND NOT (push_bit 12 7 OR push_bit 15 7);
                            gpfsel1 = gpfsel1 OR (push_bit 12 4 OR push_bit 15 4);
                            d = write32 dev (GPIO_BASE + GPFSEL1) gpfsel1 d;
                            d = write32 dev (GPIO_BASE + GPPUD) 0 d;
                            d = write32 dev (GPIO_BASE + GPPUDCLK0) (push_bit 14 1 OR push_bit 15 1) d
                        in write32 dev (GPIO_BASE + GPPUDCLK0) 0 d
                    | Rpi5 \<Rightarrow> d);
               d = write32 dev (reg_addr u base UART_ICR) 0x7FF d;
               clock_hz = ucast (UART_CLOCK_HZ u) :: u32;
               (ibrd, fbrd) = (if clock_hz \<noteq> 0 then baud_divisors clock_hz 115200 else (26, 3));
               d = write32 dev (reg_addr u base UART_IBRD) ibrd d;
               d = write32 dev (reg_addr u base UART_FBRD) fbrd d;
               d = write32 dev (reg_addr u base UART_LCRH) (push_bit 4 1 OR push_bit 5 3) d;
               d = write32 dev (reg_addr u base UART_IMSC) 0 d;
               d = write32 dev (reg_addr u base UART_CR) (push_bit 0 1 OR push_bit 8 1 OR push_bit 9 1) d
        in (u\<lparr>UART_READY := True\<rparr>, d))"

partial_function (option) tx_wait :: "board \<Rightarrow> 'd device \<Rightarrow> usize \<Rightarrow> nat \<Rightarrow> 'd \<Rightarrow> 'd option" where
  "tx_wait b dev fr spins d =
     (case read32 dev fr d of
        (v, d') \<Rightarrow>
          if v AND push_bit 5 1 \<noteq> 0
          then if b = Rpi5
               then if spins + 1 > 1000000 then Some d' else tx_wait b dev fr (spins + 1) d'
               else tx_wait b dev fr spins d'
          else Some d')"

definition uart_write_byte :: "board \<Rightarrow> 'd device \<Rightarrow> uart_state \<Rightarrow> u8 \<Rightarrow> 'd \<Rightarrow> 'd option" where
  "uart_write_byte b dev u byte d =
     (if \<not> UART_READY u then Some d
      else let base = UART_BASE_ADDR u in
        if b = Rpi5 \<and> UART_SKIP_INIT u
        then Some (write32 dev (reg_addr u base UART_DR) (ucast byte) d)
        else case tx_wait b dev (reg_addr u base UART_FR) 0 d of
               None \<Rightarrow> None
             | Some d' \<Rightarrow> Some (write32 dev (reg_addr u base UART_DR) (ucast byte) d'))"

definition read_byte_nonblocking :: "'d device \<Rightarrow> uart_state \<Rightarrow> 'd \<Rightarrow> u8 option \<times> 'd" where
  "read_byte_nonblocking dev u d =
     (if \<not> UART_READY u then (None, d)
      else let base = UART_BASE_ADDR u;
               (fr, d) = read32 dev (reg_addr u base UART_FR) d
        in if fr AND push_bit 4 1 \<noteq> 0 then (None, d)
           else let (v, d) = read32 dev (reg_addr u base UART_DR) d in (Some (ucast v), d))"

text \<open>\<open>write_str\<close> for \<open>Uart\<close>; the fallback of \<open>vfs::write\<close> has the same loop.\<close>

fun uart_write_str :: "board \<Rightarrow> 'd device \<Rightarrow> uart_state \<Rightarrow> u8 list \<Rightarrow> 'd \<Rightarrow> 'd option" where
  "uart_write_str b dev u [] d = Some d"
| "uart_write_str b dev u (c # cs) d =
     (case (if c = 10 then uart_write_byte b dev u 13 d else Some d) of
        None \<Rightarrow> None
      | Some d \<Rightarrow>
          (case uart_write_byte b dev u c d of
             None \<Rightarrow> None
           | Some d \<Rightarrow> uart_write_str b dev u cs d))"

definition with_uart :: "uart_state \<Rightarrow> ('d \<Rightarrow> 'd option) \<Rightarrow> 'd \<Rightarrow> 'd option" where
  "with_uart u f d = (if \<not> UART_READY u then Some d else f d)"

section \<open>The serial port\<close>

text \<open>
  What the driver relies on: bit 4 of the flag register is set exactly when nothing was received; a
  read of the data register then returns and removes the oldest received byte; a write to it
  appends a byte to the output; bit 5 clears after finitely many polls (\<open>busy\<close> of them).
\<close>

definition pl011 ::
  "'d device \<Rightarrow> usize \<Rightarrow> usize \<Rightarrow> ('d \<Rightarrow> u8 list) \<Rightarrow> ('d \<Rightarrow> u8 list) \<Rightarrow> ('d \<Rightarrow> nat) \<Rightarrow> bool" where
  "pl011 dev fr dr rx tx busy \<longleftrightarrow>
     (\<forall>d. let (v, d') = dev_read dev fr d in
        (v AND push_bit 4 1 \<noteq> 0) = (rx d = []) \<and> (v AND push_bit 5 1 \<noteq> 0) = (busy d > 0) \<and>
        rx d' = rx d \<and> tx d' = tx d \<and> busy d' = busy d - 1) \<and>
     (\<forall>d. rx d \<noteq> [] \<longrightarrow> (let (v, d') = dev_read dev dr d in
        v = ucast (hd (rx d)) \<and> rx d' = tl (rx d) \<and> tx d' = tx d)) \<and>
     (\<forall>d v. let d' = dev_write dev dr v d in rx d' = rx d \<and> tx d' = tx d @ [ucast v])"

definition port_of ::
  "uart_state \<Rightarrow> 'd device \<Rightarrow> ('d \<Rightarrow> u8 list) \<Rightarrow> ('d \<Rightarrow> u8 list) \<Rightarrow> ('d \<Rightarrow> nat) \<Rightarrow> bool" where
  "port_of u dev rx tx busy \<longleftrightarrow> UART_READY u \<and>
     pl011 dev (reg_addr u (UART_BASE_ADDR u) UART_FR) (reg_addr u (UART_BASE_ADDR u) UART_DR) rx tx busy"

lemma port_fr:
  assumes "port_of u dev rx tx busy" "read32 dev (reg_addr u (UART_BASE_ADDR u) UART_FR) d = (v, d')"
  shows "(v AND push_bit 4 1 \<noteq> 0) = (rx d = [])" "(v AND push_bit 5 1 \<noteq> 0) = (busy d > 0)"
    "rx d' = rx d" "tx d' = tx d" "busy d' = busy d - 1"
proof -
  let ?fr = "reg_addr u (UART_BASE_ADDR u) UART_FR"
  have "let (v, d') = dev_read dev ?fr d in
      (v AND push_bit 4 1 \<noteq> 0) = (rx d = []) \<and> (v AND push_bit 5 1 \<noteq> 0) = (busy d > 0) \<and>
      rx d' = rx d \<and> tx d' = tx d \<and> busy d' = busy d - 1"
    using assms(1) unfolding port_of_def pl011_def by blast
  then show "(v AND push_bit 4 1 \<noteq> 0) = (rx d = [])" "(v AND push_bit 5 1 \<noteq> 0) = (busy d > 0)"
    "rx d' = rx d" "tx d' = tx d" "busy d' = busy d - 1"
    using assms(2) by (simp_all add: read32_def)
qed

lemma port_dr_read:
  assumes "port_of u dev rx tx busy" "read32 dev (reg_addr u (UART_BASE_ADDR u) UART_DR) d = (v, d')" "rx d \<noteq> []"
  shows "v = ucast (hd (rx d))" "rx d' = tl (rx d)" "tx d' = tx d"
proof -
  let ?dr = "reg_addr u (UART_BASE_ADDR u) UART_DR"
  have "let (v, d') = dev_read dev ?dr d in v = ucast (hd (rx d)) \<and> rx d' = tl (rx d) \<and> tx d' = tx d"
    using assms(1,3) unfolding port_of_def pl011_def by blast
  then show "v = ucast (hd (rx d))" "rx d' = tl (rx d)" "tx d' = tx d"
    using assms(2) by (simp_all add: read32_def)
qed

lemma port_dr_write:
  assumes "port_of u dev rx tx busy"
  shows "rx (write32 dev (reg_addr u (UART_BASE_ADDR u) UART_DR) v d) = rx d"
    "tx (write32 dev (reg_addr u (UART_BASE_ADDR u) UART_DR) v d) = tx d @ [ucast v]"
  using assms unfolding port_of_def pl011_def write32_def Let_def by blast+

lemma ucast_u8_u32 [simp]: "(ucast (ucast (x :: u8) :: u32) :: u8) = x"
  by (rule bit_word_eqI) (simp add: bit_simps)

lemma tx_wait_ready:
  assumes "port_of u dev rx tx busy"
  shows "\<exists>d'. tx_wait b dev (reg_addr u (UART_BASE_ADDR u) UART_FR) spins d = Some d' \<and> rx d' = rx d \<and> tx d' = tx d"
proof (induction "busy d" arbitrary: d spins rule: less_induct)
  case less
  obtain v d1 where rd: "read32 dev (reg_addr u (UART_BASE_ADDR u) UART_FR) d = (v, d1)" by fastforce
  note fr = port_fr [OF assms rd]
  show ?case
  proof (cases "busy d > 0")
    case True
    then have "busy d1 < busy d" using fr(5) by simp
    from less [OF this, of "spins + 1"] less [OF this, of spins] True rd fr show ?thesis
      by (subst tx_wait.simps) (auto simp: rd)
  next
    case False
    with fr rd show ?thesis by (subst tx_wait.simps) simp
  qed
qed

lemma uart_write_byte_tx:
  assumes "port_of u dev rx tx busy"
  shows "\<exists>d'. uart_write_byte b dev u c d = Some d' \<and> rx d' = rx d \<and> tx d' = tx d @ [c]"
proof (cases "b = Rpi5 \<and> UART_SKIP_INIT u")
  case True
  with assms port_dr_write [OF assms] show ?thesis
    by (auto simp: uart_write_byte_def port_of_def Let_def)
next
  case False
  obtain d' where "tx_wait b dev (reg_addr u (UART_BASE_ADDR u) UART_FR) 0 d = Some d'" "rx d' = rx d" "tx d' = tx d"
    using tx_wait_ready [OF assms] by blast
  with False assms port_dr_write [OF assms] show ?thesis
    by (auto simp: uart_write_byte_def port_of_def Let_def)
qed

lemma read_byte_rx:
  assumes "port_of u dev rx tx busy"
  shows "\<exists>d'. read_byte_nonblocking dev u d = ((case rx d of [] \<Rightarrow> None | x # _ \<Rightarrow> Some x), d') \<and>
    rx d' = tl (rx d) \<and> tx d' = tx d"
proof -
  obtain v d1 where rd: "read32 dev (reg_addr u (UART_BASE_ADDR u) UART_FR) d = (v, d1)" by fastforce
  note fr = port_fr [OF assms rd]
  obtain w d2 where rd2: "read32 dev (reg_addr u (UART_BASE_ADDR u) UART_DR) d1 = (w, d2)" by fastforce
  have ready: "UART_READY u" using assms by (simp add: port_of_def)
  show ?thesis
  proof (cases "rx d")
    case Nil
    with fr rd ready show ?thesis by (simp add: read_byte_nonblocking_def)
  next
    case (Cons x xs)
    then have "rx d1 \<noteq> []" using fr by simp
    note dr = port_dr_read [OF assms rd2 this]
    with Cons fr rd rd2 ready show ?thesis by (simp add: read_byte_nonblocking_def)
  qed
qed

section \<open>Properties\<close>

text \<open>The bytes on the wire for a text: every newline is preceded by a carriage return.\<close>

definition crlf :: "u8 list \<Rightarrow> u8 list" where
  "crlf s = concat (map (\<lambda>c. if c = 10 then [13, 10] else [c]) s)"

lemma crlf_append: "crlf (s @ t) = crlf s @ crlf t"
  by (simp add: crlf_def)

lemma uart_write_str_tx:
  assumes "port_of u dev rx tx busy"
  shows "\<exists>d'. uart_write_str b dev u s d = Some d' \<and> rx d' = rx d \<and> tx d' = tx d @ crlf s"
proof (induction s arbitrary: d)
  case Nil
  then show ?case by (simp add: crlf_def)
next
  case (Cons c s)
  obtain d1 where d1: "(if c = 10 then uart_write_byte b dev u 13 d else Some d) = Some d1" "rx d1 = rx d"
    "tx d1 = tx d @ (if c = 10 then [13] else [])"
    using uart_write_byte_tx [OF assms, of b 13 d] by (cases "c = 10") auto
  obtain d2 where d2: "uart_write_byte b dev u c d1 = Some d2" "rx d2 = rx d1" "tx d2 = tx d1 @ [c]"
    using uart_write_byte_tx [OF assms] by blast
  obtain d3 where d3: "uart_write_str b dev u s d2 = Some d3" "rx d3 = rx d2" "tx d3 = tx d2 @ crlf s"
    using Cons by blast
  have "uart_write_str b dev u (c # s) d = Some d3"
    using d1(1) d2(1) d3(1) by (simp only: uart_write_str.simps option.case)
  then show ?case using d1 d2 d3 by (simp add: crlf_def)
qed

text \<open>A serial port to evaluate the driver on: received bytes, sent bytes, polls until it is ready.\<close>

definition demo_port :: "(u8 list \<times> u8 list \<times> nat) device" where
  "demo_port = \<lparr>
     dev_read = (\<lambda>a (rx, tx, n).
       if a = UART_BASE Qemu + UART_FR
       then ((if rx = [] then push_bit 4 1 else 0) OR (if n > 0 then push_bit 5 1 else 0), (rx, tx, n - 1))
       else if a = UART_BASE Qemu + UART_DR then (case rx of [] \<Rightarrow> (0, (rx, tx, n)) | c # cs \<Rightarrow> (ucast c, (cs, tx, n)))
       else (0, (rx, tx, n))),
     dev_write = (\<lambda>a v (rx, tx, n).
       if a = UART_BASE Qemu + UART_DR then (rx, tx @ [ucast v], 2) else (rx, tx, n))\<rparr>"

definition demo_uart :: uart_state where
  "demo_uart = (uart_static Qemu)\<lparr>UART_READY := True\<rparr>"

lemma demo_port_of: "port_of demo_uart demo_port fst (\<lambda>d. fst (snd d)) (\<lambda>d. snd (snd d))"
  by (auto simp: port_of_def pl011_def demo_uart_def demo_port_def uart_static_def reg_addr_def UART_FR_def UART_DR_def
      bit.conj_disj_distrib2 split: list.splits)

text \<open>
  Text written to the serial port arrives complete and in order, each newline sent as carriage
  return and newline; the call returns on both boards, because the port becomes ready after
  finitely many polls; and received bytes are not disturbed.
\<close>

theorem uart_write_str_delivers:
  assumes "port_of u dev rx tx busy"
  shows "\<exists>d'. with_uart u (uart_write_str b dev u s) d = Some d' \<and> tx d' = tx d @ crlf s \<and> rx d' = rx d"
  using uart_write_str_tx [OF assms, of b s d] assms by (auto simp: with_uart_def port_of_def)

theorem uart_write_str_delivers_witness:
  "\<exists>d'. with_uart demo_uart (uart_write_str Qemu demo_port demo_uart [104, 105, 10]) ([], [], 5) = Some d' \<and>
     fst (snd d') = [104, 105, 13, 10]"
  using uart_write_str_delivers [OF demo_port_of, of Qemu "[104, 105, 10]" "([], [], 5)"]
  by (auto simp: crlf_def)

lemma tx_wait_rpi5: "\<exists>d'. tx_wait Rpi5 dev fr spins d = Some d'"
proof (induction "1000001 - spins" arbitrary: spins d rule: less_induct)
  case less
  obtain v d1 where rd: "read32 dev fr d = (v, d1)" by fastforce
  show ?case
  proof (cases "spins + 1 > 1000000")
    case True
    then show ?thesis by (subst tx_wait.simps) (simp add: rd)
  next
    case False
    then have "1000001 - (spins + 1) < 1000001 - spins" by simp
    from less [OF this] show ?thesis by (subst tx_wait.simps) (simp add: rd)
  qed
qed

text \<open>
  On the Raspberry Pi \<open>write_byte\<close> cannot hang: whatever the hardware answers, the wait ends after
  at most 1000001 polls.
\<close>

theorem uart_write_byte_rpi5_returns: "\<exists>d'. uart_write_byte Rpi5 dev u c d = Some d'"
  using tx_wait_rpi5 [of dev "reg_addr u (UART_BASE_ADDR u) UART_FR" 0 d] by (auto simp: uart_write_byte_def Let_def)

lemma unat_u32_less: "unat (x :: u32) < 2 ^ 32"
  using unsigned_less [of x, where ?'a = nat] by simp

lemma unat_ucast_u32 [simp]: "unat (ucast (x :: u32) :: u64) = unat x"
  by (simp add: unsigned_ucast_eq take_bit_nat_eq_self_iff) (use unat_u32_less [of x] in simp)

lemma unat_ucast_u64: "unat (ucast (x :: u64) :: u32) = unat x mod 2 ^ 32"
  by (simp only: unsigned_ucast_eq take_bit_eq_mod) simp

lemma baud_divisors_nat:
  assumes "baud_divisors clock baud = (ibrd, fbrd)" and "0 < unat baud"
  defines "D \<equiv> 16 * unat baud"
  shows "unat ibrd = unat clock div D" "unat fbrd = min 63 ((unat clock mod D * 64 + 8 * unat baud) div D)"
proof -
  have c: "unat clock < 2 ^ 32" and b: "unat baud < 2 ^ 32" by (rule unat_u32_less)+
  let ?D = "16 * ucast baud :: u64"
  have D: "unat ?D = D" using b by (simp add: unat_word_ariths D_def)
  have r: "unat (ucast clock mod ?D) = unat clock mod D" by (simp add: unat_mod D)
  have rD: "unat clock mod D < D" using assms(2) by (simp add: D_def)
  have n: "unat (ucast clock mod ?D * 64 + ?D div 2) = unat clock mod D * 64 + 8 * unat baud"
    using rD b c by (simp add: unat_word_ariths(1,2) unat_div r D) (simp add: D_def)
  have F: "(unat clock mod D * 64 + 8 * unat baud) div D < 65"
    using rD by (simp add: less_mult_imp_div_less D_def)
  have b0: "(ucast baud :: u64) \<noteq> 0" using assms(2) unat_ucast_u32 [of baud] by (metis less_irrefl unsigned_0)
  have i: "ibrd = ucast (ucast clock div ?D)" and f: "fbrd = (let frac = ucast ((ucast clock mod ?D * 64 + ?D div 2) div ?D) in if frac > 63 then 63 else frac)"
    using assms(1) b0 by (simp_all add: baud_divisors_def Let_def split: if_splits)
  show "unat ibrd = unat clock div D"
    unfolding i unat_ucast_u64 unat_div D unat_ucast_u32
    using order_le_less_trans [OF div_le_dividend c] by (rule mod_less)
  have "unat (ucast ((ucast clock mod ?D * 64 + ?D div 2) div ?D) :: u32) = (unat clock mod D * 64 + 8 * unat baud) div D"
    unfolding unat_ucast_u64 unat_div D n using F by simp
  then show "unat fbrd = min 63 ((unat clock mod D * 64 + 8 * unat baud) div D)"
    unfolding f Let_def by (simp add: word_less_nat_alt min_def)
qed

text \<open>
  The divisors programmed for a clock and a baud rate are accurate to one sixty-fourth of the
  integer divisor: \<open>64 * ibrd + fbrd\<close> is within half a unit above \<open>4 * clock / baud\<close> and less than
  one unit below it, and the fraction fits its 6-bit register.
\<close>

theorem baud_divisors_accurate:
  assumes "baud_divisors clock baud = (ibrd, fbrd)" and "0 < unat baud"
  shows "unat fbrd \<le> 63 \<and> 2 * (64 * unat ibrd + unat fbrd) * unat baud \<le> 8 * unat clock + unat baud \<and>
    4 * unat clock < (64 * unat ibrd + unat fbrd + 1) * unat baud"
proof -
  define D where "D = 16 * unat baud"
  define q r F where "q = unat clock div D" and "r = unat clock mod D" and "F = (r * 64 + 8 * unat baud) div D"
  have v: "unat ibrd = q" "unat fbrd = min 63 F"
    using baud_divisors_nat [OF assms] by (simp_all add: q_def F_def r_def D_def)
  have c: "unat clock = q * D + r" unfolding q_def r_def by (simp only: div_mult_mod_eq)
  have r: "r < D" and D: "0 < D" using assms(2) by (simp_all add: r_def D_def)
  have lo: "F * D \<le> r * 64 + 8 * unat baud" unfolding F_def by (rule div_times_less_eq_dividend)
  have hi: "r * 64 + 8 * unat baud < (F + 1) * D"
    unfolding F_def using D by (metis Suc_eq_plus1 dividend_less_times_div mult.commute mult_Suc_right)
  show ?thesis
  proof (cases "F \<le> 63")
    case True
    then show ?thesis using v c lo hi by (simp add: D_def algebra_simps)
  next
    case False
    then have "64 * D \<le> F * D" by (intro mult_le_mono1) simp
    with lo have "64 * D \<le> r * 64 + 8 * unat baud" by linarith
    with False v c r show ?thesis by (simp add: D_def algebra_simps)
  qed
qed

theorem baud_divisors_accurate_witness:
  "baud_divisors 48000000 115200 = (26, 3) \<and> 4 * unat (48000000 :: u32) < (64 * 26 + 3 + 1) * unat (115200 :: u32)"
proof -
  have e: "baud_divisors 48000000 115200 = (26, 3)" by (simp add: baud_divisors_def Let_def)
  then show ?thesis using baud_divisors_accurate [OF e] by simp
qed

end
