(* ===== verification/Keyboard.thy ===== *)
theory Keyboard
  imports Ring Uart
begin

text \<open>
  \<open>src/drivers/keyboard.rs\<close>: the input buffer, a circular array of 256 bytes filled from the serial
  port. \<open>poll\<close> runs in the timer interrupt and in \<open>read\<close>; it takes the lock only if it is free, which is
  its argument \<open>free\<close>. \<open>RingBuffer\<close> implements the contract of a bounded queue.
\<close>

section \<open>Definitions\<close>

definition BUF_SIZE :: nat where
  "BUF_SIZE = 256"

record ring_buffer =
  rb_buf :: "u8 list"
  rb_head :: nat
  rb_tail :: nat
  rb_len :: nat

definition rb_new :: ring_buffer where
  "rb_new = \<lparr>rb_buf = replicate BUF_SIZE 0, rb_head = 0, rb_tail = 0, rb_len = 0\<rparr>"

definition rb_push :: "ring_buffer \<Rightarrow> u8 \<Rightarrow> ring_buffer \<times> bool" where
  "rb_push rb b =
     (if rb_len rb = BUF_SIZE then (rb, False)
      else (rb\<lparr>rb_buf := (rb_buf rb)[rb_tail rb := b], rb_tail := (rb_tail rb + 1) mod BUF_SIZE,
               rb_len := rb_len rb + 1\<rparr>, True))"

definition rb_pop :: "ring_buffer \<Rightarrow> ring_buffer \<times> u8 option" where
  "rb_pop rb =
     (if rb_len rb = 0 then (rb, None)
      else let b = rb_buf rb ! rb_head rb
        in (rb\<lparr>rb_head := (rb_head rb + 1) mod BUF_SIZE, rb_len := rb_len rb - 1\<rparr>, Some b))"

function poll_loop :: "'d device \<Rightarrow> uart_state \<Rightarrow> nat \<Rightarrow> ring_buffer \<Rightarrow> 'd \<Rightarrow> ring_buffer \<times> 'd" where
  "poll_loop dev u spins buf d =
     (case read_byte_nonblocking dev u d of
        (None, d') \<Rightarrow> (buf, d')
      | (Some b, d') \<Rightarrow>
          let byte = (if b = 13 then 10 else b);
              (buf', ok) = rb_push buf byte
          in if \<not> ok then (buf', d')
             else if spins + 1 \<ge> BUF_SIZE then (buf', d')
             else poll_loop dev u (spins + 1) buf' d')"
  by pat_completeness auto
termination
  by (relation "measure (\<lambda>(dev, u, spins, buf, d). BUF_SIZE - spins)") auto

declare poll_loop.simps [simp del]

definition poll :: "bool \<Rightarrow> 'd device \<Rightarrow> uart_state \<Rightarrow> ring_buffer \<Rightarrow> 'd \<Rightarrow> ring_buffer \<times> 'd" where
  "poll free dev u buf d = (if \<not> free then (buf, d) else poll_loop dev u 0 buf d)"

fun read_loop :: "u8 list \<Rightarrow> ring_buffer \<Rightarrow> u8 list \<Rightarrow> nat \<Rightarrow> ring_buffer \<times> u8 list \<times> nat" where
  "read_loop [] buf done n = (buf, done, n)"
| "read_loop (slot # rest) buf done n =
     (case rb_pop buf of
        (buf', Some b) \<Rightarrow> read_loop rest buf' (done @ [b]) (n + 1)
      | (buf', None) \<Rightarrow> (buf', done @ slot # rest, n))"

text \<open>\<open>read\<close> overwrites a prefix of \<open>out\<close> and returns how many bytes it stored.\<close>

definition kbd_read ::
  "bool \<Rightarrow> 'd device \<Rightarrow> uart_state \<Rightarrow> u8 list \<Rightarrow> ring_buffer \<Rightarrow> 'd \<Rightarrow> (ring_buffer \<times> u8 list \<times> nat) \<times> 'd" where
  "kbd_read free dev u out buf d =
     (let (buf', d') = poll free dev u buf d in (read_loop out buf' [] 0, d'))"

section \<open>The buffer is a bounded queue\<close>

definition rb_items :: "ring_buffer \<Rightarrow> u8 list" where
  "rb_items rb = ring_items (rb_buf rb) (rb_head rb) (rb_len rb)"

definition rb_ok :: "ring_buffer \<Rightarrow> bool" where
  "rb_ok rb \<longleftrightarrow> length (rb_buf rb) = BUF_SIZE \<and> ring_ok (rb_buf rb) (rb_head rb) (rb_tail rb) (rb_len rb)"

lemma rb_ok_new [simp]: "rb_ok rb_new" and rb_items_new [simp]: "rb_items rb_new = []"
  by (simp_all add: rb_ok_def rb_items_def rb_new_def ring_ok_def BUF_SIZE_def)

lemma length_rb_items [simp]: "length (rb_items rb) = rb_len rb"
  by (simp add: rb_items_def)

lemma rb_push_result: "snd (rb_push rb b) \<longleftrightarrow> rb_len rb \<noteq> BUF_SIZE"
  by (simp add: rb_push_def)

interpretation kbd: bounded_fifo "\<lambda>rb b. fst (rb_push rb b)" rb_pop rb_items BUF_SIZE rb_ok
proof
  fix rb b
  assume ok: "rb_ok rb" and room: "length (rb_items rb) < BUF_SIZE"
  then have r: "ring_ok (rb_buf rb) (rb_head rb) (rb_tail rb) (rb_len rb)" "rb_len rb < length (rb_buf rb)"
    "length (rb_buf rb) = BUF_SIZE" by (simp_all add: rb_ok_def)
  from ring_push [OF r(1,2), of b] r room
  show "rb_ok (fst (rb_push rb b)) \<and> rb_items (fst (rb_push rb b)) = rb_items rb @ [b]"
    by (simp add: rb_push_def rb_ok_def rb_items_def)
next
  fix rb b
  assume "rb_ok rb" "BUF_SIZE \<le> length (rb_items rb)"
  then show "fst (rb_push rb b) = rb" by (simp add: rb_push_def rb_ok_def ring_ok_def)
next
  fix rb
  assume "rb_ok rb" "rb_items rb = []"
  then have "rb_len rb = 0" by (metis length_rb_items list.size(3))
  then show "rb_pop rb = (rb, None)" by (simp add: rb_pop_def)
next
  fix rb b bs
  assume ok: "rb_ok rb" and it: "rb_items rb = b # bs"
  then have len: "0 < rb_len rb" by (metis length_rb_items list.size(4) zero_less_Suc add_Suc_right add_0_right)
  have r: "ring_ok (rb_buf rb) (rb_head rb) (rb_tail rb) (rb_len rb)" "length (rb_buf rb) = BUF_SIZE"
    using ok by (simp_all add: rb_ok_def)
  from ring_pop [OF r(1) len] r it len
  show "\<exists>rb'. rb_pop rb = (rb', Some b) \<and> rb_ok rb' \<and> rb_items rb' = bs"
    by (auto simp: rb_pop_def rb_ok_def rb_items_def Let_def)
next
  fix rb
  assume "rb_ok rb"
  then show "length (rb_items rb) \<le> BUF_SIZE" by (simp add: rb_ok_def ring_ok_def)
qed

section \<open>Polling and reading\<close>

definition cr_to_lf :: "u8 \<Rightarrow> u8" where
  "cr_to_lf b = (if b = 13 then 10 else b)"

lemma poll_loop_spec:
  assumes "port_of u dev rx tx busy" "rb_ok buf" "spins < BUF_SIZE" "spins \<le> rb_len buf"
    and "poll_loop dev u spins buf d = (buf', d')"
  shows "rb_ok buf' \<and> rb_items buf' = take BUF_SIZE (rb_items buf @ map cr_to_lf (rx d)) \<and> tx d' = tx d \<and>
    rx d' = (if rb_len buf = spins then drop (BUF_SIZE - spins) (rx d) else drop (BUF_SIZE - rb_len buf + 1) (rx d))"
  using assms
proof (induction "BUF_SIZE - spins" arbitrary: spins buf d)
  case 0
  then show ?case by simp
next
  case (Suc n)
  obtain r d1 where rb: "read_byte_nonblocking dev u d = (r, d1)" by fastforce
  from read_byte_rx [OF Suc.prems(1), of d] rb have
    r: "r = (case rx d of [] \<Rightarrow> None | x # _ \<Rightarrow> Some x)" "rx d1 = tl (rx d)" "tx d1 = tx d" by auto
  have len: "rb_len buf \<le> BUF_SIZE" using kbd.items_bound [OF Suc.prems(2)] by simp
  show ?case
  proof (cases "rx d")
    case Nil
    with r have "r = None" by simp
    with Suc.prems(5) rb have "buf' = buf" "d' = d1" by (simp_all add: poll_loop.simps [of dev u spins])
    with Nil r Suc.prems(2) len show ?thesis by simp
  next
    case (Cons x xs)
    with r have rS: "r = Some x" by simp
    show ?thesis
    proof (cases "rb_len buf = BUF_SIZE")
      case True
      then have "rb_push buf b = (buf, False)" for b by (simp add: rb_push_def)
      with Suc.prems(5) rb rS have "buf' = buf" "d' = d1" by (simp_all add: poll_loop.simps [of dev u spins])
      with Cons r True Suc.prems(2,3) show ?thesis by (simp add: drop_Suc)
    next
      case False
      then obtain b1 where b1: "rb_push buf (cr_to_lf x) = (b1, True)"
        by (metis rb_push_result prod.collapse)
      have room: "length (rb_items buf) < BUF_SIZE" using False len by simp
      from kbd.push_room [OF Suc.prems(2) room, of "cr_to_lf x"] b1
      have ok1: "rb_ok b1" and it1: "rb_items b1 = rb_items buf @ [cr_to_lf x]" by simp_all
      then have len1: "rb_len b1 = rb_len buf + 1" by (metis length_append_singleton length_rb_items Suc_eq_plus1)
      have eq: "poll_loop dev u spins buf d = (if spins + 1 \<ge> BUF_SIZE then (b1, d1) else poll_loop dev u (spins + 1) b1 d1)"
        using rb rS b1 by (simp add: poll_loop.simps [of dev u spins] cr_to_lf_def)
      show ?thesis
      proof (cases "spins + 1 \<ge> BUF_SIZE")
        case True
        with Suc.prems(3,4) len False have "spins = rb_len buf" "BUF_SIZE - spins = 1" by auto
        moreover have "buf' = b1" "d' = d1" using True eq Suc.prems(5) by simp_all
        moreover have "take BUF_SIZE (rb_items buf @ map cr_to_lf (rx d)) = rb_items buf @ [cr_to_lf x]"
          using Cons calculation(1,2) room by simp
        ultimately show ?thesis using Cons r ok1 it1 by (simp add: drop_Suc)
      next
        case False
        have "n = BUF_SIZE - (spins + 1)" using Suc.hyps(2) by simp
        from Suc.hyps(1) [OF this Suc.prems(1) ok1, of d1] False eq Suc.prems(4,5) len1
        have "rb_ok buf' \<and> rb_items buf' = take BUF_SIZE (rb_items b1 @ map cr_to_lf (rx d1)) \<and> tx d' = tx d1 \<and>
          rx d' = (if rb_len b1 = spins + 1 then drop (BUF_SIZE - (spins + 1)) (rx d1) else drop (BUF_SIZE - rb_len b1 + 1) (rx d1))"
          by simp
        moreover have "BUF_SIZE - spins = Suc (BUF_SIZE - (spins + 1))" "BUF_SIZE - rb_len buf + 1 = Suc (BUF_SIZE - rb_len b1 + 1)"
          using False len1 room by auto
        ultimately show ?thesis using Cons r it1 len1 by (simp add: drop_Suc)
      qed
    qed
  qed
qed

lemma read_loop_spec:
  assumes "rb_ok buf" "read_loop out buf acc n = (buf', out', k)"
  shows "rb_ok buf' \<and> k = n + min (length out) (rb_len buf) \<and> rb_items buf' = drop (length out) (rb_items buf) \<and>
    out' = acc @ take (length out) (rb_items buf) @ drop (rb_len buf) out"
  using assms
proof (induction out arbitrary: buf acc n)
  case (Cons s out)
  show ?case
  proof (cases "rb_items buf")
    case Nil
    then have "rb_len buf = 0" by (metis length_rb_items list.size(3))
    with Cons.prems kbd.pop_empty [OF Cons.prems(1) Nil] Nil show ?thesis by simp
  next
    case (Cons y ys)
    from kbd.pop_cons [OF \<open>rb_ok buf\<close> Cons] obtain b1 where b1: "rb_pop buf = (b1, Some y)" "rb_ok b1" "rb_items b1 = ys"
      by blast
    have len: "rb_len buf = Suc (length ys)" "rb_len b1 = length ys"
      using Cons b1(3) length_rb_items [of buf] length_rb_items [of b1] by simp_all
    from Cons.IH [OF b1(2), of "acc @ [y]" "n + 1"] Cons.prems(2) b1 Cons len show ?thesis by simp
  qed
qed simp

section \<open>Properties\<close>

text \<open>
  C34. Input is a queue: \<open>read\<close> delivers the buffered bytes followed by the bytes waiting in the serial
  port, oldest first, carriage returns turned into newlines and at most 256 of them; it fills as much of
  the caller's buffer as it has bytes for, leaves the rest of it alone, and keeps what did not fit.
\<close>

theorem kbd_read_in_order:
  assumes "port_of u dev rx tx busy" and "rb_ok buf"
    and "kbd_read True dev u out buf d = ((buf', out', n), d')"
  shows "let stream = take BUF_SIZE (rb_items buf @ map cr_to_lf (rx d)) in
    rb_ok buf' \<and> n = min (length out) (length stream) \<and>
    out' = take (length out) stream @ drop (length stream) out \<and> rb_items buf' = drop (length out) stream"
proof -
  obtain b1 d1 where p: "poll_loop dev u 0 buf d = (b1, d1)" by fastforce
  then have r: "read_loop out b1 [] 0 = (buf', out', n)"
    using assms(3) by (simp add: kbd_read_def poll_def)
  have "rb_ok b1 \<and> rb_items b1 = take BUF_SIZE (rb_items buf @ map cr_to_lf (rx d))"
    using poll_loop_spec [OF assms(1,2) _ _ p] by (simp add: BUF_SIZE_def)
  with read_loop_spec [OF _ r] length_rb_items [of b1] show ?thesis by (auto simp: Let_def)
qed

theorem kbd_read_in_order_witness:
  "\<exists>buf' d'. kbd_read True demo_port demo_uart [0, 0, 0] rb_new ([65, 13], [], 0) = ((buf', [65, 10, 0], 2), d')"
proof -
  obtain buf' out' n d' where r: "kbd_read True demo_port demo_uart [0, 0, 0] rb_new ([65, 13], [], 0) = ((buf', out', n), d')"
    by (metis prod.collapse)
  from kbd_read_in_order [OF demo_port_of rb_ok_new r] have "n = 2 \<and> out' = [65, 10, 0]"
    by (simp add: BUF_SIZE_def cr_to_lf_def)
  with r show ?thesis by blast
qed

text \<open>
  A full buffer loses input: \<open>poll\<close> takes a byte out of the serial port before it asks the buffer
  for room, so with 256 bytes buffered each poll removes one received byte and stores none.
\<close>

theorem full_buffer_drops_byte:
  assumes "port_of u dev rx tx busy" and "rb_ok buf" and "rb_len buf = BUF_SIZE"
    and "poll True dev u buf d = (buf', d')"
  shows "rb_items buf' = rb_items buf \<and> rx d' = tl (rx d)"
  using poll_loop_spec [OF assms(1,2), of 0 d buf' d'] assms(3,4)
  by (auto simp: poll_def BUF_SIZE_def drop_Suc)

definition full_buffer :: ring_buffer where
  "full_buffer = rb_new\<lparr>rb_len := 256\<rparr>"

theorem full_buffer_drops_byte_witness:
  "\<exists>buf' d'. poll True demo_port demo_uart full_buffer ([66, 67], [], 0) = (buf', d') \<and> fst d' = [67] \<and>
     rb_items buf' = rb_items full_buffer"
proof -
  have ok: "rb_ok full_buffer" and len: "rb_len full_buffer = BUF_SIZE"
    by (simp_all add: full_buffer_def rb_ok_def rb_new_def ring_ok_def BUF_SIZE_def)
  obtain buf' d' where "poll True demo_port demo_uart full_buffer ([66, 67], [], 0) = (buf', d')" by (metis surj_pair)
  with full_buffer_drops_byte [OF demo_port_of ok len this] show ?thesis by simp
qed

end
