(* ===== verification/Font.thy ===== *)
theory Font
  imports Prelude
begin

text \<open>\<open>src/gfx/font.rs\<close>: the 8x8 bitmap font, one byte per glyph row, and the glyph of a byte.\<close>

definition FONT_WIDTH :: nat where
  "FONT_WIDTH = 8"

definition FONT_HEIGHT :: nat where
  "FONT_HEIGHT = 16"

definition FONT :: "u8 list list" where
  "FONT = [
    [0x00, 0x00, 0x00, 0x00, 0x00, 0x00, 0x00, 0x00],
    [0x00, 0x00, 0x00, 0x00, 0x00, 0x00, 0x00, 0x00],
    [0x00, 0x00, 0x00, 0x00, 0x00, 0x00, 0x00, 0x00],
    [0x00, 0x00, 0x00, 0x00, 0x00, 0x00, 0x00, 0x00],
    [0x00, 0x00, 0x00, 0x00, 0x00, 0x00, 0x00, 0x00],
    [0x00, 0x00, 0x00, 0x00, 0x00, 0x00, 0x00, 0x00],
    [0x00, 0x00, 0x00, 0x00, 0x00, 0x00, 0x00, 0x00],
    [0x00, 0x00, 0x00, 0x00, 0x00, 0x00, 0x00, 0x00],
    [0x00, 0x00, 0x00, 0x00, 0x00, 0x00, 0x00, 0x00],
    [0x00, 0x00, 0x00, 0x00, 0x00, 0x00, 0x00, 0x00],
    [0x00, 0x00, 0x00, 0x00, 0x00, 0x00, 0x00, 0x00],
    [0x00, 0x00, 0x00, 0x00, 0x00, 0x00, 0x00, 0x00],
    [0x00, 0x00, 0x00, 0x00, 0x00, 0x00, 0x00, 0x00],
    [0x00, 0x00, 0x00, 0x00, 0x00, 0x00, 0x00, 0x00],
    [0x00, 0x00, 0x00, 0x00, 0x00, 0x00, 0x00, 0x00],
    [0x00, 0x00, 0x00, 0x00, 0x00, 0x00, 0x00, 0x00],
    [0x00, 0x00, 0x00, 0x00, 0x00, 0x00, 0x00, 0x00],
    [0x00, 0x00, 0x00, 0x00, 0x00, 0x00, 0x00, 0x00],
    [0x00, 0x00, 0x00, 0x00, 0x00, 0x00, 0x00, 0x00],
    [0x00, 0x00, 0x00, 0x00, 0x00, 0x00, 0x00, 0x00],
    [0x00, 0x00, 0x00, 0x00, 0x00, 0x00, 0x00, 0x00],
    [0x00, 0x00, 0x00, 0x00, 0x00, 0x00, 0x00, 0x00],
    [0x00, 0x00, 0x00, 0x00, 0x00, 0x00, 0x00, 0x00],
    [0x00, 0x00, 0x00, 0x00, 0x00, 0x00, 0x00, 0x00],
    [0x00, 0x00, 0x00, 0x00, 0x00, 0x00, 0x00, 0x00],
    [0x00, 0x00, 0x00, 0x00, 0x00, 0x00, 0x00, 0x00],
    [0x00, 0x00, 0x00, 0x00, 0x00, 0x00, 0x00, 0x00],
    [0x00, 0x00, 0x00, 0x00, 0x00, 0x00, 0x00, 0x00],
    [0x00, 0x00, 0x00, 0x00, 0x00, 0x00, 0x00, 0x00],
    [0x00, 0x00, 0x00, 0x00, 0x00, 0x00, 0x00, 0x00],
    [0x00, 0x00, 0x00, 0x00, 0x00, 0x00, 0x00, 0x00],
    [0x00, 0x00, 0x00, 0x00, 0x00, 0x00, 0x00, 0x00],
    [0x00, 0x00, 0x00, 0x00, 0x00, 0x00, 0x00, 0x00],
    [0x00, 0x10, 0x10, 0x10, 0x10, 0x00, 0x10, 0x00],
    [0x00, 0x28, 0x28, 0x00, 0x00, 0x00, 0x00, 0x00],
    [0x00, 0x18, 0x3C, 0x28, 0x30, 0x78, 0x50, 0x00],
    [0x00, 0x10, 0x7C, 0x50, 0x38, 0x14, 0x7C, 0x10],
    [0x00, 0x70, 0x50, 0x74, 0x3C, 0x14, 0x1C, 0x00],
    [0x00, 0x1C, 0x10, 0x18, 0x2C, 0x28, 0x1C, 0x00],
    [0x00, 0x10, 0x10, 0x00, 0x00, 0x00, 0x00, 0x00],
    [0x00, 0x10, 0x20, 0x20, 0x20, 0x20, 0x20, 0x10],
    [0x00, 0x20, 0x20, 0x10, 0x10, 0x10, 0x20, 0x20],
    [0x00, 0x00, 0x10, 0x54, 0x38, 0x7C, 0x10, 0x00],
    [0x00, 0x00, 0x10, 0x10, 0x7C, 0x10, 0x10, 0x00],
    [0x00, 0x00, 0x00, 0x00, 0x00, 0x00, 0x10, 0x10],
    [0x00, 0x00, 0x00, 0x00, 0x7C, 0x00, 0x00, 0x00],
    [0x00, 0x00, 0x00, 0x00, 0x00, 0x10, 0x10, 0x00],
    [0x00, 0x08, 0x10, 0x10, 0x30, 0x20, 0x20, 0x40],
    [0x00, 0x10, 0x28, 0x28, 0x38, 0x28, 0x10, 0x00],
    [0x00, 0x30, 0x10, 0x10, 0x10, 0x10, 0x38, 0x00],
    [0x00, 0x38, 0x04, 0x04, 0x08, 0x10, 0x3C, 0x00],
    [0x00, 0x38, 0x04, 0x04, 0x18, 0x04, 0x3C, 0x00],
    [0x00, 0x08, 0x18, 0x18, 0x28, 0x3C, 0x08, 0x00],
    [0x00, 0x3C, 0x20, 0x38, 0x04, 0x04, 0x38, 0x00],
    [0x00, 0x1C, 0x30, 0x20, 0x3C, 0x24, 0x1C, 0x00],
    [0x00, 0x3C, 0x04, 0x08, 0x08, 0x08, 0x10, 0x00],
    [0x00, 0x18, 0x24, 0x24, 0x18, 0x24, 0x3C, 0x00],
    [0x00, 0x38, 0x24, 0x3C, 0x04, 0x0C, 0x38, 0x00],
    [0x00, 0x00, 0x00, 0x10, 0x00, 0x00, 0x10, 0x00],
    [0x00, 0x00, 0x00, 0x10, 0x00, 0x10, 0x10, 0x10],
    [0x00, 0x00, 0x00, 0x04, 0x38, 0x30, 0x0C, 0x00],
    [0x00, 0x00, 0x00, 0x78, 0x00, 0x78, 0x00, 0x00],
    [0x00, 0x00, 0x00, 0x20, 0x1C, 0x0C, 0x30, 0x00],
    [0x00, 0x38, 0x18, 0x10, 0x10, 0x00, 0x10, 0x00],
    [0x00, 0x38, 0x24, 0x5C, 0x64, 0x64, 0x5C, 0x38],
    [0x00, 0x18, 0x18, 0x28, 0x24, 0x3C, 0x24, 0x00],
    [0x00, 0x38, 0x28, 0x30, 0x28, 0x28, 0x38, 0x00],
    [0x00, 0x1C, 0x20, 0x20, 0x20, 0x20, 0x1C, 0x00],
    [0x00, 0x38, 0x24, 0x24, 0x24, 0x24, 0x38, 0x00],
    [0x00, 0x3C, 0x20, 0x3C, 0x20, 0x20, 0x3C, 0x00],
    [0x00, 0x3C, 0x20, 0x38, 0x20, 0x20, 0x20, 0x00],
    [0x00, 0x1C, 0x20, 0x20, 0x2C, 0x24, 0x1C, 0x00],
    [0x00, 0x28, 0x28, 0x38, 0x28, 0x28, 0x28, 0x00],
    [0x00, 0x38, 0x10, 0x10, 0x10, 0x10, 0x38, 0x00],
    [0x00, 0x18, 0x08, 0x08, 0x08, 0x08, 0x38, 0x00],
    [0x00, 0x28, 0x28, 0x30, 0x30, 0x28, 0x28, 0x00],
    [0x00, 0x20, 0x20, 0x20, 0x20, 0x20, 0x3C, 0x00],
    [0x00, 0x48, 0x48, 0x78, 0x48, 0x48, 0x48, 0x00],
    [0x00, 0x48, 0x68, 0x68, 0x68, 0x58, 0x48, 0x00],
    [0x00, 0x18, 0x24, 0x24, 0x24, 0x24, 0x18, 0x00],
    [0x00, 0x3C, 0x24, 0x3C, 0x20, 0x20, 0x20, 0x00],
    [0x00, 0x18, 0x24, 0x24, 0x24, 0x24, 0x18, 0x04],
    [0x00, 0x3C, 0x24, 0x38, 0x2C, 0x24, 0x22, 0x00],
    [0x00, 0x1C, 0x20, 0x38, 0x0C, 0x04, 0x3C, 0x00],
    [0x00, 0x7C, 0x10, 0x10, 0x10, 0x10, 0x10, 0x00],
    [0x00, 0x24, 0x24, 0x24, 0x24, 0x24, 0x18, 0x00],
    [0x00, 0x24, 0x24, 0x18, 0x18, 0x18, 0x18, 0x00],
    [0x00, 0x44, 0x44, 0x54, 0x28, 0x28, 0x28, 0x00],
    [0x00, 0x24, 0x1C, 0x18, 0x18, 0x24, 0x24, 0x00],
    [0x00, 0x44, 0x28, 0x10, 0x10, 0x10, 0x10, 0x00],
    [0x00, 0x3C, 0x08, 0x08, 0x10, 0x10, 0x3C, 0x00],
    [0x18, 0x10, 0x10, 0x10, 0x10, 0x10, 0x10, 0x18],
    [0x00, 0x40, 0x20, 0x20, 0x30, 0x10, 0x10, 0x08],
    [0x30, 0x10, 0x10, 0x10, 0x10, 0x10, 0x10, 0x30],
    [0x00, 0x10, 0x38, 0x48, 0x00, 0x00, 0x00, 0x00],
    [0x00, 0x00, 0x00, 0x00, 0x00, 0x00, 0x00, 0x00],
    [0x00, 0x20, 0x00, 0x00, 0x00, 0x00, 0x00, 0x00],
    [0x00, 0x00, 0x00, 0x3C, 0x3C, 0x24, 0x3C, 0x00],
    [0x20, 0x20, 0x20, 0x38, 0x24, 0x24, 0x38, 0x00],
    [0x00, 0x00, 0x00, 0x18, 0x20, 0x20, 0x18, 0x00],
    [0x04, 0x04, 0x04, 0x1C, 0x24, 0x24, 0x1C, 0x00],
    [0x00, 0x00, 0x30, 0x48, 0x78, 0x40, 0x38, 0x00],
    [0x0C, 0x10, 0x10, 0x3C, 0x10, 0x10, 0x10, 0x00],
    [0x00, 0x00, 0x00, 0x1C, 0x24, 0x24, 0x1C, 0x04],
    [0x20, 0x20, 0x20, 0x3C, 0x24, 0x24, 0x24, 0x00],
    [0x00, 0x10, 0x30, 0x10, 0x10, 0x10, 0x38, 0x00],
    [0x10, 0x00, 0x00, 0x30, 0x10, 0x10, 0x10, 0x10],
    [0x20, 0x20, 0x20, 0x24, 0x38, 0x38, 0x2C, 0x00],
    [0x00, 0x30, 0x10, 0x10, 0x10, 0x10, 0x1C, 0x00],
    [0x00, 0x00, 0x00, 0x3E, 0x2A, 0x2A, 0x2A, 0x00],
    [0x00, 0x00, 0x00, 0x3C, 0x24, 0x24, 0x24, 0x00],
    [0x00, 0x00, 0x00, 0x18, 0x24, 0x24, 0x18, 0x00],
    [0x00, 0x00, 0x00, 0x38, 0x24, 0x24, 0x38, 0x20],
    [0x00, 0x00, 0x00, 0x1C, 0x24, 0x24, 0x1C, 0x04],
    [0x00, 0x00, 0x00, 0x38, 0x20, 0x20, 0x20, 0x00],
    [0x00, 0x00, 0x00, 0x3C, 0x38, 0x04, 0x3C, 0x00],
    [0x00, 0x00, 0x10, 0x3C, 0x10, 0x10, 0x1C, 0x00],
    [0x00, 0x00, 0x00, 0x24, 0x24, 0x24, 0x3C, 0x00],
    [0x00, 0x00, 0x00, 0x24, 0x18, 0x18, 0x18, 0x00],
    [0x00, 0x00, 0x00, 0x44, 0x74, 0x28, 0x28, 0x00],
    [0x00, 0x00, 0x00, 0x3C, 0x18, 0x18, 0x3C, 0x00],
    [0x00, 0x00, 0x00, 0x24, 0x18, 0x18, 0x10, 0x10],
    [0x00, 0x00, 0x00, 0x3C, 0x18, 0x10, 0x3C, 0x00],
    [0x18, 0x10, 0x10, 0x10, 0x20, 0x10, 0x10, 0x18],
    [0x00, 0x10, 0x10, 0x10, 0x10, 0x10, 0x10, 0x10],
    [0x30, 0x10, 0x10, 0x10, 0x08, 0x10, 0x10, 0x30],
    [0x00, 0x00, 0x00, 0x20, 0x54, 0x08, 0x00, 0x00],
    [0x00, 0x00, 0x00, 0x00, 0x00, 0x00, 0x00, 0x00]]"

definition glyph :: "u8 \<Rightarrow> u8 list" where
  "glyph c = (if c < 128 then FONT ! unat c else FONT ! 63)"

lemma length_FONT: "length FONT = 128"
  unfolding FONT_def by simp

lemma FONT_rows: "\<forall>g\<in>set FONT. length g = 8"
  unfolding FONT_def by simp

lemma length_glyph [simp]: "length (glyph c) = 8"
proof -
  have "unat c < 128" if "c < 128" using that by (simp add: word_less_nat_alt)
  then show ?thesis using FONT_rows length_FONT by (auto simp: glyph_def)
qed

end
