(* ===== verification/Console.thy ===== *)
theory Console
  imports Font Layout
begin

text \<open>
  The text console of \<open>src/drivers/framebuffer.rs\<close>: pixels are 32-bit words written into a byte-addressed
  memory, glyphs are drawn at double height, and the screen scrolls by one text row when the cursor
  passes the last one. Reading back is never done, so the memory is threaded through every drawing
  operation.
\<close>

section \<open>Definitions\<close>

text \<open>\<open>write_volatile\<close> of a \<open>u32\<close>, least significant byte first.\<close>

definition poke32 :: "memory \<Rightarrow> usize \<Rightarrow> u32 \<Rightarrow> memory" where
  "poke32 m a v = m(a := ucast v, a + 1 := ucast (drop_bit 8 v), a + 2 := ucast (drop_bit 16 v),
     a + 3 := ucast (drop_bit 24 v))"

record framebuffer =
  fb_ptr :: usize
  fb_width :: u32
  fb_height :: u32
  fb_pitch :: u32

definition put_pixel :: "framebuffer \<Rightarrow> u32 \<Rightarrow> u32 \<Rightarrow> u32 \<Rightarrow> memory \<Rightarrow> memory" where
  "put_pixel fb x y color m =
     (let offset = (y * fb_pitch fb) + (x * 4) in poke32 m (fb_ptr fb + ucast offset) color)"

definition clear_fb :: "framebuffer \<Rightarrow> u32 \<Rightarrow> memory \<Rightarrow> memory" where
  "clear_fb fb color m =
     fold (\<lambda>y. fold (\<lambda>x. put_pixel fb (of_nat x) (of_nat y) color) [0..<unat (fb_width fb)])
       [0..<unat (fb_height fb)] m"

text \<open>\<open>core::ptr::copy\<close>: the source is read before the destination is written.\<close>

definition copy_bytes :: "usize \<Rightarrow> usize \<Rightarrow> nat \<Rightarrow> memory \<Rightarrow> memory" where
  "copy_bytes src dst n m = (\<lambda>a. if unat (a - dst) < n then m (src + (a - dst)) else m a)"

definition scroll_rows :: "framebuffer \<Rightarrow> nat \<Rightarrow> u32 \<Rightarrow> memory \<Rightarrow> memory" where
  "scroll_rows fb rows bg m =
     (if rows = 0 then m
      else let height = unat (fb_height fb) in
        if rows \<ge> height then clear_fb fb bg m
        else let bytes_per_row = unat (fb_pitch fb);
                 src = fb_ptr fb + of_nat (rows * bytes_per_row);
                 dst = fb_ptr fb;
                 m = copy_bytes src dst ((height - rows) * bytes_per_row) m;
                 start = height - rows
          in fold (\<lambda>y. fold (\<lambda>x m. poke32 m (fb_ptr fb + of_nat (y * bytes_per_row) + of_nat (x * 4)) bg)
               [0..<unat (fb_width fb)]) [start..<height] m)"

definition draw_char :: "framebuffer \<Rightarrow> nat \<Rightarrow> nat \<Rightarrow> u8 \<Rightarrow> u32 \<Rightarrow> u32 \<Rightarrow> memory \<Rightarrow> memory" where
  "draw_char fb x y c fg bg m =
     fold (\<lambda>row. let bits = glyph c ! row; y0 = y + row * 2 in
       fold (\<lambda>dy. let py = y0 + dy in
         if py \<ge> unat (fb_height fb) then id
         else fold (\<lambda>col. let px = x + col in
           if px \<ge> unat (fb_width fb) then id
           else let on = (drop_bit (7 - col) bits AND 1 \<noteq> 0)
             in put_pixel fb (of_nat px) (of_nat py) (if on then fg else bg)) [0..<8]) [0..<2])
       [0..<length (glyph c)] m"

fun fb_write_str :: "framebuffer \<Rightarrow> nat \<Rightarrow> nat \<Rightarrow> u8 list \<Rightarrow> u32 \<Rightarrow> u32 \<Rightarrow> memory \<Rightarrow> memory" where
  "fb_write_str fb x y [] fg bg m = m"
| "fb_write_str fb x y (b # s) fg bg m =
     (if b = 10 then fb_write_str fb 0 (y + FONT_HEIGHT) s fg bg m
      else fb_write_str fb (x + FONT_WIDTH) y s fg bg (draw_char fb x y b fg bg m))"

record console =
  con_fb :: framebuffer
  con_col :: nat
  con_row :: nat
  con_cols :: nat
  con_rows :: nat
  con_fg :: u32
  con_bg :: u32

definition console_new :: "framebuffer \<Rightarrow> u32 \<Rightarrow> u32 \<Rightarrow> console" where
  "console_new fb fg bg =
     (let cols = unat (fb_width fb) div FONT_WIDTH;
          rows = unat (fb_height fb) div FONT_HEIGHT
      in \<lparr>con_fb = fb, con_col = 0, con_row = 0, con_cols = max cols 1, con_rows = max rows 1,
          con_fg = fg, con_bg = bg\<rparr>)"

definition newline :: "console \<Rightarrow> memory \<Rightarrow> console \<times> memory" where
  "newline c m =
     (let c = c\<lparr>con_col := 0, con_row := con_row c + 1\<rparr> in
      if con_row c \<ge> con_rows c
      then (c\<lparr>con_row := con_rows c - 1\<rparr>, scroll_rows (con_fb c) FONT_HEIGHT (con_bg c) m)
      else (c, m))"

definition put_char :: "console \<Rightarrow> u8 \<Rightarrow> memory \<Rightarrow> console \<times> memory" where
  "put_char c b m =
     (if b = 10 then newline c m
      else let x = con_col c * FONT_WIDTH;
               y = con_row c * FONT_HEIGHT;
               m = draw_char (con_fb c) x y b (con_fg c) (con_bg c) m;
               c = c\<lparr>con_col := con_col c + 1\<rparr>
        in if con_col c \<ge> con_cols c then newline c m else (c, m))"

definition con_write_byte :: "console \<Rightarrow> u8 \<Rightarrow> memory \<Rightarrow> console \<times> memory" where
  "con_write_byte c b m = put_char c b m"

fun con_write_str :: "u8 list \<Rightarrow> console \<Rightarrow> memory \<Rightarrow> console \<times> memory" where
  "con_write_str [] c m = (c, m)"
| "con_write_str (b # s) c m = (case put_char c b m of (c', m') \<Rightarrow> con_write_str s c' m')"

text \<open>\<open>with_console\<close> and \<open>try_with_console\<close>; \<open>free\<close> is the outcome of \<open>try_lock\<close>.\<close>

definition with_console ::
  "(console \<Rightarrow> memory \<Rightarrow> console \<times> memory) \<Rightarrow> console option \<times> memory \<Rightarrow> (console option \<times> memory) \<times> bool" where
  "with_console f st =
     (case st of
        (Some c, m) \<Rightarrow> (case f c m of (c', m') \<Rightarrow> ((Some c', m'), True))
      | (None, m) \<Rightarrow> ((None, m), False))"

definition try_with_console ::
  "bool \<Rightarrow> (console \<Rightarrow> memory \<Rightarrow> console \<times> memory) \<Rightarrow> console option \<times> memory \<Rightarrow> (console option \<times> memory) \<times> bool" where
  "try_with_console free f st = (if \<not> free then (st, False) else with_console f st)"

section \<open>Drawing stays inside the framebuffer\<close>

definition fb_ok :: "framebuffer \<Rightarrow> bool" where
  "fb_ok fb \<longleftrightarrow> 4 * unat (fb_width fb) \<le> unat (fb_pitch fb) \<and> unat (fb_height fb) * unat (fb_pitch fb) < 2 ^ 32"

definition fb_bytes :: "framebuffer \<Rightarrow> usize set" where
  "fb_bytes fb = {a. unat (a - fb_ptr fb) < unat (fb_height fb) * unat (fb_pitch fb)}"

definition confined :: "framebuffer \<Rightarrow> memory \<Rightarrow> memory \<Rightarrow> bool" where
  "confined fb m m' \<longleftrightarrow> (\<forall>a. a \<notin> fb_bytes fb \<longrightarrow> m' a = m a)"

lemma confined_refl [simp]: "confined fb m m"
  by (simp add: confined_def)

lemma confined_trans: "confined fb m m' \<Longrightarrow> confined fb m' m'' \<Longrightarrow> confined fb m m''"
  by (simp add: confined_def)

lemma confined_fold:
  "(\<And>x m. x \<in> set xs \<Longrightarrow> confined fb m (f x m)) \<Longrightarrow> confined fb m (fold f xs m)"
proof (induction xs arbitrary: m)
  case (Cons x xs)
  have "confined fb (f x m) (fold f xs (f x m))" using Cons by simp
  moreover have "confined fb m (f x m)" using Cons.prems by simp
  ultimately show ?case using confined_trans by simp
qed simp

lemma confined_poke:
  assumes "off + 4 \<le> unat (fb_height fb) * unat (fb_pitch fb)" "off + 4 < 2 ^ 64"
  shows "confined fb m (poke32 m (fb_ptr fb + of_nat off) v)"
proof -
  have "fb_ptr fb + of_nat off + k \<in> fb_bytes fb" if "unat k < 4" for k
  proof -
    have "unat (of_nat off + k :: u64) = off + unat k"
      using that assms(2) by (simp add: unat_word_ariths(1) unat_of_nat)
    moreover have "fb_ptr fb + of_nat off + k - fb_ptr fb = of_nat off + k" by simp
    ultimately show ?thesis using that assms(1) by (simp add: fb_bytes_def del: of_nat_add)
  qed
  from this [of 0] this [of 1] this [of 2] this [of 3] show ?thesis
    by (auto simp: confined_def poke32_def)
qed

lemma fb_area: "fb_ok fb \<Longrightarrow> unat (fb_height fb) * unat (fb_pitch fb) < 2 ^ 64"
  by (simp add: fb_ok_def)

lemma pixel_offset:
  assumes "fb_ok fb" "x < unat (fb_width fb)" "y < unat (fb_height fb)"
  shows "y * unat (fb_pitch fb) + x * 4 + 4 \<le> unat (fb_height fb) * unat (fb_pitch fb)"
proof -
  have "(y + 1) * unat (fb_pitch fb) \<le> unat (fb_height fb) * unat (fb_pitch fb)"
    using assms(3) by (intro mult_le_mono1) simp
  moreover have "x * 4 + 4 \<le> unat (fb_pitch fb)" using assms(1,2) by (simp add: fb_ok_def)
  ultimately show ?thesis by (simp add: algebra_simps)
qed

lemma ucast_of_nat_u32: "n < 2 ^ 32 \<Longrightarrow> (ucast (of_nat n :: u32) :: u64) = of_nat n"
  by (simp add: word_unat_eq_iff unat_of_nat unsigned_ucast_eq take_bit_nat_eq_self_iff)

lemma put_pixel_eq:
  assumes "fb_ok fb" "x < unat (fb_width fb)" "y < unat (fb_height fb)"
  shows "put_pixel fb (of_nat x) (of_nat y) v m = poke32 m (fb_ptr fb + of_nat (y * unat (fb_pitch fb) + x * 4)) v"
proof -
  have lt: "y * unat (fb_pitch fb) + x * 4 < 2 ^ 32"
    using pixel_offset [OF assms] assms(1) unfolding fb_ok_def by linarith
  have "of_nat y * fb_pitch fb + of_nat x * 4 = (of_nat (y * unat (fb_pitch fb) + x * 4) :: u32)" by simp
  then show ?thesis unfolding put_pixel_def Let_def using ucast_of_nat_u32 [OF lt] by metis
qed

lemma put_pixel_confined:
  assumes "fb_ok fb" "x < unat (fb_width fb)" "y < unat (fb_height fb)"
  shows "confined fb m (put_pixel fb (of_nat x) (of_nat y) v m)"
  unfolding put_pixel_eq [OF assms]
proof (rule confined_poke)
  show "y * unat (fb_pitch fb) + x * 4 + 4 \<le> unat (fb_height fb) * unat (fb_pitch fb)"
    by (rule pixel_offset [OF assms])
  then show "y * unat (fb_pitch fb) + x * 4 + 4 < 2 ^ 64" using fb_area [OF assms(1)] by linarith
qed

lemma clear_confined: "fb_ok fb \<Longrightarrow> confined fb m (clear_fb fb v m)"
  unfolding clear_fb_def by (intro confined_fold) (auto intro!: put_pixel_confined)

lemma draw_char_confined: "fb_ok fb \<Longrightarrow> confined fb m (draw_char fb x y c fg bg m)"
  unfolding draw_char_def Let_def
  by (intro confined_fold) (auto intro!: confined_fold put_pixel_confined simp del: of_nat_add of_nat_mult)

lemma scroll_confined:
  assumes "fb_ok fb"
  shows "confined fb m (scroll_rows fb rows bg m)"
proof (cases "rows = 0 \<or> rows \<ge> unat (fb_height fb)")
  case True
  then show ?thesis using clear_confined [OF assms] by (auto simp: scroll_rows_def Let_def)
next
  case False
  let ?P = "unat (fb_pitch fb)" and ?H = "unat (fb_height fb)"
  let ?c = "copy_bytes (fb_ptr fb + of_nat (rows * ?P)) (fb_ptr fb) ((?H - rows) * ?P) m"
  have le: "(?H - rows) * ?P \<le> ?H * ?P" by (intro mult_le_mono1) simp
  have "a \<in> fb_bytes fb" if "unat (a - fb_ptr fb) < (?H - rows) * ?P" for a
    unfolding fb_bytes_def mem_Collect_eq using that le by (rule less_le_trans)
  then have copy: "confined fb m ?c" by (auto simp: confined_def copy_bytes_def)
  have poke: "confined fb m' (poke32 m' (fb_ptr fb + of_nat (y * ?P) + of_nat (x * 4)) bg)"
    if "y < ?H" "x < unat (fb_width fb)" for m' x y
  proof -
    have "y * ?P + x * 4 + 4 \<le> ?H * ?P" using pixel_offset [OF assms that(2,1)] .
    moreover from this have "y * ?P + x * 4 + 4 < 2 ^ 64" using fb_area [OF assms] by linarith
    ultimately have "confined fb m' (poke32 m' (fb_ptr fb + of_nat (y * ?P + x * 4)) bg)" by (rule confined_poke)
    then show ?thesis by (simp add: add.assoc)
  qed
  have "confined fb ?c (scroll_rows fb rows bg m)"
    using False unfolding scroll_rows_def Let_def
    by (simp del: of_nat_mult) (intro confined_fold, auto intro!: poke simp del: of_nat_mult)
  with copy show ?thesis by (rule confined_trans)
qed

section \<open>Properties\<close>

definition console_ok :: "console \<Rightarrow> bool" where
  "console_ok c \<longleftrightarrow> fb_ok (con_fb c) \<and> con_col c < con_cols c \<and> con_row c < con_rows c"

lemma console_new_ok: "fb_ok fb \<Longrightarrow> console_ok (console_new fb fg bg)"
  by (auto simp: console_ok_def console_new_def Let_def less_max_iff_disj)

lemma newline_ok:
  assumes "fb_ok (con_fb c)" "con_row c < con_rows c" "0 < con_cols c" "newline c m = (c', m')"
  shows "console_ok c' \<and> con_fb c' = con_fb c \<and> con_cols c' = con_cols c \<and> confined (con_fb c) m m'"
  using assms scroll_confined [OF assms(1)] by (auto simp: newline_def console_ok_def Let_def split: if_splits)

lemma put_char_ok:
  assumes "console_ok c" "put_char c b m = (c', m')"
  shows "console_ok c' \<and> con_fb c' = con_fb c \<and> confined (con_fb c) m m'"
proof (cases "b = 10")
  case True
  with assms newline_ok [of c m c' m'] show ?thesis by (auto simp: put_char_def console_ok_def)
next
  case False
  let ?d = "draw_char (con_fb c) (con_col c * FONT_WIDTH) (con_row c * FONT_HEIGHT) b (con_fg c) (con_bg c) m"
  let ?c = "c\<lparr>con_col := con_col c + 1\<rparr>"
  have d: "confined (con_fb c) m ?d" using assms(1) by (simp add: console_ok_def draw_char_confined)
  show ?thesis
  proof (cases "con_col c + 1 \<ge> con_cols c")
    case True
    with assms(2) \<open>b \<noteq> 10\<close> have nl: "newline ?c ?d = (c', m')" by (simp add: put_char_def Let_def)
    with newline_ok [of ?c ?d c' m'] assms(1) d show ?thesis
      by (auto simp: console_ok_def intro: confined_trans)
  next
    case False
    with assms \<open>b \<noteq> 10\<close> d show ?thesis by (auto simp: put_char_def Let_def console_ok_def)
  qed
qed

text \<open>
  C33. Writing any text to the console keeps the cursor on the screen and writes no byte outside the
  framebuffer, also when lines wrap and the screen scrolls, for any framebuffer whose rows hold
  its pixels and whose size fits the 32-bit offset.
\<close>

theorem console_writes_confined:
  assumes "fb_ok fb" and "con_write_str s (console_new fb fg bg) m = (c, m')"
  shows "con_col c < con_cols c \<and> con_row c < con_rows c \<and> (\<forall>a. a \<notin> fb_bytes fb \<longrightarrow> m' a = m a)"
proof -
  have "console_ok c0 \<Longrightarrow> con_write_str s c0 m0 = (c, m') \<Longrightarrow>
      console_ok c \<and> con_fb c = con_fb c0 \<and> confined (con_fb c0) m0 m'" for c0 m0
  proof (induction s arbitrary: c0 m0)
    case (Cons b s)
    obtain c1 m1 where p: "put_char c0 b m0 = (c1, m1)" by fastforce
    with Cons.prems(2) have "con_write_str s c1 m1 = (c, m')" by simp
    with Cons.IH [of c1 m1] put_char_ok [OF Cons.prems(1) p] show ?case by (auto intro: confined_trans)
  qed auto
  from this [OF console_new_ok [OF assms(1)] assms(2)] show ?thesis
    by (auto simp: console_ok_def confined_def console_new_def Let_def)
qed

definition demo_fb :: framebuffer where
  "demo_fb = \<lparr>fb_ptr = 0x1000, fb_width = 16, fb_height = 32, fb_pitch = 64\<rparr>"

theorem console_writes_confined_witness:
  "\<exists>c m'. con_write_str [72, 105, 10, 33, 10] (console_new demo_fb 0xFFFFFF 0) (\<lambda>_. 7) = (c, m') \<and>
     con_row c < con_rows c \<and> m' 0x0FFF = 7 \<and> m' 0x1800 = 7"
proof -
  have ok: "fb_ok demo_fb" by (simp add: fb_ok_def demo_fb_def)
  obtain c m' where w: "con_write_str [72, 105, 10, 33, 10] (console_new demo_fb 0xFFFFFF 0) (\<lambda>_. 7) = (c, m')"
    by (metis surj_pair)
  have "(0x0FFF :: u64) \<notin> fb_bytes demo_fb" "(0x1800 :: u64) \<notin> fb_bytes demo_fb"
    by (simp_all add: fb_bytes_def demo_fb_def unsigned_minus_1_eq_mask mask_eq_exp_minus_1)
  with console_writes_confined [OF ok w] w show ?thesis by auto
qed

lemma fold_poke_frame:
  assumes "\<And>x. x \<in> set xs \<Longrightarrow> \<forall>m. \<forall>a\<in>A. (f x m :: memory) a = m a" and "a \<in> A"
  shows "fold f xs m a = m a"
  using assms
proof (induction xs arbitrary: m)
  case (Cons x xs)
  have "fold f xs (f x m) a = f x m a" using Cons by simp
  then show ?case using Cons.prems by simp
qed simp

lemma poke32_below:
  assumes "k < off" "off + 4 < 2 ^ 64"
  shows "poke32 m (p + of_nat off) v (p + of_nat k) = m (p + of_nat k)"
proof -
  have "(of_nat k :: u64) \<noteq> of_nat off + j" if "unat j < 4" for j
  proof
    assume "(of_nat k :: u64) = of_nat off + j"
    then have "unat (of_nat k :: u64) = unat (of_nat off + j :: u64)" by simp
    moreover have "unat (of_nat off + j :: u64) = off + unat j"
      using that assms(2) by (simp add: unat_word_ariths(1) unat_of_nat)
    moreover have "unat (of_nat k :: u64) = k" using assms by (simp add: unat_of_nat)
    ultimately show False using assms(1) by simp
  qed
  from this [of 0] this [of 1] this [of 2] this [of 3] show ?thesis
    by (simp add: poke32_def add.assoc)
qed

text \<open>
  Scrolling moves the picture up: after \<open>scroll_rows\<close> by fewer rows than the screen has, the byte at
  any offset of the remaining rows is the byte that was \<open>rows\<close> lines further down.
\<close>

theorem scroll_rows_moves_up:
  assumes "fb_ok fb" and "0 < rows" and "rows < unat (fb_height fb)"
    and "off < (unat (fb_height fb) - rows) * unat (fb_pitch fb)"
  shows "scroll_rows fb rows bg m (fb_ptr fb + of_nat off) = m (fb_ptr fb + of_nat (off + rows * unat (fb_pitch fb)))"
proof -
  let ?P = "unat (fb_pitch fb)" and ?H = "unat (fb_height fb)"
  let ?c = "copy_bytes (fb_ptr fb + of_nat (rows * ?P)) (fb_ptr fb) ((?H - rows) * ?P) m"
  have area: "?H * ?P < 2 ^ 32" using assms(1) by (simp add: fb_ok_def)
  have le: "(?H - rows) * ?P \<le> ?H * ?P" by (intro mult_le_mono1) simp
  have off: "unat (of_nat off :: u64) = off" 
    using less_trans [OF less_le_trans [OF assms(4) le] area] by (simp add: unat_of_nat)
  have keep: "poke32 m' (fb_ptr fb + of_nat (y * ?P) + of_nat (x * 4)) bg a = m' a"
    if y: "?H - rows \<le> y" "y < ?H" and x: "x < unat (fb_width fb)" and a: "a = fb_ptr fb + of_nat off" for x y m' a
  proof -
    have "(?H - rows) * ?P \<le> y * ?P" using y(1) by (rule mult_le_mono1)
    then have "off < y * ?P + x * 4" using assms(4) by linarith
    moreover have "y * ?P + x * 4 + 4 < 2 ^ 64" using pixel_offset [OF assms(1) x y(2)] area by simp
    ultimately have "poke32 m' (fb_ptr fb + of_nat (y * ?P + x * 4)) bg (fb_ptr fb + of_nat off) = m' (fb_ptr fb + of_nat off)"
      by (rule poke32_below)
    then show ?thesis unfolding a by (simp add: add.assoc)
  qed
  have "scroll_rows fb rows bg m (fb_ptr fb + of_nat off) = ?c (fb_ptr fb + of_nat off)"
    unfolding scroll_rows_def Let_def using assms(2,3)
    by (simp del: of_nat_mult)
      (rule fold_poke_frame [where A = "{fb_ptr fb + of_nat off}"], auto intro!: keep fold_poke_frame [where A = "{fb_ptr fb + of_nat off}"] simp del: of_nat_mult)
  also have "\<dots> = m (fb_ptr fb + of_nat (off + rows * ?P))"
    using off assms(4) by (simp add: copy_bytes_def algebra_simps)
  finally show ?thesis .
qed

theorem scroll_rows_moves_up_witness:
  "scroll_rows demo_fb 16 0 (\<lambda>a. ucast a) 0x1005 = 0x05"
proof -
  have "fb_ok demo_fb" by (simp add: fb_ok_def demo_fb_def)
  from scroll_rows_moves_up [OF this, of 16 5 0 "\<lambda>a. ucast a"] show ?thesis by (simp add: demo_fb_def)
qed

end
