(* ===== verification/Vfs.thy ===== *)
theory Vfs
  imports Keyboard Console
begin

text \<open>
  \<open>src/kernel/vfs.rs\<close>: the fixed name space, open flags, and the two device files. The devices behind
  the files (console, serial port, keyboard buffer) are the record \<open>io\<close>; whether the console or keyboard
  lock is free at the moment of a call is the argument \<open>free\<close>, as it depends on the other CPUs. A write
  that falls back to the serial port does not return when the port never becomes ready (\<open>None\<close>).
\<close>

section \<open>Definitions\<close>

definition FD_STDIN :: nat where "FD_STDIN = 0"
definition FD_STDOUT :: nat where "FD_STDOUT = 1"
definition FD_STDERR :: nat where "FD_STDERR = 2"

definition O_READ :: u64 where "O_READ = push_bit 0 1"
definition O_WRITE :: u64 where "O_WRITE = push_bit 1 1"
definition O_APPEND :: u64 where "O_APPEND = push_bit 2 1"

record open_flags =
  of_read :: bool
  of_write :: bool
  of_append :: bool

definition from_bits :: "u64 \<Rightarrow> open_flags" where
  "from_bits bits =
     \<lparr>of_read = (bits AND O_READ \<noteq> 0), of_write = (bits AND O_WRITE \<noteq> 0), of_append = (bits AND O_APPEND \<noteq> 0)\<rparr>"

datatype node_type = Dir | NodeFb0 | NodeKbd0

datatype file_handle = DevFb0 | DevKbd0

record file_desc =
  fd_handle :: file_handle
  fd_flags :: open_flags

definition lookup :: "u8 list \<Rightarrow> node_type option" where
  "lookup path =
     (if path = bytes_of ''/'' then Some Dir
      else if path = bytes_of ''/dev'' then Some Dir
      else if path = bytes_of ''/dev/fb0'' then Some NodeFb0
      else if path = bytes_of ''/dev/kbd0'' then Some NodeKbd0
      else None)"

definition open_bytes :: "u8 list \<Rightarrow> open_flags \<Rightarrow> file_desc option" where
  "open_bytes path flags =
     (case lookup path of
        Some NodeFb0 \<Rightarrow> Some \<lparr>fd_handle = DevFb0, fd_flags = flags\<rparr>
      | Some NodeKbd0 \<Rightarrow> Some \<lparr>fd_handle = DevKbd0, fd_flags = flags\<rparr>
      | _ \<Rightarrow> None)"

text \<open>The entry for paths the kernel itself opens.\<close>

definition open_path :: "string \<Rightarrow> open_flags \<Rightarrow> file_desc option" where
  "open_path path flags = open_bytes (bytes_of path) flags"

record 'd io =
  io_console :: "console option"
  io_mem :: memory
  io_uart :: uart_state
  io_dev :: 'd
  io_kbd :: ring_buffer

fun write_bytes :: "u8 list \<Rightarrow> console \<Rightarrow> memory \<Rightarrow> console \<times> memory" where
  "write_bytes [] c m = (c, m)"
| "write_bytes (b # bs) c m = (case con_write_byte c b m of (c', m') \<Rightarrow> write_bytes bs c' m')"

definition vfs_write :: "board \<Rightarrow> 'd device \<Rightarrow> bool \<Rightarrow> file_desc \<Rightarrow> u8 list \<Rightarrow> 'd io \<Rightarrow> ('d io \<times> nat) option" where
  "vfs_write b dev free desc buf io =
     (if \<not> of_write (fd_flags desc) then Some (io, 0)
      else case fd_handle desc of
             DevFb0 \<Rightarrow>
               (case try_with_console free (write_bytes buf) (io_console io, io_mem io) of
                  ((con, m), wrote) \<Rightarrow>
                    if wrote then Some (io\<lparr>io_console := con, io_mem := m\<rparr>, length buf)
                    else case uart_write_str b dev (io_uart io) buf (io_dev io) of
                           None \<Rightarrow> None
                         | Some d \<Rightarrow> Some (io\<lparr>io_dev := d\<rparr>, length buf))
           | DevKbd0 \<Rightarrow> Some (io, 0))"

definition vfs_read :: "'d device \<Rightarrow> bool \<Rightarrow> file_desc \<Rightarrow> u8 list \<Rightarrow> 'd io \<Rightarrow> 'd io \<times> u8 list \<times> nat" where
  "vfs_read dev free desc buf io =
     (if \<not> of_read (fd_flags desc) then (io, buf, 0)
      else case fd_handle desc of
             DevFb0 \<Rightarrow> (io, buf, 0)
           | DevKbd0 \<Rightarrow>
               (case kbd_read free dev (io_uart io) buf (io_kbd io) (io_dev io) of
                  ((kbd, buf', n), d) \<Rightarrow> (io\<lparr>io_kbd := kbd, io_dev := d\<rparr>, buf', n)))"

section \<open>Lemmas\<close>

lemma open_bytes_flags: "open_bytes path flags = Some desc \<Longrightarrow> fd_flags desc = flags"
  by (auto simp: open_bytes_def split: option.splits node_type.splits)

lemma from_bits_read: "of_read (from_bits bits) \<longleftrightarrow> bit bits 0"
  and from_bits_write: "of_write (from_bits bits) \<longleftrightarrow> bit bits 1"
  by (simp_all only: from_bits_def O_READ_def O_WRITE_def bit_iff_and_push_bit_not_eq_0 open_flags.simps)

lemma read_loop_count: "read_loop out buf acc n = (buf', out', k) \<Longrightarrow> k \<le> n + length out \<and> length out' = length acc + length out"
proof (induction out arbitrary: buf acc n)
  case (Cons s out)
  then show ?case by (fastforce split: prod.splits option.splits)
qed simp

lemma vfs_read_count: "vfs_read dev free desc buf io = (io', buf', n) \<Longrightarrow> n \<le> length buf \<and> length buf' = length buf"
  by (auto simp: vfs_read_def kbd_read_def split: if_splits file_handle.splits prod.splits dest: read_loop_count)

section \<open>Properties\<close>

text \<open>
  C35. A descriptor grants only what it was opened for: writing through one opened without the write
  bit, or reading through one opened without the read bit, transfers nothing and leaves every
  device untouched; a transfer never reports more bytes than the caller's buffer holds.
\<close>

theorem open_flags_enforced:
  assumes "open_bytes path (from_bits bits) = Some desc"
  shows "(\<not> bit bits 1 \<longrightarrow> vfs_write b dev free desc buf io = Some (io, 0)) \<and>
    (\<not> bit bits 0 \<longrightarrow> vfs_read dev free desc buf io = (io, buf, 0)) \<and>
    (\<forall>io' n. vfs_write b dev free desc buf io = Some (io', n) \<longrightarrow> n \<le> length buf) \<and>
    (\<forall>io' buf' n. vfs_read dev free desc buf io = (io', buf', n) \<longrightarrow> n \<le> length buf)"
proof -
  have "fd_flags desc = from_bits bits" using open_bytes_flags [OF assms] .
  moreover have "\<forall>io' n. vfs_write b dev free desc buf io = Some (io', n) \<longrightarrow> n \<le> length buf"
    by (auto simp: vfs_write_def split: if_splits file_handle.splits prod.splits option.splits)
  ultimately show ?thesis
    using vfs_read_count [of dev free desc buf io]
    by (auto simp: from_bits_read from_bits_write vfs_write_def vfs_read_def)
qed

theorem open_flags_enforced_witness:
  "\<exists>desc. open_bytes (bytes_of ''/dev/fb0'') (from_bits 1) = Some desc \<and>
     (\<forall>io. vfs_write Qemu demo_port True desc [65] io = Some (io, 0))"
proof -
  have o: "open_bytes (bytes_of ''/dev/fb0'') (from_bits 1) = Some \<lparr>fd_handle = DevFb0, fd_flags = from_bits 1\<rparr>"
    by (simp add: open_bytes_def lookup_def bytes_of_def)
  have "\<not> bit (1 :: u64) 1" by (simp add: bit_1_iff)
  with open_flags_enforced [OF o, of Qemu demo_port True "[65]"] o show ?thesis by blast
qed

end
