(* ===== verification/Process.thy ===== *)
theory Process
  imports Vfs
begin

text \<open>
  \<open>src/kernel/process.rs\<close>, with the trap frame of \<open>src/arch/aarch64/trap.rs\<close>: the process table, file
  descriptors, the run queue and the per-CPU current process. An operation that holds the table lock
  is one step on \<open>procs\<close>. Table and CPU indices are \<open>nat\<close>; the sentinels \<open>INVALID_IDX\<close> and \<open>CPU_NONE\<close> keep
  the value \<open>usize::MAX\<close>. Trap frames that the kernel writes onto stacks are a finite store from
  addresses to frames; the addresses of the static stacks and the root of the user page tables are
  parameters (\<open>proc_env\<close>).
\<close>

section \<open>Definitions\<close>

record trap_frame =
  tf_x :: "u64 list"
  tf_elr :: u64
  tf_spsr :: u64
  tf_sp_el0 :: u64

definition trap_frame_new :: "usize \<Rightarrow> trap_frame" where
  "trap_frame_new entry = \<lparr>tf_x = replicate 31 0, tf_elr = entry, tf_spsr = 0x5, tf_sp_el0 = 0\<rparr>"

definition TRAP_FRAME_SIZE :: usize where
  "TRAP_FRAME_SIZE = 288"

definition MAX_CPUS :: nat where "MAX_CPUS = 4"
definition MAX_FDS :: nat where "MAX_FDS = 8"
definition MAX_PROCS :: nat where "MAX_PROCS = 64"
definition STACK_SIZE :: usize where "STACK_SIZE = 512 * 1024"
definition CPU_NONE :: nat where "CPU_NONE = 2 ^ 64 - 1"
definition INVALID_IDX :: nat where "INVALID_IDX = 2 ^ 64 - 1"

datatype process_mode = Kernel | User

datatype process_state = Ready | Running | Blocked | Terminated

record process =
  p_id :: u32
  p_name :: string
  p_entry :: usize
  p_state :: process_state
  p_stack_top :: usize
  p_context_sp :: usize
  p_running_on :: nat
  p_in_run_queue :: bool
  p_mode :: process_mode
  p_parent :: "u32 option"
  p_fds :: "file_desc option list"
  p_ttbr0 :: u64

subsection \<open>RunQueue\<close>

record run_queue =
  rq_slots :: "nat list"
  rq_head :: nat
  rq_tail :: nat
  rq_len :: nat

definition rq_new :: run_queue where
  "rq_new = \<lparr>rq_slots = replicate MAX_PROCS INVALID_IDX, rq_head = 0, rq_tail = 0, rq_len = 0\<rparr>"

definition rq_push :: "run_queue \<Rightarrow> nat \<Rightarrow> run_queue" where
  "rq_push q idx =
     (if rq_len q \<ge> MAX_PROCS then q
      else q\<lparr>rq_slots := (rq_slots q)[rq_tail q := idx], rq_tail := (rq_tail q + 1) mod MAX_PROCS,
             rq_len := rq_len q + 1\<rparr>)"

definition rq_pop :: "run_queue \<Rightarrow> run_queue \<times> nat option" where
  "rq_pop q =
     (if rq_len q = 0 then (q, None)
      else let idx = rq_slots q ! rq_head q
        in (q\<lparr>rq_head := (rq_head q + 1) mod MAX_PROCS, rq_len := rq_len q - 1\<rparr>, Some idx))"

subsection \<open>ProcessTable and the statics\<close>

record process_table =
  slots :: "process option list"
  next_pid :: u32
  run_queue :: run_queue

definition table_new :: process_table where
  "table_new = \<lparr>slots = replicate MAX_PROCS None, next_pid = 1, run_queue = rq_new\<rparr>"

definition alloc_pid :: "process_table \<Rightarrow> process_table \<times> u32" where
  "alloc_pid t = (t\<lparr>next_pid := max (next_pid t + 1) 1\<rparr>, next_pid t)"

record procs =
  table :: process_table
  CURRENT :: "nat list"
  INIT_FDS :: "file_desc option list"
  stack_frames :: "usize \<Rightarrow> trap_frame option"

record proc_env =
  stacks_addr :: usize
  env_user_root_pa :: u64

definition proc_init :: "procs \<Rightarrow> procs" where
  "proc_init s = s\<lparr>table := table_new, CURRENT := replicate MAX_CPUS INVALID_IDX, INIT_FDS := replicate MAX_FDS None\<rparr>"

text \<open>The first occupied slot with a given pid, as the loops over \<open>slots\<close> find it.\<close>

fun find_pid :: "process option list \<Rightarrow> u32 \<Rightarrow> nat option" where
  "find_pid [] pid = None"
| "find_pid (Some p # rest) pid = (if p_id p = pid then Some 0 else map_option Suc (find_pid rest pid))"
| "find_pid (None # rest) pid = map_option Suc (find_pid rest pid)"

fun first_none :: "'a option list \<Rightarrow> nat option" where
  "first_none [] = None"
| "first_none (None # rest) = Some 0"
| "first_none (Some x # rest) = map_option Suc (first_none rest)"

definition init_context :: "usize \<Rightarrow> usize \<Rightarrow> procs \<Rightarrow> procs \<times> usize" where
  "init_context entry stack_top s =
     (let frame_ptr = (stack_top - TRAP_FRAME_SIZE) AND NOT 0xF
      in (s\<lparr>stack_frames := (stack_frames s)(frame_ptr := Some (trap_frame_new entry))\<rparr>, frame_ptr))"

definition inherited_fds :: "procs \<Rightarrow> u32 option \<Rightarrow> file_desc option list" where
  "inherited_fds s parent =
     (case parent of
        Some pid \<Rightarrow>
          (case find_pid (slots (table s)) pid of
             Some i \<Rightarrow> p_fds (the (slots (table s) ! i))
           | None \<Rightarrow> INIT_FDS s)
      | None \<Rightarrow> INIT_FDS s)"

definition create_with_mode ::
  "proc_env \<Rightarrow> string \<Rightarrow> usize \<Rightarrow> usize \<Rightarrow> process_mode \<Rightarrow> u32 option \<Rightarrow> procs \<Rightarrow> procs \<times> u32 option" where
  "create_with_mode env name entry stack_top mode parent s =
     (let ttbr0 = env_user_root_pa env;
          inherited = inherited_fds s parent
      in case first_none (slots (table s)) of
           None \<Rightarrow> (s, None)
         | Some idx \<Rightarrow>
             let (t, pid) = alloc_pid (table s);
                 stack_top = (if stack_top = 0 then stacks_addr env + of_nat idx * STACK_SIZE + STACK_SIZE else stack_top);
                 (s, context_sp) = init_context entry stack_top s;
                 proc = \<lparr>p_id = pid, p_name = name, p_entry = entry, p_state = Ready, p_stack_top = stack_top,
                   p_context_sp = context_sp, p_running_on = CPU_NONE, p_in_run_queue = True, p_mode = mode,
                   p_parent = parent, p_fds = inherited, p_ttbr0 = ttbr0\<rparr>
             in (s\<lparr>table := t\<lparr>slots := (slots t)[idx := Some proc], run_queue := rq_push (run_queue t) idx\<rparr>\<rparr>, Some pid))"

definition with_current :: "nat \<Rightarrow> (process \<Rightarrow> 'r) \<Rightarrow> procs \<Rightarrow> 'r option res" where
  "with_current cpu f s =
     and_then (arr_get (CURRENT s) cpu) (\<lambda>idx.
       if idx = INVALID_IDX then Inr None
       else and_then (arr_get (slots (table s)) idx) (\<lambda>slot. Inr (map_option f slot)))"

definition with_current_mut :: "nat \<Rightarrow> (process \<Rightarrow> process \<times> 'r) \<Rightarrow> procs \<Rightarrow> (procs \<times> 'r option) res" where
  "with_current_mut cpu f s =
     and_then (arr_get (CURRENT s) cpu) (\<lambda>idx.
       if idx = INVALID_IDX then Inr (s, None)
       else and_then (arr_get (slots (table s)) idx) (\<lambda>slot.
         case slot of
           None \<Rightarrow> Inr (s, None)
         | Some p \<Rightarrow> (case f p of
             (p', r) \<Rightarrow> Inr (s\<lparr>table := (table s)\<lparr>slots := (slots (table s))[idx := Some p']\<rparr>\<rparr>, Some r))))"

definition current_pid :: "nat \<Rightarrow> procs \<Rightarrow> u32 option res" where
  "current_pid cpu s = with_current cpu p_id s"

definition create :: "proc_env \<Rightarrow> nat \<Rightarrow> string \<Rightarrow> usize \<Rightarrow> usize \<Rightarrow> procs \<Rightarrow> (procs \<times> u32 option) res" where
  "create env cpu name entry stack_top s =
     and_then (current_pid cpu s) (\<lambda>parent. Inr (create_with_mode env name entry stack_top Kernel parent s))"

definition create_user :: "proc_env \<Rightarrow> nat \<Rightarrow> string \<Rightarrow> usize \<Rightarrow> usize \<Rightarrow> procs \<Rightarrow> (procs \<times> u32 option) res" where
  "create_user env cpu name entry stack_top s =
     and_then (current_pid cpu s) (\<lambda>parent. Inr (create_with_mode env name entry stack_top User parent s))"

definition set_init_fd :: "nat \<Rightarrow> file_desc option \<Rightarrow> procs \<Rightarrow> procs" where
  "set_init_fd fd desc s = (if fd \<ge> MAX_FDS then s else s\<lparr>INIT_FDS := (INIT_FDS s)[fd := desc]\<rparr>)"

definition update_slot :: "nat \<Rightarrow> (process \<Rightarrow> process) \<Rightarrow> procs \<Rightarrow> procs" where
  "update_slot i f s = s\<lparr>table := (table s)\<lparr>slots := (slots (table s))[i := map_option f (slots (table s) ! i)]\<rparr>\<rparr>"

definition set_fd :: "u32 \<Rightarrow> nat \<Rightarrow> file_desc option \<Rightarrow> procs \<Rightarrow> procs \<times> bool" where
  "set_fd pid fd desc s =
     (if fd \<ge> MAX_FDS then (s, False)
      else case find_pid (slots (table s)) pid of
             Some i \<Rightarrow> (update_slot i (\<lambda>p. p\<lparr>p_fds := (p_fds p)[fd := desc]\<rparr>) s, True)
           | None \<Rightarrow> (s, False))"

definition alloc_fd_current :: "nat \<Rightarrow> file_desc \<Rightarrow> procs \<Rightarrow> (procs \<times> nat option) res" where
  "alloc_fd_current cpu desc s =
     and_then (with_current_mut cpu (\<lambda>p.
         case first_none (p_fds p) of
           Some fd \<Rightarrow> (p\<lparr>p_fds := (p_fds p)[fd := Some desc]\<rparr>, Some fd)
         | None \<Rightarrow> (p, None)) s)
       (\<lambda>(s', r). Inr (s', case r of Some fd \<Rightarrow> fd | None \<Rightarrow> None))"

definition close_fd_current :: "nat \<Rightarrow> nat \<Rightarrow> procs \<Rightarrow> (procs \<times> bool) res" where
  "close_fd_current cpu fd s =
     (if fd \<ge> MAX_FDS then Inr (s, False)
      else and_then (with_current_mut cpu (\<lambda>p. (p\<lparr>p_fds := (p_fds p)[fd := None]\<rparr>, True)) s)
        (\<lambda>(s', r). Inr (s', case r of Some b \<Rightarrow> b | None \<Rightarrow> False)))"

definition get_fd_current :: "nat \<Rightarrow> nat \<Rightarrow> procs \<Rightarrow> file_desc option res" where
  "get_fd_current cpu fd s =
     (if fd \<ge> MAX_FDS then Inr None
      else and_then (with_current cpu (\<lambda>p. p_fds p ! fd) s) (\<lambda>r. Inr (case r of Some d \<Rightarrow> d | None \<Rightarrow> None)))"

definition get :: "u32 \<Rightarrow> procs \<Rightarrow> process option" where
  "get pid s = (case find_pid (slots (table s)) pid of Some i \<Rightarrow> slots (table s) ! i | None \<Rightarrow> None)"

definition set_state :: "u32 \<Rightarrow> process_state \<Rightarrow> procs \<Rightarrow> procs \<times> bool" where
  "set_state pid st s =
     (case find_pid (slots (table s)) pid of
        Some i \<Rightarrow> (update_slot i (\<lambda>p. p\<lparr>p_state := st\<rparr>) s, True)
      | None \<Rightarrow> (s, False))"

definition for_each :: "(process \<Rightarrow> 'a \<Rightarrow> 'a) \<Rightarrow> procs \<Rightarrow> 'a \<Rightarrow> 'a" where
  "for_each f s acc = fold (\<lambda>slot acc. case slot of Some p \<Rightarrow> f p acc | None \<Rightarrow> acc) (slots (table s)) acc"

section \<open>The run queue is a bounded queue\<close>

definition rq_items :: "run_queue \<Rightarrow> nat list" where
  "rq_items q = ring_items (rq_slots q) (rq_head q) (rq_len q)"

definition rq_ok :: "run_queue \<Rightarrow> bool" where
  "rq_ok q \<longleftrightarrow> length (rq_slots q) = MAX_PROCS \<and> ring_ok (rq_slots q) (rq_head q) (rq_tail q) (rq_len q)"

lemma rq_ok_new [simp]: "rq_ok rq_new" and rq_items_new [simp]: "rq_items rq_new = []"
  by (simp_all add: rq_ok_def rq_items_def rq_new_def ring_ok_def MAX_PROCS_def)

lemma length_rq_items [simp]: "length (rq_items q) = rq_len q"
  by (simp add: rq_items_def)

interpretation rq: bounded_fifo rq_push rq_pop rq_items MAX_PROCS rq_ok
proof
  fix q x
  assume ok: "rq_ok q" and room: "length (rq_items q) < MAX_PROCS"
  then have r: "ring_ok (rq_slots q) (rq_head q) (rq_tail q) (rq_len q)" "rq_len q < length (rq_slots q)"
    "length (rq_slots q) = MAX_PROCS" by (simp_all add: rq_ok_def)
  from ring_push [OF r(1,2), of x] r room
  show "rq_ok (rq_push q x) \<and> rq_items (rq_push q x) = rq_items q @ [x]"
    by (simp add: rq_push_def rq_ok_def rq_items_def)
next
  fix q x
  assume "rq_ok q" "MAX_PROCS \<le> length (rq_items q)"
  then show "rq_push q x = q" by (simp add: rq_push_def)
next
  fix q
  assume "rq_ok q" "rq_items q = []"
  then have "rq_len q = 0" by (metis length_rq_items list.size(3))
  then show "rq_pop q = (q, None)" by (simp add: rq_pop_def)
next
  fix q x xs
  assume ok: "rq_ok q" and it: "rq_items q = x # xs"
  then have len: "0 < rq_len q" by (metis length_rq_items length_greater_0_conv list.distinct(1))
  have r: "ring_ok (rq_slots q) (rq_head q) (rq_tail q) (rq_len q)" "length (rq_slots q) = MAX_PROCS"
    using ok by (simp_all add: rq_ok_def)
  from ring_pop [OF r(1) len] r it len
  show "\<exists>q'. rq_pop q = (q', Some x) \<and> rq_ok q' \<and> rq_items q' = xs"
    by (auto simp: rq_pop_def rq_ok_def rq_items_def Let_def)
next
  fix q
  assume "rq_ok q"
  then show "length (rq_items q) \<le> MAX_PROCS" by (simp add: rq_ok_def ring_ok_def)
qed

end
