(* ===== verification/Scheduler.thy ===== *)
theory Scheduler
  imports Process
begin

text \<open>
  \<open>src/kernel/process/scheduler.rs\<close>: round-robin scheduling over one global run queue. The blocks of
  \<open>schedule_from_irq\<close> that run under the table lock are separate definitions, composed in the order of the
  source; its logging is compiled out (\<open>LOG_SCHED\<close> is false). The step relation interleaves the
  operations of all CPUs in any order; \<open>sched_inv\<close> is its invariant.
\<close>

section \<open>Definitions\<close>

fun dequeue_loop :: "nat \<Rightarrow> process_table \<Rightarrow> (process_table \<times> nat option) res" where
  "dequeue_loop 0 t = Inr (t, None)"
| "dequeue_loop (Suc n) t =
     (case rq_pop (run_queue t) of
        (q, None) \<Rightarrow> Inr (t\<lparr>run_queue := q\<rparr>, None)
      | (q, Some idx) \<Rightarrow>
          and_then (arr_get (slots t) idx) (\<lambda>slot.
            let take = (case slot of Some p \<Rightarrow> p_state p = Ready \<and> p_running_on p = CPU_NONE | None \<Rightarrow> False)
            in if take
               then Inr (t\<lparr>run_queue := q,
                   slots := (slots t)[idx := map_option (\<lambda>p. p\<lparr>p_in_run_queue := False\<rparr>) slot]\<rparr>, Some idx)
               else dequeue_loop n (t\<lparr>run_queue := rq_push q idx\<rparr>)))"

definition dequeue_next_runnable :: "process_table \<Rightarrow> (process_table \<times> nat option) res" where
  "dequeue_next_runnable t = dequeue_loop (rq_len (run_queue t)) t"

text \<open>Change the process in a slot, if there is one.\<close>

definition on_slot :: "nat \<Rightarrow> (process \<Rightarrow> process) \<Rightarrow> process_table \<Rightarrow> process_table res" where
  "on_slot i f t =
     (if i = INVALID_IDX then Inr t
      else and_then (arr_get (slots t) i) (\<lambda>slot. Inr (t\<lparr>slots := (slots t)[i := map_option f slot]\<rparr>)))"

definition save_current :: "usize \<Rightarrow> nat \<Rightarrow> process_table \<Rightarrow> process_table res" where
  "save_current frame cur =
     on_slot cur (\<lambda>p. let p = p\<lparr>p_context_sp := frame\<rparr> in
       if p_state p = Running then p\<lparr>p_state := Ready, p_running_on := CPU_NONE, p_in_run_queue := False\<rparr> else p)"

definition resume_current :: "nat \<Rightarrow> nat \<Rightarrow> process_table \<Rightarrow> process_table res" where
  "resume_current cpu cur = on_slot cur (\<lambda>p. p\<lparr>p_state := Running, p_running_on := cpu\<rparr>)"

definition requeue_current :: "nat \<Rightarrow> process_table \<Rightarrow> process_table res" where
  "requeue_current cur t =
     (if cur = INVALID_IDX then Inr t
      else and_then (arr_get (slots t) cur) (\<lambda>slot.
        case slot of
          Some p \<Rightarrow>
            if p_state p = Ready \<and> \<not> p_in_run_queue p
            then Inr (t\<lparr>slots := (slots t)[cur := Some (p\<lparr>p_in_run_queue := True\<rparr>)], run_queue := rq_push (run_queue t) cur\<rparr>)
            else Inr t
        | None \<Rightarrow> Inr t))"

definition dispatch :: "nat \<Rightarrow> nat \<Rightarrow> process_table \<Rightarrow> process_table res" where
  "dispatch cpu nxt = on_slot nxt (\<lambda>p. p\<lparr>p_state := Running, p_running_on := cpu, p_in_run_queue := False\<rparr>)"

definition schedule_from_irq :: "nat \<Rightarrow> usize \<Rightarrow> procs \<times> mmu_regs \<Rightarrow> ((procs \<times> mmu_regs) \<times> usize) res" where
  "schedule_from_irq cpu frame st =
     (case st of (s, regs) \<Rightarrow>
        and_then (arr_get (CURRENT s) cpu) (\<lambda>cur.
        and_then (save_current frame cur (table s)) (\<lambda>t.
        and_then (dequeue_next_runnable t) (\<lambda>(t, next_idx).
          case next_idx of
            None \<Rightarrow> and_then (resume_current cpu cur t) (\<lambda>t. Inr ((s\<lparr>table := t\<rparr>, regs), frame))
          | Some nxt \<Rightarrow>
              and_then (arr_get (slots t) nxt) (\<lambda>slot.
                case slot of
                  None \<Rightarrow> Inr ((s\<lparr>table := t\<rparr>, regs), frame)
                | Some _ \<Rightarrow>
                    and_then (requeue_current cur t) (\<lambda>t.
                    and_then (dispatch cpu nxt t) (\<lambda>t.
                    and_then (arr_set (CURRENT s) cpu nxt) (\<lambda>current.
                      let p = the (slots t ! nxt)
                      in Inr ((s\<lparr>table := t, CURRENT := current\<rparr>, set_ttbr0 (p_ttbr0 p) regs), p_context_sp p)))))))))"

text \<open>\<open>start_on_cpu\<close> jumps to \<open>start_first\<close> with the entry point and the stack it returns here.\<close>

definition start_on_cpu :: "nat \<Rightarrow> procs \<times> mmu_regs \<Rightarrow> ((procs \<times> mmu_regs) \<times> usize \<times> usize) res" where
  "start_on_cpu cpu st =
     (case st of (s, regs) \<Rightarrow>
        and_then (dequeue_next_runnable (table s)) (\<lambda>(t, next_idx).
          case next_idx of
            None \<Rightarrow> Inl Expect_Panic
          | Some nxt \<Rightarrow>
              and_then (arr_get (slots t) nxt) (\<lambda>slot.
                case slot of
                  None \<Rightarrow> Inl Expect_Panic
                | Some _ \<Rightarrow>
                    and_then (dispatch cpu nxt t) (\<lambda>t.
                    and_then (arr_set (CURRENT s) cpu nxt) (\<lambda>current.
                      let p = the (slots t ! nxt)
                      in Inr ((s\<lparr>table := t, CURRENT := current\<rparr>, set_ttbr0 (p_ttbr0 p) regs), p_entry p, p_stack_top p))))))"

section \<open>The queue and the flags\<close>

text \<open>A process is in the run queue, once, exactly when its flag says so.\<close>

definition queue_inv :: "process_table \<Rightarrow> bool" where
  "queue_inv t \<longleftrightarrow> length (slots t) = MAX_PROCS \<and> rq_ok (run_queue t) \<and> distinct (rq_items (run_queue t)) \<and>
     (\<forall>i. i \<in> set (rq_items (run_queue t)) \<longleftrightarrow> i < MAX_PROCS \<and> (\<exists>p. slots t ! i = Some p \<and> p_in_run_queue p))"

definition runnable :: "process option \<Rightarrow> bool" where
  "runnable slot \<longleftrightarrow> (case slot of Some p \<Rightarrow> p_state p = Ready \<and> p_running_on p = CPU_NONE | None \<Rightarrow> False)"

definition unqueue :: "process \<Rightarrow> process" where
  "unqueue p = p\<lparr>p_in_run_queue := False\<rparr>"

text \<open>The scan rotates the queue up to the first runnable process and removes that one.\<close>

definition dequeue_post ::
  "nat \<Rightarrow> nat list \<Rightarrow> process option list \<Rightarrow> process_table \<Rightarrow> nat option \<Rightarrow> bool" where
  "dequeue_post n its sl t r \<longleftrightarrow> rq_ok (run_queue t) \<and>
    (case r of
       None \<Rightarrow> (\<forall>i\<in>set (take n its). \<not> runnable (sl ! i)) \<and> slots t = sl \<and> rq_items (run_queue t) = rotate n its
     | Some i \<Rightarrow> \<exists>k<n. i = its ! k \<and> runnable (sl ! i) \<and> (\<forall>j<k. \<not> runnable (sl ! (its ! j))) \<and>
         slots t = sl[i := map_option unqueue (sl ! i)] \<and> rq_items (run_queue t) = drop (Suc k) its @ take k its)"

lemma dequeue_loop_spec:
  assumes "queue_inv t" "n \<le> length (rq_items (run_queue t))"
  shows "\<exists>t' r. dequeue_loop n t = Inr (t', r) \<and> dequeue_post n (rq_items (run_queue t)) (slots t) t' r"
  using assms
proof (induction n arbitrary: t)
  case 0
  then show ?case by (simp add: queue_inv_def dequeue_post_def)
next
  case (Suc n)
  let ?it = "rq_items (run_queue t)"
  obtain i rest where it: "?it = i # rest" using Suc.prems(2) by (cases ?it) auto
  have ok: "rq_ok (run_queue t)" and len: "length (slots t) = MAX_PROCS" and i: "i < MAX_PROCS"
    using Suc.prems(1) it by (auto simp: queue_inv_def)
  obtain q where q: "rq_pop (run_queue t) = (q, Some i)" "rq_ok q" "rq_items q = rest"
    using rq.pop_cons [OF ok it] by blast
  show ?case
  proof (cases "runnable (slots t ! i)")
    case True
    then have "dequeue_loop (Suc n) t = Inr (t\<lparr>run_queue := q, slots := (slots t)[i := map_option unqueue (slots t ! i)]\<rparr>, Some i)"
      using q(1) i len by (auto simp: runnable_def unqueue_def fun_eq_iff split: option.splits)
    with True it q(2,3) show ?thesis by (auto simp: dequeue_post_def intro!: exI [of _ 0])
  next
    case False
    let ?t = "t\<lparr>run_queue := rq_push q i\<rparr>"
    have "length (rq_items q) < MAX_PROCS" using q(3) rq.items_bound [OF ok] it by simp
    from rq.push_room [OF q(2) this, of i] q(3) have pq: "rq_ok (rq_push q i)" "rq_items (rq_push q i) = rest @ [i]" by auto
    have eq: "dequeue_loop (Suc n) t = dequeue_loop n ?t"
      using False q(1) i len by (auto simp: runnable_def split: option.splits)
    have inv: "queue_inv ?t" using Suc.prems(1) it pq by (auto simp: queue_inv_def)
    have "n \<le> length (rq_items (run_queue ?t))" using Suc.prems(2) it pq by simp
    from Suc.IH [OF inv this] obtain t' r where r: "dequeue_loop n ?t = Inr (t', r)"
      and post: "dequeue_post n (rest @ [i]) (slots t) t' r" using pq(2) by auto
    have nr: "n \<le> length rest" using Suc.prems(2) it by simp
    show ?thesis
    proof (cases r)
      case None
      with post eq r it False nr show ?thesis by (simp add: dequeue_post_def rotate1_rotate_swap)
    next
      case (Some j)
      with post obtain k where k: "k < n" "j = (rest @ [i]) ! k" "runnable (slots t ! j)"
        "\<forall>l<k. \<not> runnable (slots t ! ((rest @ [i]) ! l))" "slots t' = (slots t)[j := map_option unqueue (slots t ! j)]"
        "rq_items (run_queue t') = drop (Suc k) (rest @ [i]) @ take k (rest @ [i])" by (auto simp: dequeue_post_def)
      have kr: "k < length rest" using k(1) nr by simp
      have "\<forall>l<Suc k. \<not> runnable (slots t ! (?it ! l))"
      proof (intro allI impI)
        fix l
        assume "l < Suc k"
        then show "\<not> runnable (slots t ! (?it ! l))"
          using k(4) False it kr by (cases l) (auto simp: nth_append)
      qed
      moreover have "j = ?it ! Suc k" using k(2) it kr by (simp add: nth_append)
      moreover have "rq_items (run_queue t') = drop (Suc (Suc k)) ?it @ take (Suc k) ?it" using k(6) it kr by simp
      moreover have "rq_ok (run_queue t')" using post by (simp add: dequeue_post_def)
      ultimately show ?thesis using eq r k(1,3,5) Some by (auto simp: dequeue_post_def intro!: exI [of _ "Suc k"])
    qed
  qed
qed

lemma dequeue_spec:
  assumes "queue_inv t"
  shows "\<exists>t' r. dequeue_next_runnable t = Inr (t', r) \<and>
    dequeue_post (length (rq_items (run_queue t))) (rq_items (run_queue t)) (slots t) t' r"
  using dequeue_loop_spec [OF assms, of "rq_len (run_queue t)"] by (simp add: dequeue_next_runnable_def)

lemma dequeue_none_inv:
  assumes "queue_inv t" "dequeue_post (length (rq_items (run_queue t))) (rq_items (run_queue t)) (slots t) t' None"
  shows "queue_inv t' \<and> slots t' = slots t \<and> rq_items (run_queue t') = rq_items (run_queue t) \<and>
    (\<forall>i\<in>set (rq_items (run_queue t)). \<not> runnable (slots t ! i))"
  using assms by (simp add: dequeue_post_def queue_inv_def rotate_conv_mod)

lemma drop_take_remove:
  assumes "k < length xs" "distinct xs"
  shows "distinct (drop (Suc k) xs @ take k xs) \<and> set (drop (Suc k) xs @ take k xs) = set xs - {xs ! k}"
proof -
  define a x b where "a = take k xs" and "x = xs ! k" and "b = drop (Suc k) xs"
  have "xs = a @ x # b" using assms(1) by (simp add: a_def b_def x_def id_take_nth_drop)
  then have "distinct (b @ a) \<and> set (b @ a) = set xs - {x}" using assms(2) by auto
  then show ?thesis by (simp add: a_def b_def x_def)
qed

lemma dequeue_some_inv:
  assumes inv: "queue_inv t"
    and post: "dequeue_post (length (rq_items (run_queue t))) (rq_items (run_queue t)) (slots t) t' (Some i)"
  shows "queue_inv t' \<and> i < MAX_PROCS \<and> i \<notin> set (rq_items (run_queue t')) \<and>
    (\<exists>p. slots t ! i = Some p \<and> p_in_run_queue p \<and> p_state p = Ready \<and> p_running_on p = CPU_NONE \<and>
      slots t' = (slots t)[i := Some (unqueue p)])"
proof -
  let ?its = "rq_items (run_queue t)"
  from post obtain k where k: "k < length ?its" "i = ?its ! k" "runnable (slots t ! i)"
    "slots t' = (slots t)[i := map_option unqueue (slots t ! i)]"
    "rq_items (run_queue t') = drop (Suc k) ?its @ take k ?its" "rq_ok (run_queue t')"
    by (auto simp: dequeue_post_def)
  have dis: "distinct ?its" and len: "length (slots t) = MAX_PROCS" using inv by (simp_all add: queue_inv_def)
  have mem: "i \<in> set ?its" using k(1,2) by (simp only: nth_mem)
  have its': "distinct (rq_items (run_queue t'))" "set (rq_items (run_queue t')) = set ?its - {i}"
    using drop_take_remove [OF k(1) dis] k(2,5) by simp_all
  obtain p where p: "slots t ! i = Some p" "p_in_run_queue p" "i < MAX_PROCS" using inv mem by (auto simp: queue_inv_def)
  have "j \<in> set ?its - {i} \<longleftrightarrow> j < MAX_PROCS \<and> (\<exists>p. slots t' ! j = Some p \<and> p_in_run_queue p)" for j
    using inv len p k(4) by (auto simp: queue_inv_def nth_list_update unqueue_def split: if_splits)
  with its' k(4,6) len have "queue_inv t'" unfolding queue_inv_def by simp
  moreover have "p_state p = Ready" "p_running_on p = CPU_NONE" using k(3) p(1) by (simp_all add: runnable_def)
  ultimately show ?thesis using p its'(2) k(4) by simp
qed

section \<open>The scheduler invariant\<close>

text \<open>
  The process a CPU runs sits in a slot that records this CPU and is not queued. As a slot records one
  CPU, no process runs on two.
\<close>

definition current_inv :: "procs \<Rightarrow> bool" where
  "current_inv s \<longleftrightarrow> length (CURRENT s) = MAX_CPUS \<and>
     (\<forall>c<MAX_CPUS. CURRENT s ! c \<noteq> INVALID_IDX \<longrightarrow> CURRENT s ! c < MAX_PROCS \<and>
       (\<exists>p. slots (table s) ! (CURRENT s ! c) = Some p \<and> p_running_on p = c \<and> \<not> p_in_run_queue p))"

definition sched_inv :: "procs \<Rightarrow> bool" where
  "sched_inv s \<longleftrightarrow> queue_inv (table s) \<and> current_inv s"

lemma sched_inv_current:
  assumes "sched_inv s" "cpu < MAX_CPUS" "CURRENT s ! cpu \<noteq> INVALID_IDX"
  obtains p where "CURRENT s ! cpu < MAX_PROCS" "slots (table s) ! (CURRENT s ! cpu) = Some p"
    "p_running_on p = cpu" "\<not> p_in_run_queue p"
  using assms unfolding sched_inv_def current_inv_def by blast

lemma sched_inv_lengths: "sched_inv s \<Longrightarrow> length (slots (table s)) = MAX_PROCS \<and> length (CURRENT s) = MAX_CPUS"
  by (simp add: sched_inv_def queue_inv_def current_inv_def)

text \<open>Rewriting a slot keeps the queue consistent if the flag stays.\<close>

lemma queue_inv_slot:
  assumes "queue_inv t" "i < MAX_PROCS" "slots t ! i = Some p" "p_in_run_queue p' = p_in_run_queue p"
  shows "queue_inv (t\<lparr>slots := (slots t)[i := Some p']\<rparr>)"
  using assms by (auto simp: queue_inv_def nth_list_update)

lemma queue_inv_unqueued: "queue_inv t \<Longrightarrow> slots t ! i = Some p \<Longrightarrow> \<not> p_in_run_queue p \<Longrightarrow> i \<notin> set (rq_items (run_queue t))"
  by (auto simp: queue_inv_def)

definition saved :: "usize \<Rightarrow> process \<Rightarrow> process" where
  "saved frame p = (let p = p\<lparr>p_context_sp := frame\<rparr> in
     if p_state p = Running then p\<lparr>p_state := Ready, p_running_on := CPU_NONE, p_in_run_queue := False\<rparr> else p)"

lemma on_slot_some:
  "i \<noteq> INVALID_IDX \<Longrightarrow> i < length (slots t) \<Longrightarrow> on_slot i f t = Inr (t\<lparr>slots := (slots t)[i := map_option f (slots t ! i)]\<rparr>)"
  by (simp add: on_slot_def)

lemma INVALID_IDX_ge: "i < MAX_PROCS \<Longrightarrow> i \<noteq> INVALID_IDX"
  by (simp add: MAX_PROCS_def INVALID_IDX_def)

lemma CPU_NONE_ge: "c < MAX_CPUS \<Longrightarrow> c \<noteq> CPU_NONE"
  by (simp add: MAX_CPUS_def CPU_NONE_def)

lemma requeue_inv:
  assumes inv: "queue_inv t" and c: "cur < MAX_PROCS" "slots t ! cur = Some p" "\<not> p_in_run_queue p"
  shows "\<exists>t'. requeue_current cur t = Inr t' \<and> queue_inv t' \<and>
    slots t' = (slots t)[cur := Some (if p_state p = Ready then p\<lparr>p_in_run_queue := True\<rparr> else p)] \<and>
    rq_items (run_queue t') = rq_items (run_queue t) @ (if p_state p = Ready then [cur] else [])"
proof -
  have len: "length (slots t) = MAX_PROCS" and ok: "rq_ok (run_queue t)"
    and dis: "distinct (rq_items (run_queue t))" and sub: "set (rq_items (run_queue t)) \<subseteq> {..<MAX_PROCS}"
    using inv by (auto simp: queue_inv_def)
  note notin = queue_inv_unqueued [OF inv c(2,3)]
  show ?thesis
  proof (cases "p_state p = Ready")
    case False
    have "(slots t)[cur := Some p] = slots t" using c(2) by (metis list_update_id)
    with False c len inv INVALID_IDX_ge [OF c(1)] show ?thesis by (simp add: requeue_current_def)
  next
    case True
    let ?q = "run_queue t" and ?sl = "(slots t)[cur := Some (p\<lparr>p_in_run_queue := True\<rparr>)]"
    have "card (set (rq_items ?q)) \<le> card ({..<MAX_PROCS} - {cur})"
      using sub notin by (intro card_mono) auto
    then have room: "length (rq_items ?q) < MAX_PROCS" using dis c(1) by (simp add: distinct_card)
    from rq.push_room [OF ok this, of cur] have q: "rq_ok (rq_push ?q cur)" "rq_items (rq_push ?q cur) = rq_items ?q @ [cur]" by auto
    have "requeue_current cur t = Inr (t\<lparr>slots := ?sl, run_queue := rq_push ?q cur\<rparr>)"
      using True c len INVALID_IDX_ge [OF c(1)] by (simp add: requeue_current_def)
    moreover have "queue_inv (t\<lparr>slots := ?sl, run_queue := rq_push ?q cur\<rparr>)"
      using inv q notin c len by (auto simp: queue_inv_def nth_list_update)
    ultimately show ?thesis using True q by auto
  qed
qed

lemma save_inv:
  assumes inv: "sched_inv s" and cpu: "cpu < MAX_CPUS" and cur: "CURRENT s ! cpu \<noteq> INVALID_IDX"
    and p: "slots (table s) ! (CURRENT s ! cpu) = Some p"
  shows "save_current frame (CURRENT s ! cpu) (table s) =
      Inr ((table s)\<lparr>slots := (slots (table s))[CURRENT s ! cpu := Some (saved frame p)]\<rparr>)"
    and "queue_inv ((table s)\<lparr>slots := (slots (table s))[CURRENT s ! cpu := Some (saved frame p)]\<rparr>)"
proof -
  from sched_inv_current [OF inv cpu cur] p have i: "CURRENT s ! cpu < MAX_PROCS" "\<not> p_in_run_queue p" by auto
  with p cur sched_inv_lengths [OF inv] show "save_current frame (CURRENT s ! cpu) (table s) =
      Inr ((table s)\<lparr>slots := (slots (table s))[CURRENT s ! cpu := Some (saved frame p)]\<rparr>)"
    by (simp add: save_current_def on_slot_some saved_def)
  show "queue_inv ((table s)\<lparr>slots := (slots (table s))[CURRENT s ! cpu := Some (saved frame p)]\<rparr>)"
    using inv i p queue_inv_slot [of "table s" _ p "saved frame p"] by (simp add: sched_inv_def saved_def Let_def)
qed


lemma current_inv_update:
  assumes "current_inv s" "cpu < MAX_CPUS" "length (CURRENT s') = MAX_CPUS"
    and "\<And>c. c < MAX_CPUS \<Longrightarrow> c \<noteq> cpu \<Longrightarrow> CURRENT s' ! c = CURRENT s ! c"
    and "\<And>c. c < MAX_CPUS \<Longrightarrow> c \<noteq> cpu \<Longrightarrow> CURRENT s ! c \<noteq> INVALID_IDX \<Longrightarrow>
      slots (table s') ! (CURRENT s ! c) = slots (table s) ! (CURRENT s ! c)"
    and "CURRENT s' ! cpu \<noteq> INVALID_IDX \<Longrightarrow> CURRENT s' ! cpu < MAX_PROCS \<and>
      (\<exists>p. slots (table s') ! (CURRENT s' ! cpu) = Some p \<and> p_running_on p = cpu \<and> \<not> p_in_run_queue p)"
  shows "current_inv s'"
  unfolding current_inv_def
proof (intro conjI allI impI assms(3))
  fix c
  assume c: "c < MAX_CPUS" "CURRENT s' ! c \<noteq> INVALID_IDX"
  have "CURRENT s' ! c < MAX_PROCS \<and>
      (\<exists>p. slots (table s') ! (CURRENT s' ! c) = Some p \<and> p_running_on p = c \<and> \<not> p_in_run_queue p)"
  proof (cases "c = cpu")
    case True
    with c assms(6) show ?thesis by simp
  next
    case False
    with c assms(1,4,5) show ?thesis by (simp add: current_inv_def)
  qed
  then show "CURRENT s' ! c < MAX_PROCS"
    and "\<exists>p. slots (table s') ! (CURRENT s' ! c) = Some p \<and> p_running_on p = c \<and> \<not> p_in_run_queue p" by auto
qed

lemma other_current:
  assumes "sched_inv s" "c < MAX_CPUS" "c \<noteq> cpu" "CURRENT s ! c \<noteq> INVALID_IDX" "slots (table s) ! i = Some p"
    "p_running_on p = cpu \<or> p_running_on p = CPU_NONE"
  shows "CURRENT s ! c \<noteq> i"
  using sched_inv_current [OF assms(1,2,4)] assms(2,3,5,6) CPU_NONE_ge [OF assms(2)] by (metis option.inject)

lemma saved_fields [simp]:
  "p_in_run_queue (saved f p) = (p_in_run_queue p \<and> p_state p \<noteq> Running)"
  "p_state (saved f p) = (if p_state p = Running then Ready else p_state p)"
  "p_context_sp (saved f p) = f" "p_entry (saved f p) = p_entry p" "p_ttbr0 (saved f p) = p_ttbr0 p"
  by (simp_all add: saved_def Let_def)

text \<open>
  The outcome of a timer tick: \<open>resumed\<close> when nothing in the queue is runnable, \<open>switched\<close> otherwise. The
  table is described slot by slot.
\<close>

definition resumed :: "nat \<Rightarrow> usize \<Rightarrow> procs \<Rightarrow> procs \<Rightarrow> bool" where
  "resumed cpu frame s s' \<longleftrightarrow> CURRENT s' = CURRENT s \<and>
     rq_items (run_queue (table s')) = rq_items (run_queue (table s)) \<and>
     slots (table s') = (if CURRENT s ! cpu = INVALID_IDX then slots (table s)
       else (slots (table s))[CURRENT s ! cpu :=
         map_option (\<lambda>p. (saved frame p)\<lparr>p_state := Running, p_running_on := cpu\<rparr>) (slots (table s) ! (CURRENT s ! cpu))])"

definition requeued :: "process \<Rightarrow> process" where
  "requeued p = (if p_state p = Ready then p\<lparr>p_in_run_queue := True\<rparr> else p)"

definition dispatched :: "nat \<Rightarrow> process \<Rightarrow> process" where
  "dispatched cpu p = p\<lparr>p_state := Running, p_running_on := cpu, p_in_run_queue := False\<rparr>"

definition switched :: "nat \<Rightarrow> usize \<Rightarrow> nat \<Rightarrow> nat \<Rightarrow> procs \<Rightarrow> procs \<Rightarrow> bool" where
  "switched cpu frame k i s s' \<longleftrightarrow>
     (let its = rq_items (run_queue (table s)); cur = CURRENT s ! cpu; old = slots (table s) in
       k < length its \<and> i = its ! k \<and> runnable (old ! i) \<and> (\<forall>j<k. \<not> runnable (old ! (its ! j))) \<and> cur \<noteq> i \<and>
       CURRENT s' = (CURRENT s)[cpu := i] \<and>
       (if cur = INVALID_IDX
        then slots (table s') = old[i := map_option (dispatched cpu) (old ! i)] \<and>
          rq_items (run_queue (table s')) = drop (Suc k) its @ take k its
        else slots (table s') = old[cur := map_option (\<lambda>p. requeued (saved frame p)) (old ! cur), i := map_option (dispatched cpu) (old ! i)] \<and>
          rq_items (run_queue (table s')) =
            drop (Suc k) its @ take k its @ (if p_state (saved frame (the (old ! cur))) = Ready then [cur] else [])))"

lemma save_any:
  assumes inv: "sched_inv s" and cpu: "cpu < MAX_CPUS"
  obtains t1 where "save_current frame (CURRENT s ! cpu) (table s) = Inr t1" "queue_inv t1" "run_queue t1 = run_queue (table s)"
    "slots t1 = (if CURRENT s ! cpu = INVALID_IDX then slots (table s)
       else (slots (table s))[CURRENT s ! cpu := map_option (saved frame) (slots (table s) ! (CURRENT s ! cpu))])"
    "\<forall>i\<in>set (rq_items (run_queue (table s))). i \<noteq> CURRENT s ! cpu \<and> slots t1 ! i = slots (table s) ! i"
proof (cases "CURRENT s ! cpu = INVALID_IDX")
  case True
  have "\<forall>i\<in>set (rq_items (run_queue (table s))). i \<noteq> INVALID_IDX"
    using inv INVALID_IDX_ge by (auto simp: sched_inv_def queue_inv_def)
  with True inv show ?thesis by (intro that [of "table s"]) (auto simp: save_current_def on_slot_def sched_inv_def)
next
  case False
  from sched_inv_current [OF inv cpu False] obtain p where
    p: "slots (table s) ! (CURRENT s ! cpu) = Some p" "\<not> p_in_run_queue p" by blast
  have "CURRENT s ! cpu \<notin> set (rq_items (run_queue (table s)))"
    using inv p by (auto simp: sched_inv_def queue_inv_def)
  then have "\<forall>i\<in>set (rq_items (run_queue (table s))). CURRENT s ! cpu \<noteq> i" by auto
  with save_inv [OF inv cpu False p(1), of frame] False p show ?thesis
    by (intro that [of "(table s)\<lparr>slots := (slots (table s))[CURRENT s ! cpu := Some (saved frame p)]\<rparr>"]) auto
qed

lemma schedule_resumed:
  assumes inv: "sched_inv s" and cpu: "cpu < MAX_CPUS"
    and none: "\<forall>i\<in>set (rq_items (run_queue (table s))). \<not> runnable (slots (table s) ! i)"
  shows "\<exists>s'. schedule_from_irq cpu frame (s, regs) = Inr ((s', regs), frame) \<and> sched_inv s' \<and> resumed cpu frame s s'"
proof -
  let ?cur = "CURRENT s ! cpu"
  note len = sched_inv_lengths [OF inv]
  obtain t1 where t1: "save_current frame ?cur (table s) = Inr t1" "queue_inv t1" "run_queue t1 = run_queue (table s)"
    "slots t1 = (if ?cur = INVALID_IDX then slots (table s) else (slots (table s))[?cur := map_option (saved frame) (slots (table s) ! ?cur)])"
    "\<forall>i\<in>set (rq_items (run_queue (table s))). i \<noteq> ?cur \<and> slots t1 ! i = slots (table s) ! i"
    using save_any [OF inv cpu] by blast
  from dequeue_spec [OF t1(2)] obtain t2 r where dq: "dequeue_next_runnable t1 = Inr (t2, r)"
    and post: "dequeue_post (length (rq_items (run_queue t1))) (rq_items (run_queue t1)) (slots t1) t2 r" by blast
  have r: "r = None"
  proof (rule ccontr)
    assume "r \<noteq> None"
    then obtain i k where "k < length (rq_items (run_queue t1))" "i = rq_items (run_queue t1) ! k" "runnable (slots t1 ! i)"
      using post by (auto simp: dequeue_post_def)
    with none t1(3,5) show False by (metis nth_mem)
  qed
  from dequeue_none_inv [OF t1(2) post [unfolded this]] have q2: "queue_inv t2" "slots t2 = slots t1" "rq_items (run_queue t2) = rq_items (run_queue t1)"
    by simp_all
  show ?thesis
  proof (cases "?cur = INVALID_IDX")
    case True
    let ?s = "s\<lparr>table := t2\<rparr>"
    have "schedule_from_irq cpu frame (s, regs) = Inr ((?s, regs), frame)"
      using cpu len t1(1) dq r True by (simp add: schedule_from_irq_def resume_current_def on_slot_def)
    moreover have "sched_inv ?s"
      using inv q2 t1(4) True by (simp add: sched_inv_def current_inv_def)
    moreover have "resumed cpu frame s ?s" using q2 t1(3,4) True by (simp add: resumed_def)
    ultimately show ?thesis by blast
  next
    case False
    from sched_inv_current [OF inv cpu False] obtain p where
      p: "?cur < MAX_PROCS" "slots (table s) ! ?cur = Some p" "p_running_on p = cpu" "\<not> p_in_run_queue p" by blast
    let ?p = "(saved frame p)\<lparr>p_state := Running, p_running_on := cpu\<rparr>"
    let ?t = "t2\<lparr>slots := (slots (table s))[?cur := Some ?p]\<rparr>" and ?s = "s\<lparr>table := t2\<lparr>slots := (slots (table s))[?cur := Some ?p]\<rparr>\<rparr>"
    have sl: "slots t2 = (slots (table s))[?cur := Some (saved frame p)]" using q2 t1(4) False p by simp
    have "resume_current cpu ?cur t2 = Inr ?t"
      using False p len sl by (simp add: resume_current_def on_slot_some)
    then have "schedule_from_irq cpu frame (s, regs) = Inr ((?s, regs), frame)"
      using cpu len t1(1) dq r by (simp add: schedule_from_irq_def)
    moreover have "queue_inv ?t"
      using queue_inv_slot [OF q2(1) p(1), of "saved frame p" ?p] sl p len by simp
    moreover have "current_inv ?s"
    proof (rule current_inv_update [of s cpu])
      show "current_inv s" using inv by (simp add: sched_inv_def)
      show "slots (table ?s) ! (CURRENT s ! c) = slots (table s) ! (CURRENT s ! c)"
        if "c < MAX_CPUS" "c \<noteq> cpu" "CURRENT s ! c \<noteq> INVALID_IDX" for c
        using other_current [OF inv that p(2)] p(3) by simp
    qed (use cpu p len in auto)
    moreover have "resumed cpu frame s ?s" using q2 t1(3) False p by (simp add: resumed_def)
    ultimately show ?thesis by (auto simp: sched_inv_def)
  qed
qed

lemma dispatch_inv:
  assumes "queue_inv t" "i < MAX_PROCS" "slots t ! i = Some p" "\<not> p_in_run_queue p"
  shows "dispatch cpu i t = Inr (t\<lparr>slots := (slots t)[i := Some (dispatched cpu p)]\<rparr>)"
    and "queue_inv (t\<lparr>slots := (slots t)[i := Some (dispatched cpu p)]\<rparr>)"
proof -
  show "dispatch cpu i t = Inr (t\<lparr>slots := (slots t)[i := Some (dispatched cpu p)]\<rparr>)"
    using assms INVALID_IDX_ge [OF assms(2)] by (simp add: dispatch_def on_slot_some dispatched_def queue_inv_def)
  show "queue_inv (t\<lparr>slots := (slots t)[i := Some (dispatched cpu p)]\<rparr>)"
    using assms queue_inv_slot [OF assms(1-3), of "dispatched cpu p"] by (simp add: dispatched_def)
qed

lemma dispatched_unqueue: "dispatched cpu (unqueue p) = dispatched cpu p"
  by (simp add: dispatched_def unqueue_def)

text \<open>The queue before the switch, and what the dequeue of the saved table does to it.\<close>

lemma dequeue_after_save:
  assumes inv: "sched_inv s" and cpu: "cpu < MAX_CPUS"
    and k: "k < length (rq_items (run_queue (table s)))" "i = rq_items (run_queue (table s)) ! k" "runnable (slots (table s) ! i)"
      "\<forall>j<k. \<not> runnable (slots (table s) ! (rq_items (run_queue (table s)) ! j))"
  obtains t1 t2 p where "save_current frame (CURRENT s ! cpu) (table s) = Inr t1" "dequeue_next_runnable t1 = Inr (t2, Some i)"
    "queue_inv t2" "i < MAX_PROCS" "i \<noteq> CURRENT s ! cpu" "slots (table s) ! i = Some p" "p_running_on p = CPU_NONE"
    "slots t2 = (if CURRENT s ! cpu = INVALID_IDX then slots (table s)
       else (slots (table s))[CURRENT s ! cpu := map_option (saved frame) (slots (table s) ! (CURRENT s ! cpu))])[i := Some (unqueue p)]"
    "rq_items (run_queue t2) = drop (Suc k) (rq_items (run_queue (table s))) @ take k (rq_items (run_queue (table s)))"
proof -
  let ?its = "rq_items (run_queue (table s))"
  obtain t1 where t1: "save_current frame (CURRENT s ! cpu) (table s) = Inr t1" "queue_inv t1" "run_queue t1 = run_queue (table s)"
    "slots t1 = (if CURRENT s ! cpu = INVALID_IDX then slots (table s)
       else (slots (table s))[CURRENT s ! cpu := map_option (saved frame) (slots (table s) ! (CURRENT s ! cpu))])"
    "\<forall>i\<in>set ?its. i \<noteq> CURRENT s ! cpu \<and> slots t1 ! i = slots (table s) ! i"
    using save_any [OF inv cpu] by blast
  have mem: "j \<le> k \<Longrightarrow> ?its ! j \<in> set ?its" for j using k(1) by (intro nth_mem) simp
  from dequeue_spec [OF t1(2)] obtain t2 r where dq: "dequeue_next_runnable t1 = Inr (t2, r)"
    and post: "dequeue_post (length ?its) ?its (slots t1) t2 r" using t1(3) by auto
  have run: "runnable (slots t1 ! (?its ! j)) \<longleftrightarrow> runnable (slots (table s) ! (?its ! j))" if "j < length ?its" for j
    using t1(5) nth_mem [OF that] by simp
  have "r = Some i \<and> rq_items (run_queue t2) = drop (Suc k) ?its @ take k ?its"
  proof (cases r)
    case None
    then have "\<not> runnable (slots t1 ! i)" using post k(1,2) nth_mem [OF k(1)] by (simp add: dequeue_post_def)
    then show ?thesis using run [OF k(1)] k(2,3) by simp
  next
    case (Some j)
    then obtain l where l: "l < length ?its" "j = ?its ! l" "runnable (slots t1 ! j)" "\<forall>m<l. \<not> runnable (slots t1 ! (?its ! m))"
      "rq_items (run_queue t2) = drop (Suc l) ?its @ take l ?its" using post by (auto simp: dequeue_post_def)
    have "\<not> l < k" using run [OF l(1)] l(2,3) k(4) by auto
    moreover have "\<not> k < l" using run [OF k(1)] k(2,3) l(4) by auto
    ultimately have "l = k" by simp
    with l k(2) Some show ?thesis by simp
  qed
  then have r: "r = Some i" and its2: "rq_items (run_queue t2) = drop (Suc k) ?its @ take k ?its" by auto
  from dequeue_some_inv [OF t1(2), of t2 i] post r t1(3) obtain p where
    p: "queue_inv t2" "i < MAX_PROCS" "slots t1 ! i = Some p" "p_running_on p = CPU_NONE" "slots t2 = (slots t1)[i := Some (unqueue p)]"
    by auto
  have "i \<noteq> CURRENT s ! cpu" "slots t1 ! i = slots (table s) ! i" using t1(5) mem [of k] k(2) by auto
  with p t1(1,4) dq r its2 show ?thesis by (intro that [of t1 t2 p]) simp_all
qed

lemma switched_current_inv:
  assumes inv: "sched_inv s" and cpu: "cpu < MAX_CPUS" and i: "i < MAX_PROCS" "slots (table s) ! i = Some p" "p_running_on p = CPU_NONE"
    and sl: "\<And>j. j \<noteq> i \<Longrightarrow> j \<noteq> CURRENT s ! cpu \<Longrightarrow> slots t ! j = slots (table s) ! j" "slots t ! i = Some (dispatched cpu p)"
  shows "current_inv (s\<lparr>table := t, CURRENT := (CURRENT s)[cpu := i]\<rparr>)"
proof (rule current_inv_update [of s cpu])
  show "current_inv s" using inv by (simp add: sched_inv_def)
  note len = sched_inv_lengths [OF inv]
  show "length (CURRENT (s\<lparr>table := t, CURRENT := (CURRENT s)[cpu := i]\<rparr>)) = MAX_CPUS" using len by simp
  show "slots (table (s\<lparr>table := t, CURRENT := (CURRENT s)[cpu := i]\<rparr>)) ! (CURRENT s ! c) = slots (table s) ! (CURRENT s ! c)"
    if c: "c < MAX_CPUS" "c \<noteq> cpu" "CURRENT s ! c \<noteq> INVALID_IDX" for c
  proof -
    have "CURRENT s ! c \<noteq> i" using other_current [OF inv c i(2)] i(3) by simp
    moreover have "CURRENT s ! c \<noteq> CURRENT s ! cpu"
    proof
      assume eq: "CURRENT s ! c = CURRENT s ! cpu"
      with c sched_inv_current [OF inv cpu] obtain q where "slots (table s) ! (CURRENT s ! cpu) = Some q" "p_running_on q = cpu"
        by metis
      with eq other_current [OF inv c, of "CURRENT s ! cpu" q] show False by simp
    qed
    ultimately show ?thesis using sl(1) by simp
  qed
qed (use cpu i sl(2) sched_inv_lengths [OF inv] in \<open>simp_all add: dispatched_def\<close>)

lemma schedule_switched:
  assumes inv: "sched_inv s" and cpu: "cpu < MAX_CPUS"
    and k: "k < length (rq_items (run_queue (table s)))" "i = rq_items (run_queue (table s)) ! k" "runnable (slots (table s) ! i)"
      "\<forall>j<k. \<not> runnable (slots (table s) ! (rq_items (run_queue (table s)) ! j))"
  shows "\<exists>s' p. schedule_from_irq cpu frame (s, regs) = Inr ((s', set_ttbr0 (p_ttbr0 p) regs), p_context_sp p) \<and>
    slots (table s) ! i = Some p \<and> sched_inv s' \<and> switched cpu frame k i s s'"
proof -
  let ?cur = "CURRENT s ! cpu" and ?its = "rq_items (run_queue (table s))" and ?old = "slots (table s)"
  note len = sched_inv_lengths [OF inv]
  obtain t1 t2 p where t1: "save_current frame ?cur (table s) = Inr t1" "dequeue_next_runnable t1 = Inr (t2, Some i)"
    and t2: "queue_inv t2" "i < MAX_PROCS" "i \<noteq> ?cur" "?old ! i = Some p" "p_running_on p = CPU_NONE"
      "slots t2 = (if ?cur = INVALID_IDX then ?old else ?old[?cur := map_option (saved frame) (?old ! ?cur)])[i := Some (unqueue p)]"
      "rq_items (run_queue t2) = drop (Suc k) ?its @ take k ?its"
    using dequeue_after_save [OF inv cpu k] by blast
  have i2: "slots t2 ! i = Some (unqueue p)" using t2(2,6) len by simp
  obtain t3 where t3: "requeue_current ?cur t2 = Inr t3" "queue_inv t3" "slots t3 ! i = Some (unqueue p)"
    "slots t3 = (if ?cur = INVALID_IDX then ?old[i := Some (unqueue p)]
       else ?old[?cur := map_option (\<lambda>p. requeued (saved frame p)) (?old ! ?cur), i := Some (unqueue p)])"
    "rq_items (run_queue t3) = drop (Suc k) ?its @ take k ?its @
       (if ?cur \<noteq> INVALID_IDX \<and> p_state (saved frame (the (?old ! ?cur))) = Ready then [?cur] else [])"
  proof (cases "?cur = INVALID_IDX")
    case True
    with t2 i2 show ?thesis by (intro that [of t2]) (simp_all add: requeue_current_def)
  next
    case False
    from sched_inv_current [OF inv cpu False] obtain c where
      c: "?cur < MAX_PROCS" "?old ! ?cur = Some c" "\<not> p_in_run_queue c" by blast
    have "slots t2 ! ?cur = Some (saved frame c)" using False c t2(3,6) len by simp
    from requeue_inv [OF t2(1) c(1) this] c(3) obtain t3 where r: "requeue_current ?cur t2 = Inr t3" "queue_inv t3"
      "slots t3 = (slots t2)[?cur := Some (requeued (saved frame c))]"
      "rq_items (run_queue t3) = rq_items (run_queue t2) @ (if p_state (saved frame c) = Ready then [?cur] else [])"
      by (auto simp: requeued_def)
    then show ?thesis using False c t2 i2 len
      by (intro that [of t3]) (simp_all add: list_update_swap [of i ?cur])
  qed
  let ?t = "t3\<lparr>slots := (slots t3)[i := Some (dispatched cpu p)]\<rparr>"
  have "dispatch cpu i t3 = Inr ?t" and q: "queue_inv ?t"
    using dispatch_inv [OF t3(2) t2(2) t3(3), of cpu] by (simp_all add: dispatched_unqueue) (simp_all add: unqueue_def)
  moreover have "length (slots t3) = MAX_PROCS" using t3(2) by (simp add: queue_inv_def)
  ultimately have "schedule_from_irq cpu frame (s, regs) =
      Inr ((s\<lparr>table := ?t, CURRENT := (CURRENT s)[cpu := i]\<rparr>, set_ttbr0 (p_ttbr0 p) regs), p_context_sp p)"
    using cpu len t1 t2(2) i2 t3(1) t2(1) by (simp add: schedule_from_irq_def queue_inv_def dispatched_def)
  moreover have "current_inv (s\<lparr>table := ?t, CURRENT := (CURRENT s)[cpu := i]\<rparr>)"
    using t3(4) t2(2) len \<open>length (slots t3) = MAX_PROCS\<close>
    by (intro switched_current_inv [OF inv cpu t2(2,4,5)]) simp_all
  moreover have "switched cpu frame k i s (s\<lparr>table := ?t, CURRENT := (CURRENT s)[cpu := i]\<rparr>)"
    using k t2(3,4) t3(4,5) by (simp add: switched_def Let_def)
  ultimately show ?thesis using t2(4) q by (auto simp: sched_inv_def)
qed

lemma start_spec:
  assumes inv: "sched_inv s" and cpu: "cpu < MAX_CPUS"
    and k: "k < length (rq_items (run_queue (table s)))" "i = rq_items (run_queue (table s)) ! k" "runnable (slots (table s) ! i)"
      "\<forall>j<k. \<not> runnable (slots (table s) ! (rq_items (run_queue (table s)) ! j))"
  shows "\<exists>s' p. start_on_cpu cpu (s, regs) = Inr ((s', set_ttbr0 (p_ttbr0 p) regs), p_entry p, p_stack_top p) \<and>
    slots (table s) ! i = Some p \<and> sched_inv s' \<and> CURRENT s' = (CURRENT s)[cpu := i] \<and>
    slots (table s') = (slots (table s))[i := Some (dispatched cpu p)] \<and>
    rq_items (run_queue (table s')) = drop (Suc k) (rq_items (run_queue (table s))) @ take k (rq_items (run_queue (table s)))"
proof -
  let ?its = "rq_items (run_queue (table s))" and ?old = "slots (table s)"
  note len = sched_inv_lengths [OF inv]
  have qi: "queue_inv (table s)" using inv by (simp add: sched_inv_def)
  from dequeue_spec [OF qi] obtain t r where dq: "dequeue_next_runnable (table s) = Inr (t, r)"
    and post: "dequeue_post (length ?its) ?its ?old t r" by blast
  have "r = Some i \<and> rq_items (run_queue t) = drop (Suc k) ?its @ take k ?its"
  proof (cases r)
    case None
    then show ?thesis using post k(1-3) nth_mem [OF k(1)] by (simp add: dequeue_post_def)
  next
    case (Some j)
    then obtain l where l: "l < length ?its" "j = ?its ! l" "runnable (?old ! j)" "\<forall>m<l. \<not> runnable (?old ! (?its ! m))"
      "rq_items (run_queue t) = drop (Suc l) ?its @ take l ?its" using post by (auto simp: dequeue_post_def)
    then have "l = k" using k(2,3,4) by (metis nat_neq_iff)
    with l k(2) Some show ?thesis by simp
  qed
  then have r: "r = Some i" and its: "rq_items (run_queue t) = drop (Suc k) ?its @ take k ?its" by auto
  from dequeue_some_inv [OF qi, of t i] post r obtain p where
    p: "queue_inv t" "i < MAX_PROCS" "?old ! i = Some p" "p_running_on p = CPU_NONE" "slots t = ?old[i := Some (unqueue p)]"
    by auto
  have i: "slots t ! i = Some (unqueue p)" using p len by simp
  let ?t = "t\<lparr>slots := (slots t)[i := Some (dispatched cpu p)]\<rparr>"
  have d: "dispatch cpu i t = Inr ?t" and q: "queue_inv ?t"
    using dispatch_inv [OF p(1,2) i, of cpu] by (simp_all add: dispatched_unqueue) (simp_all add: unqueue_def)
  have lt: "length (slots t) = MAX_PROCS" using p(1) by (simp add: queue_inv_def)
  have "start_on_cpu cpu (s, regs) = Inr ((s\<lparr>table := ?t, CURRENT := (CURRENT s)[cpu := i]\<rparr>, set_ttbr0 (p_ttbr0 p) regs), p_entry p, p_stack_top p)"
    using cpu len dq r i d lt p(2) by (simp add: start_on_cpu_def dispatched_def)
  moreover have "current_inv (s\<lparr>table := ?t, CURRENT := (CURRENT s)[cpu := i]\<rparr>)"
    using p lt len by (intro switched_current_inv [OF inv cpu p(2,3,4)]) simp_all
  ultimately show ?thesis using p its q by (auto simp: sched_inv_def)
qed

lemma start_panics:
  assumes inv: "sched_inv s" and none: "\<forall>i\<in>set (rq_items (run_queue (table s))). \<not> runnable (slots (table s) ! i)"
  shows "start_on_cpu cpu (s, regs) = Inl Expect_Panic"
proof -
  have qi: "queue_inv (table s)" using inv by (simp add: sched_inv_def)
  from dequeue_spec [OF qi] obtain t r where dq: "dequeue_next_runnable (table s) = Inr (t, r)"
    and post: "dequeue_post (length (rq_items (run_queue (table s)))) (rq_items (run_queue (table s))) (slots (table s)) t r" by blast
  have "r = None"
  proof (cases r)
    case (Some j)
    then show ?thesis using post none by (auto simp: dequeue_post_def)
  qed
  with dq show ?thesis by (simp add: start_on_cpu_def)
qed

section \<open>The other operations\<close>

lemma first_none_some: "first_none xs = Some i \<Longrightarrow> i < length xs \<and> xs ! i = None \<and> (\<forall>j<i. xs ! j \<noteq> None)"
proof (induction xs arbitrary: i rule: first_none.induct)
  case (3 x rest)
  then obtain j where j: "first_none rest = Some j" "i = Suc j" by auto
  with 3 show ?case by (auto simp: less_Suc_eq_0_disj)
qed auto

lemma first_none_none: "first_none xs = None \<Longrightarrow> None \<notin> set xs"
  by (induction xs rule: first_none.induct) auto

lemma find_pid_some: "find_pid xs pid = Some i \<Longrightarrow> i < length xs \<and> (\<exists>p. xs ! i = Some p \<and> p_id p = pid)"
  by (induction xs pid arbitrary: i rule: find_pid.induct) (auto split: if_splits)

lemma find_pid_none: "find_pid xs pid = None \<Longrightarrow> Some p \<in> set xs \<Longrightarrow> p_id p \<noteq> pid"
  by (induction xs pid rule: find_pid.induct) (auto split: if_splits)

text \<open>An operation that rewrites one process and leaves its scheduling fields alone.\<close>

definition keeps_sched :: "(process \<Rightarrow> process) \<Rightarrow> bool" where
  "keeps_sched f \<longleftrightarrow> (\<forall>p. p_running_on (f p) = p_running_on p \<and> p_in_run_queue (f p) = p_in_run_queue p)"

lemma sched_inv_slot:
  assumes inv: "sched_inv s" and f: "keeps_sched f"
  shows "sched_inv (s\<lparr>table := (table s)\<lparr>slots := (slots (table s))[i := map_option f (slots (table s) ! i)]\<rparr>\<rparr>)"
proof (cases "i < MAX_PROCS")
  case False
  then have "(slots (table s))[i := map_option f (slots (table s) ! i)] = slots (table s)"
    using sched_inv_lengths [OF inv] by (simp add: list_update_beyond)
  with inv show ?thesis by (simp add: sched_inv_def queue_inv_def current_inv_def)
next
  case True
  let ?sl = "(slots (table s))[i := map_option f (slots (table s) ! i)]"
  note len = sched_inv_lengths [OF inv]
  have view: "(\<exists>p. ?sl ! j = Some p \<and> P (p_running_on p) (p_in_run_queue p)) \<longleftrightarrow>
      (\<exists>p. slots (table s) ! j = Some p \<and> P (p_running_on p) (p_in_run_queue p))" for j P
    using f True len by (cases "j = i") (auto simp: keeps_sched_def)
  have "queue_inv ((table s)\<lparr>slots := ?sl\<rparr>)"
    using inv view [of _ "\<lambda>r q. q"] by (simp add: sched_inv_def queue_inv_def)
  moreover have "current_inv (s\<lparr>table := (table s)\<lparr>slots := ?sl\<rparr>\<rparr>)"
    using inv view [of _ "\<lambda>r q. r = c \<and> \<not> q" for c] by (simp add: sched_inv_def current_inv_def)
  ultimately show ?thesis by (simp add: sched_inv_def)
qed

lemma set_state_inv: "sched_inv s \<Longrightarrow> sched_inv (fst (set_state pid st s))"
  using sched_inv_slot [of s "\<lambda>p. p\<lparr>p_state := st\<rparr>"]
  by (auto simp: set_state_def update_slot_def keeps_sched_def split: option.splits)

lemma set_fd_inv: "sched_inv s \<Longrightarrow> sched_inv (fst (set_fd pid fd desc s))"
  using sched_inv_slot [of s "\<lambda>p. p\<lparr>p_fds := (p_fds p)[fd := desc]\<rparr>"]
  by (auto simp: set_fd_def update_slot_def keeps_sched_def split: option.splits)

lemma set_init_fd_inv: "sched_inv s \<Longrightarrow> sched_inv (set_init_fd fd desc s)"
  by (simp add: set_init_fd_def sched_inv_def current_inv_def)

lemma with_current_mut_inv:
  assumes "sched_inv s" "keeps_sched (\<lambda>p. fst (f p))" "with_current_mut cpu f s = Inr (s', r)"
  shows "sched_inv s'"
  using sched_inv_slot [OF assms(1,2), of "CURRENT s ! cpu"] assms(1,3)
  by (auto simp: with_current_mut_def res_simps split: if_splits option.splits prod.splits)

lemma alloc_fd_inv:
  assumes "sched_inv s" "alloc_fd_current cpu desc s = Inr (s', r)"
  shows "sched_inv s'"
proof -
  let ?f = "\<lambda>p. case first_none (p_fds p) of Some fd \<Rightarrow> (p\<lparr>p_fds := (p_fds p)[fd := Some desc]\<rparr>, Some fd) | None \<Rightarrow> (p, None)"
  from assms(2) obtain q where "with_current_mut cpu ?f s = Inr (s', q)"
    by (auto simp: alloc_fd_current_def res_simps)
  moreover have "keeps_sched (\<lambda>p. fst (?f p))" by (simp add: keeps_sched_def split: option.splits)
  ultimately show ?thesis using with_current_mut_inv [OF assms(1), of ?f] by blast
qed

lemma close_fd_inv:
  assumes "sched_inv s" "close_fd_current cpu fd s = Inr (s', r)"
  shows "sched_inv s'"
proof (cases "fd \<ge> MAX_FDS")
  case False
  let ?f = "\<lambda>p. (p\<lparr>p_fds := (p_fds p)[fd := None]\<rparr>, True)"
  from assms(2) False obtain q where "with_current_mut cpu ?f s = Inr (s', q)"
    by (auto simp: close_fd_current_def res_simps)
  moreover have "keeps_sched (\<lambda>p. fst (?f p))" by (simp add: keeps_sched_def)
  ultimately show ?thesis using with_current_mut_inv [OF assms(1), of ?f] by blast
qed (use assms in \<open>simp add: close_fd_current_def\<close>)

lemma create_inv:
  assumes inv: "sched_inv s"
  shows "sched_inv (fst (create_with_mode env name entry stack_top mode parent s))"
proof (cases "first_none (slots (table s))")
  case None
  then show ?thesis using inv by (simp add: create_with_mode_def)
next
  case (Some idx)
  note len = sched_inv_lengths [OF inv]
  from first_none_some [OF Some] len have idx: "idx < MAX_PROCS" "slots (table s) ! idx = None" by auto
  have qi: "queue_inv (table s)" using inv by (simp add: sched_inv_def)
  have notin: "idx \<notin> set (rq_items (run_queue (table s)))" using qi idx by (auto simp: queue_inv_def)
  have "card (set (rq_items (run_queue (table s)))) \<le> card ({..<MAX_PROCS} - {idx})"
    using qi notin by (intro card_mono) (auto simp: queue_inv_def)
  then have room: "length (rq_items (run_queue (table s))) < MAX_PROCS"
    using qi idx(1) by (simp add: queue_inv_def distinct_card)
  have "rq_ok (run_queue (table s))" using qi by (simp add: queue_inv_def)
  note q = rq.push_room [OF this room, of idx]
  obtain s' p where c: "fst (create_with_mode env name entry stack_top mode parent s) = s'"
    and s': "slots (table s') = (slots (table s))[idx := Some p]" "run_queue (table s') = rq_push (run_queue (table s)) idx"
      "CURRENT s' = CURRENT s" "p_in_run_queue p"
    using Some by (simp add: create_with_mode_def alloc_pid_def init_context_def Let_def)
  have "queue_inv (table s')"
    using qi q idx notin len s' by (auto simp: queue_inv_def nth_list_update)
  moreover have "CURRENT s ! c \<noteq> idx" if "c < MAX_CPUS" "CURRENT s ! c \<noteq> INVALID_IDX" for c
    using sched_inv_current [OF inv that] idx(2) by (metis option.distinct(1))
  then have same: "slots (table s') ! (CURRENT s ! c) = slots (table s) ! (CURRENT s ! c)"
    if "c < MAX_CPUS" "CURRENT s ! c \<noteq> INVALID_IDX" for c
    using that s'(1) by (metis nth_list_update_neq)
  have "current_inv s'"
    using inv s'(3) same by (simp add: sched_inv_def current_inv_def)
  ultimately show ?thesis unfolding c by (simp add: sched_inv_def)
qed

section \<open>The system of all CPUs\<close>

inductive proc_step :: "proc_env \<Rightarrow> procs \<Rightarrow> procs \<Rightarrow> bool" for env where
  ps_create: "proc_step env s (fst (create_with_mode env name entry stack_top mode parent s))"
| ps_tick: "cpu < MAX_CPUS \<Longrightarrow> schedule_from_irq cpu frame (s, regs) = Inr ((s', regs'), r) \<Longrightarrow> proc_step env s s'"
| ps_start: "cpu < MAX_CPUS \<Longrightarrow> start_on_cpu cpu (s, regs) = Inr ((s', regs'), r) \<Longrightarrow> proc_step env s s'"
| ps_set_state: "proc_step env s (fst (set_state pid st s))"
| ps_set_fd: "proc_step env s (fst (set_fd pid fd desc s))"
| ps_set_init_fd: "proc_step env s (set_init_fd fd desc s)"
| ps_alloc_fd: "alloc_fd_current cpu desc s = Inr (s', r) \<Longrightarrow> proc_step env s s'"
| ps_close_fd: "close_fd_current cpu fd s = Inr (s', r) \<Longrightarrow> proc_step env s s'"

text \<open>Either nothing in the queue is runnable, or there is a first runnable process.\<close>

lemma queue_cases:
  obtains (idle) "\<forall>i\<in>set its. \<not> runnable (sl ! i)"
  | (first) k where "k < length its" "runnable (sl ! (its ! k))" "\<forall>j<k. \<not> runnable (sl ! (its ! j))"
proof (cases "\<exists>k<length its. runnable (sl ! (its ! k))")
  case True
  then have "\<exists>k. k < length its \<and> runnable (sl ! (its ! k))" by blast
  from exists_least_iff [THEN iffD1, OF this] show ?thesis using first by (meson less_trans)
next
  case False
  then show ?thesis using idle by (metis in_set_conv_nth)
qed

lemma tick_ok:
  assumes inv: "sched_inv s" and cpu: "cpu < MAX_CPUS"
  shows "\<exists>s' regs' r. schedule_from_irq cpu frame (s, regs) = Inr ((s', regs'), r) \<and> sched_inv s' \<and>
    (resumed cpu frame s s' \<and> r = frame \<and> regs' = regs \<or>
     (\<exists>k i p. switched cpu frame k i s s' \<and> slots (table s) ! i = Some p \<and> r = p_context_sp p \<and> regs' = set_ttbr0 (p_ttbr0 p) regs))"
proof (cases rule: queue_cases [of "rq_items (run_queue (table s))" "slots (table s)"])
  case idle
  from schedule_resumed [OF inv cpu this] show ?thesis by blast
next
  case (first k)
  from schedule_switched [OF inv cpu first(1) refl first(2,3), of frame regs] show ?thesis by blast
qed

lemma start_inv:
  assumes inv: "sched_inv s" and cpu: "cpu < MAX_CPUS" and st: "start_on_cpu cpu (s, regs) = Inr ((s', regs'), r)"
  shows "sched_inv s'"
proof (cases rule: queue_cases [of "rq_items (run_queue (table s))" "slots (table s)"])
  case idle
  from start_panics [OF inv this, of cpu regs] st show ?thesis by simp
next
  case (first k)
  from start_spec [OF inv cpu first(1) refl first(2,3), of regs] st show ?thesis by auto
qed

lemma proc_init_inv: "sched_inv (proc_init s)"
  by (auto simp: sched_inv_def queue_inv_def current_inv_def proc_init_def table_new_def)

lemma proc_step_inv: "proc_step env s t \<Longrightarrow> sched_inv s \<Longrightarrow> sched_inv t"
proof (induction rule: proc_step.induct)
  case (ps_tick cpu frame s regs s' regs' r)
  with tick_ok [OF ps_tick.prems ps_tick.hyps(1), of frame regs] show ?case by auto
next
  case (ps_start cpu s regs s' regs' r)
  then show ?case using start_inv by blast
qed (auto intro: create_inv set_state_inv set_fd_inv set_init_fd_inv alloc_fd_inv close_fd_inv)

interpretation sched: invariant_system "\<lambda>s. \<exists>s0. s = proc_init s0" "proc_step env" sched_inv for env
  by unfold_locales (use proc_init_inv proc_step_inv in blast)+

section \<open>Properties\<close>

text \<open>
  C2. No process runs on two CPUs: in every state reached by any interleaving of process creation,
  timer ticks, CPU starts, state changes and descriptor operations, distinct CPUs have distinct current
  processes, a running process is not in the run queue, and no process is queued twice.
\<close>

theorem no_process_on_two_cpus:
  assumes "reachable (\<lambda>s. \<exists>s0. s = proc_init s0) (proc_step env) s"
    and "c < MAX_CPUS" and "CURRENT s ! c \<noteq> INVALID_IDX"
  shows "(\<forall>c'<MAX_CPUS. c' \<noteq> c \<longrightarrow> CURRENT s ! c' \<noteq> CURRENT s ! c) \<and>
    CURRENT s ! c \<notin> set (rq_items (run_queue (table s))) \<and> distinct (rq_items (run_queue (table s)))"
proof -
  have inv: "sched_inv s" using assms(1) by (rule sched.reachable_inv)
  from sched_inv_current [OF inv assms(2,3)] obtain p where
    p: "slots (table s) ! (CURRENT s ! c) = Some p" "p_running_on p = c" "\<not> p_in_run_queue p" by blast
  have "CURRENT s ! c' \<noteq> CURRENT s ! c" if "c' < MAX_CPUS" "c' \<noteq> c" for c'
    using other_current [OF inv that, of "CURRENT s ! c" p] p(1,2) assms(3) by metis
  moreover have "queue_inv (table s)" using inv by (simp add: sched_inv_def)
  then have "CURRENT s ! c \<notin> set (rq_items (run_queue (table s)))" "distinct (rq_items (run_queue (table s)))"
    using queue_inv_unqueued p by (auto simp: queue_inv_def)
  ultimately show ?thesis by blast
qed

definition demo_env :: proc_env where
  "demo_env = \<lparr>stacks_addr = 0x100000, env_user_root_pa = 0x102000\<rparr>"

definition no_procs :: procs where
  "no_procs = \<lparr>table = table_new, CURRENT = replicate MAX_CPUS INVALID_IDX, INIT_FDS = replicate MAX_FDS None, stack_frames = (\<lambda>_. None)\<rparr>"

definition cold_regs :: mmu_regs where
  "cold_regs = \<lparr>sctlr_el1 = 0, mair_el1 = 0, tcr_el1 = 0, ttbr0_el1 = 0, ttbr1_el1 = 0\<rparr>"

text \<open>A process table with one process, created on a CPU that runs nothing, and then started on CPU 0.\<close>

definition one_proc :: procs where
  "one_proc = fst (create_with_mode demo_env ''shell'' 0x80000 0 User None (proc_init no_procs))"

lemma one_proc_reachable: "reachable (\<lambda>s. \<exists>s0. s = proc_init s0) (proc_step demo_env) one_proc"
proof -
  have "reachable (\<lambda>s. \<exists>s0. s = proc_init s0) (proc_step demo_env) (proc_init no_procs)"
    by (rule reachable_init) blast
  then show ?thesis unfolding one_proc_def by (rule reachable_step) (rule ps_create)
qed

lemma one_proc_inv: "sched_inv one_proc"
  by (rule sched.reachable_inv [OF one_proc_reachable])

lemma one_proc_queue: "rq_items (run_queue (table one_proc)) = [0] \<and> runnable (slots (table one_proc) ! 0) \<and> CURRENT one_proc = replicate MAX_CPUS INVALID_IDX"
proof -
  have "first_none (slots (table (proc_init no_procs))) = Some 0"
    by (simp add: proc_init_def table_new_def MAX_PROCS_def numeral_eq_Suc)
  moreover have "rq_items (rq_push rq_new 0) = [0]"
    using rq.push_room [OF rq_ok_new, of 0] by (simp add: MAX_PROCS_def)
  ultimately show ?thesis
    by (simp add: one_proc_def create_with_mode_def proc_init_def table_new_def alloc_pid_def init_context_def Let_def
        runnable_def MAX_PROCS_def)
qed

theorem no_process_on_two_cpus_witness:
  "\<exists>s :: procs. CURRENT s ! 0 = 0 \<and> CURRENT s ! 1 \<noteq> 0 \<and> 0 \<notin> set (rq_items (run_queue (table s)))"
proof -
  obtain s regs r where st: "start_on_cpu 0 (one_proc, cold_regs) = Inr ((s, regs), r)"
    and cur: "CURRENT s = (CURRENT one_proc)[0 := 0]"
    using start_spec [OF one_proc_inv, of 0 0 0 cold_regs] one_proc_queue by (auto simp: MAX_CPUS_def)
  have "reachable (\<lambda>s. \<exists>s0. s = proc_init s0) (proc_step demo_env) s"
    using one_proc_reachable ps_start [OF _ st] by (auto simp: MAX_CPUS_def intro: reachable_step)
  moreover have c0: "CURRENT s ! 0 = 0" "0 \<noteq> INVALID_IDX" using cur one_proc_queue by (simp_all add: MAX_CPUS_def INVALID_IDX_def)
  ultimately have "\<forall>c'<MAX_CPUS. c' \<noteq> 0 \<longrightarrow> CURRENT s ! c' \<noteq> 0" "0 \<notin> set (rq_items (run_queue (table s)))"
    using no_process_on_two_cpus [of demo_env s 0] by (auto simp: MAX_CPUS_def)
  with c0 show ?thesis by (intro exI [of _ s]) (simp add: MAX_CPUS_def)
qed

text \<open>
  C15. A timer tick never panics and always has something to return to: in every reachable state, on
  every CPU, \<open>schedule_from_irq\<close> returns either the interrupted frame, with the current process running
  again, or the saved context of the first runnable process of the queue, which is then current, with
  the user page tables switched to its own.
\<close>

theorem timer_tick_returns:
  assumes "reachable (\<lambda>s. \<exists>s0. s = proc_init s0) (proc_step env) s" and "cpu < MAX_CPUS"
  shows "\<exists>s' regs' r. schedule_from_irq cpu frame (s, regs) = Inr ((s', regs'), r) \<and>
    (r = frame \<and> CURRENT s' = CURRENT s \<and> regs' = regs \<and>
       (\<forall>i\<in>set (rq_items (run_queue (table s))). \<not> runnable (slots (table s) ! i)) \<or>
     (\<exists>k p. k < length (rq_items (run_queue (table s))) \<and> CURRENT s' ! cpu = rq_items (run_queue (table s)) ! k \<and>
       slots (table s) ! (CURRENT s' ! cpu) = Some p \<and> runnable (Some p) \<and>
       (\<forall>j<k. \<not> runnable (slots (table s) ! (rq_items (run_queue (table s)) ! j))) \<and>
       r = p_context_sp p \<and> ttbr0_el1 regs' = p_ttbr0 p))"
proof -
  have inv: "sched_inv s" using assms(1) by (rule sched.reachable_inv)
  note len = sched_inv_lengths [OF inv]
  show ?thesis
  proof (cases rule: queue_cases [of "rq_items (run_queue (table s))" "slots (table s)"])
    case idle
    from schedule_resumed [OF inv assms(2) this, of frame regs] idle show ?thesis by (auto simp: resumed_def)
  next
    case (first k)
    from schedule_switched [OF inv assms(2) first(1) refl first(2,3), of frame regs] obtain s' p where
      s': "schedule_from_irq cpu frame (s, regs) = Inr ((s', set_ttbr0 (p_ttbr0 p) regs), p_context_sp p)"
        "slots (table s) ! (rq_items (run_queue (table s)) ! k) = Some p"
        "switched cpu frame k (rq_items (run_queue (table s)) ! k) s s'" by blast
    then have "CURRENT s' ! cpu = rq_items (run_queue (table s)) ! k" using len assms(2) by (simp add: switched_def Let_def)
    with s'(1,2) first show ?thesis by (auto simp: set_ttbr0_def)
  qed
qed

theorem timer_tick_returns_witness:
  "\<exists>s' regs' r p. schedule_from_irq 2 0x9000 (one_proc, cold_regs) = Inr ((s', regs'), r) \<and> CURRENT s' ! 2 = 0 \<and>
     slots (table one_proc) ! 0 = Some p \<and> r = p_context_sp p"
  using timer_tick_returns [OF one_proc_reachable, of 2 "0x9000" cold_regs] one_proc_queue
  by (auto simp: MAX_CPUS_def)

end
