(* ===== verification/Fairness.thy ===== *)
theory Fairness
  imports Scheduler
begin

text \<open>
  Progress of the scheduler. The kernel itself never calls \<open>set_state\<close>; under creation, CPU start and
  timer ticks alone every process is either queued and ready or running on the CPU that has it as
  current (\<open>live_inv\<close>), so a tick takes the head of the queue and the queue is served in order. The
  last section shows what \<open>set_state\<close> breaks.
\<close>

section \<open>Ready means queued, running means current\<close>

inductive live_step :: "proc_env \<Rightarrow> procs \<Rightarrow> procs \<Rightarrow> bool" for env where
  ls_create: "live_step env s (fst (create_with_mode env name entry stack_top mode parent s))"
| ls_tick: "cpu < MAX_CPUS \<Longrightarrow> schedule_from_irq cpu frame (s, regs) = Inr ((s', regs'), r) \<Longrightarrow> live_step env s s'"
| ls_start: "cpu < MAX_CPUS \<Longrightarrow> CURRENT s ! cpu = INVALID_IDX \<Longrightarrow>
    start_on_cpu cpu (s, regs) = Inr ((s', regs'), r) \<Longrightarrow> live_step env s s'"

definition placed :: "procs \<Rightarrow> nat \<Rightarrow> process \<Rightarrow> bool" where
  "placed s i p \<longleftrightarrow> (if p_in_run_queue p then p_state p = Ready \<and> p_running_on p = CPU_NONE
     else p_state p = Running \<and> p_running_on p < MAX_CPUS \<and> CURRENT s ! p_running_on p = i)"

definition live_inv :: "procs \<Rightarrow> bool" where
  "live_inv s \<longleftrightarrow> sched_inv s \<and> (\<forall>i<MAX_PROCS. \<forall>p. slots (table s) ! i = Some p \<longrightarrow> placed s i p)"

lemma live_queue_runnable:
  "live_inv s \<Longrightarrow> i \<in> set (rq_items (run_queue (table s))) \<Longrightarrow> runnable (slots (table s) ! i)"
  by (auto simp: live_inv_def sched_inv_def queue_inv_def placed_def runnable_def)

lemma live_current:
  assumes "live_inv s" "cpu < MAX_CPUS" "CURRENT s ! cpu \<noteq> INVALID_IDX"
  obtains p where "CURRENT s ! cpu < MAX_PROCS" "slots (table s) ! (CURRENT s ! cpu) = Some p"
    "p_state p = Running" "p_running_on p = cpu" "\<not> p_in_run_queue p"
proof -
  have "sched_inv s" using assms(1) by (simp add: live_inv_def)
  from sched_inv_current [OF this assms(2,3)] obtain p where
    p: "CURRENT s ! cpu < MAX_PROCS" "slots (table s) ! (CURRENT s ! cpu) = Some p" "p_running_on p = cpu" "\<not> p_in_run_queue p" .
  moreover from this assms(1) have "p_state p = Running" by (auto simp: live_inv_def placed_def)
  ultimately show ?thesis using that by blast
qed

text \<open>A process that is not touched stays placed when one CPU changes its current process.\<close>

lemma placed_keep:
  assumes "placed s j p" "CURRENT s' = (CURRENT s)[cpu := i]" "j \<noteq> CURRENT s ! cpu"
  shows "placed s' j p"
  using assms by (cases "p_running_on p = cpu") (auto simp: placed_def)

lemma live_tick:
  assumes inv: "live_inv s" and cpu: "cpu < MAX_CPUS" and its: "rq_items (run_queue (table s)) = i # rest"
  shows "\<exists>s' regs' r. schedule_from_irq cpu frame (s, regs) = Inr ((s', regs'), r) \<and> live_inv s' \<and>
    CURRENT s' ! cpu = i \<and>
    rq_items (run_queue (table s')) = rest @ (if CURRENT s ! cpu = INVALID_IDX then [] else [CURRENT s ! cpu])"
proof -
  let ?cur = "CURRENT s ! cpu" and ?old = "slots (table s)"
  have si: "sched_inv s" using inv by (simp add: live_inv_def)
  note len = sched_inv_lengths [OF si]
  have run: "runnable (?old ! i)" using live_queue_runnable [OF inv, of i] its by simp
  have k0: "0 < length (rq_items (run_queue (table s)))" "i = rq_items (run_queue (table s)) ! 0"
    "\<forall>j<0. \<not> runnable (?old ! (rq_items (run_queue (table s)) ! j))" unfolding its by simp_all
  from schedule_switched [OF si cpu k0(1,2) run k0(3), of frame regs] obtain s' p where
    s': "schedule_from_irq cpu frame (s, regs) = Inr ((s', set_ttbr0 (p_ttbr0 p) regs), p_context_sp p)"
      "?old ! i = Some p" "sched_inv s'" and sw: "switched cpu frame 0 i s s'" by blast
  have cur': "CURRENT s' = (CURRENT s)[cpu := i]" and ne: "?cur \<noteq> i" using sw by (auto simp: switched_def Let_def)
  have i: "i < MAX_PROCS" using si its by (auto simp: sched_inv_def queue_inv_def)
  have c: "CURRENT s' ! cpu = i" using cur' len cpu by simp
  have pi: "placed s' i (dispatched cpu p)" using c cpu by (simp add: placed_def dispatched_def)
  show ?thesis
  proof (cases "?cur = INVALID_IDX")
    case True
    then have sl: "slots (table s') = ?old[i := Some (dispatched cpu p)]" and q: "rq_items (run_queue (table s')) = rest"
      using sw s'(2) its by (auto simp: switched_def Let_def)
    have "placed s' j q" if "j < MAX_PROCS" "slots (table s') ! j = Some q" for j q
    proof (cases "j = i")
      case False
      then have "placed s j q" using that sl inv by (simp add: live_inv_def)
      then show ?thesis using cur' by (rule placed_keep) (use True INVALID_IDX_ge [OF that(1)] in simp)
    qed (use that sl pi i len in simp)
    with s' True q c show ?thesis by (auto simp: live_inv_def)
  next
    case False
    obtain x where x: "?cur < MAX_PROCS" "?old ! ?cur = Some x" "p_state x = Running" "p_running_on x = cpu" "\<not> p_in_run_queue x"
      using live_current [OF inv cpu False] .
    let ?x = "requeued (saved frame x)"
    have sl: "slots (table s') = ?old[?cur := Some ?x, i := Some (dispatched cpu p)]"
      and q: "rq_items (run_queue (table s')) = rest @ [?cur]"
      using sw s'(2) its x False by (auto simp: switched_def Let_def)
    have px: "placed s' ?cur ?x" using x by (simp add: placed_def requeued_def saved_def Let_def)
    have "placed s' j q" if "j < MAX_PROCS" "slots (table s') ! j = Some q" for j q
    proof -
      consider "j = i" | "j \<noteq> i" "j = ?cur" | "j \<noteq> i" "j \<noteq> ?cur" by blast
      then show ?thesis
      proof cases
        case 3
        then have "placed s j q" using that sl inv by (simp add: live_inv_def)
        then show ?thesis using cur' 3(2) by (rule placed_keep)
      qed (use that sl pi px i x len in auto)
    qed
    with s' False q c show ?thesis by (auto simp: live_inv_def)
  qed
qed

lemma live_tick_idle:
  assumes inv: "live_inv s" and cpu: "cpu < MAX_CPUS" and its: "rq_items (run_queue (table s)) = []"
  shows "\<exists>s'. schedule_from_irq cpu frame (s, regs) = Inr ((s', regs), frame) \<and> live_inv s'"
proof -
  let ?cur = "CURRENT s ! cpu" and ?old = "slots (table s)"
  have si: "sched_inv s" using inv by (simp add: live_inv_def)
  from schedule_resumed [OF si cpu, of frame regs] its obtain s' where
    s': "schedule_from_irq cpu frame (s, regs) = Inr ((s', regs), frame)" "sched_inv s'" "resumed cpu frame s s'" by auto
  have "placed s' j q" if "j < MAX_PROCS" "slots (table s') ! j = Some q" for j q
  proof (cases "?cur = INVALID_IDX \<or> j \<noteq> ?cur")
    case True
    then have "?old ! j = Some q" "CURRENT s' = CURRENT s" using that s'(3) by (auto simp: resumed_def split: if_splits)
    with that inv show ?thesis by (simp add: live_inv_def placed_def)
  next
    case False
    then obtain x where x: "?cur < MAX_PROCS" "?old ! ?cur = Some x" "p_state x = Running" "p_running_on x = cpu" "\<not> p_in_run_queue x"
      using live_current [OF inv cpu] by blast
    with False that s'(3) sched_inv_lengths [OF si] cpu show ?thesis
      by (auto simp: resumed_def placed_def)
  qed
  with s' show ?thesis by (auto simp: live_inv_def)
qed

lemma live_start:
  assumes inv: "live_inv s" and cpu: "cpu < MAX_CPUS" and none: "CURRENT s ! cpu = INVALID_IDX"
    and st: "start_on_cpu cpu (s, regs) = Inr ((s', regs'), r)"
  shows "live_inv s'"
proof -
  have si: "sched_inv s" using inv by (simp add: live_inv_def)
  note len = sched_inv_lengths [OF si]
  show ?thesis
  proof (cases "rq_items (run_queue (table s))")
    case Nil
    then show ?thesis using start_panics [OF si, of cpu regs] st by simp
  next
    case (Cons i rest)
    have run: "runnable (slots (table s) ! i)" using live_queue_runnable [OF inv, of i] Cons by simp
    have i: "i < MAX_PROCS" using si Cons by (auto simp: sched_inv_def queue_inv_def)
    have k0: "0 < length (rq_items (run_queue (table s)))" "i = rq_items (run_queue (table s)) ! 0"
      "\<forall>j<0. \<not> runnable (slots (table s) ! (rq_items (run_queue (table s)) ! j))" unfolding Cons by simp_all
    from start_spec [OF si cpu k0(1,2) run k0(3), of regs] st obtain p where
      p: "sched_inv s'" "CURRENT s' = (CURRENT s)[cpu := i]" "slots (table s') = (slots (table s))[i := Some (dispatched cpu p)]" by auto
    have "placed s' j q" if "j < MAX_PROCS" "slots (table s') ! j = Some q" for j q
    proof (cases "j = i")
      case True
      then show ?thesis using that p i len cpu by (auto simp: placed_def dispatched_def)
    next
      case False
      then have "placed s j q" using that p inv by (simp add: live_inv_def)
      then show ?thesis using p(2) by (rule placed_keep) (use none INVALID_IDX_ge [OF that(1)] in simp)
    qed
    with p(1) show ?thesis by (simp add: live_inv_def)
  qed
qed

lemma live_create:
  assumes inv: "live_inv s"
  shows "live_inv (fst (create_with_mode env name entry stack_top mode parent s))"
proof (cases "first_none (slots (table s))")
  case None
  then show ?thesis using inv by (simp add: create_with_mode_def)
next
  case (Some idx)
  have si: "sched_inv s" using inv by (simp add: live_inv_def)
  from first_none_some [OF Some] have idx: "idx < length (slots (table s))" "slots (table s) ! idx = None" by auto
  obtain s' p where c: "fst (create_with_mode env name entry stack_top mode parent s) = s'"
    and s': "slots (table s') = (slots (table s))[idx := Some p]" "CURRENT s' = CURRENT s"
      "p_in_run_queue p" "p_state p = Ready" "p_running_on p = CPU_NONE"
    using Some by (simp add: create_with_mode_def alloc_pid_def init_context_def Let_def)
  have "placed s' j q" if "j < MAX_PROCS" "slots (table s') ! j = Some q" for j q
    using that s' idx inv by (cases "j = idx") (auto simp: placed_def live_inv_def)
  with create_inv [OF si, of env name entry stack_top mode parent] show ?thesis unfolding c by (simp add: live_inv_def)
qed

lemma live_step_inv: "live_step env s t \<Longrightarrow> live_inv s \<Longrightarrow> live_inv t"
proof (induction rule: live_step.induct)
  case (ls_create s name entry stack_top mode parent)
  then show ?case by (rule live_create)
next
  case (ls_tick cpu frame s regs s' regs' r)
  show ?case
  proof (cases "rq_items (run_queue (table s))")
    case Nil
    from live_tick_idle [OF ls_tick.prems ls_tick.hyps(1) Nil, of frame regs] ls_tick.hyps(2) show ?thesis by auto
  next
    case (Cons i rest)
    from live_tick [OF ls_tick.prems ls_tick.hyps(1) Cons, of frame regs] ls_tick.hyps(2) show ?thesis by auto
  qed
next
  case (ls_start cpu s regs s' regs' r)
  then show ?case using live_start by blast
qed

lemma proc_init_live: "live_inv (proc_init s)"
  using proc_init_inv [of s] by (simp add: live_inv_def proc_init_def table_new_def)

interpretation live: invariant_system "\<lambda>s. \<exists>s0. s = proc_init s0" "live_step env" live_inv for env
  by unfold_locales (use proc_init_live live_step_inv in blast)+

section \<open>Bounded waiting\<close>

text \<open>A sequence of timer ticks: the CPU that takes each, and the frame it interrupted.\<close>

fun run_ticks :: "(nat \<times> usize) list \<Rightarrow> procs \<times> mmu_regs \<Rightarrow> (procs \<times> mmu_regs) res" where
  "run_ticks [] st = Inr st"
| "run_ticks ((cpu, frame) # ts) st = and_then (schedule_from_irq cpu frame st) (\<lambda>(st', r). run_ticks ts st')"

lemma run_ticks_serves:
  assumes "live_inv s" "k < length (rq_items (run_queue (table s)))" "length ts = k + 1" "\<forall>(c, f)\<in>set ts. c < MAX_CPUS"
  shows "\<exists>s' regs'. run_ticks ts (s, regs) = Inr (s', regs') \<and>
    CURRENT s' ! fst (last ts) = rq_items (run_queue (table s)) ! k"
  using assms
proof (induction k arbitrary: s regs ts)
  case 0
  then obtain cpu frame where ts: "ts = [(cpu, frame)]" by (cases ts) auto
  obtain i rest where its: "rq_items (run_queue (table s)) = i # rest" using 0 by (cases "rq_items (run_queue (table s))") auto
  from live_tick [OF 0(1) _ its, of cpu frame regs] 0(4) ts its show ?case by (auto simp: and_then_eq_Inr)
next
  case (Suc k)
  then obtain cpu frame ts' where ts: "ts = (cpu, frame) # ts'" and ts': "length ts' = k + 1" by (cases ts) auto
  obtain i rest where its: "rq_items (run_queue (table s)) = i # rest"
    using Suc.prems by (cases "rq_items (run_queue (table s))") auto
  have cpu: "cpu < MAX_CPUS" using Suc.prems(4) ts by simp
  from live_tick [OF Suc.prems(1) cpu its, of frame regs] obtain s1 regs1 r where
    s1: "schedule_from_irq cpu frame (s, regs) = Inr ((s1, regs1), r)" "live_inv s1"
      "rq_items (run_queue (table s1)) = rest @ (if CURRENT s ! cpu = INVALID_IDX then [] else [CURRENT s ! cpu])" by blast
  have k: "k < length rest" using Suc.prems(2) its by simp
  then have "k < length (rq_items (run_queue (table s1)))" "rq_items (run_queue (table s1)) ! k = rest ! k"
    by (simp_all only: s1(3)) (simp_all add: nth_append)
  with Suc.IH [OF s1(2) _ ts', of regs1] Suc.prems(4) ts obtain s' regs' where
    "run_ticks ts' (s1, regs1) = Inr (s', regs')" "CURRENT s' ! fst (last ts') = rest ! k" by auto
  moreover have "ts' \<noteq> []" using ts' by auto
  ultimately show ?case using ts s1(1) its by (auto simp: and_then_eq_Inr)
qed

section \<open>Properties\<close>

text \<open>
  C26. No starvation: in every state the kernel reaches by creating processes, starting CPUs and taking
  timer ticks, the process at position \<open>k\<close> of the run queue is dispatched by the \<open>k + 1\<close>-th following
  tick, whichever CPUs take those ticks, and none of them panics.
\<close>

theorem queue_served_in_order:
  assumes "reachable (\<lambda>s. \<exists>s0. s = proc_init s0) (live_step env) s"
    and "k < length (rq_items (run_queue (table s)))" and "length ts = k + 1" and "\<forall>(c, f)\<in>set ts. c < MAX_CPUS"
  shows "\<exists>s' regs'. run_ticks ts (s, regs) = Inr (s', regs') \<and>
    CURRENT s' ! fst (last ts) = rq_items (run_queue (table s)) ! k"
  using live.reachable_inv [OF assms(1)] assms(2-4) by (rule run_ticks_serves)

lemma one_proc_live: "reachable (\<lambda>s. \<exists>s0. s = proc_init s0) (live_step demo_env) one_proc"
proof -
  have "reachable (\<lambda>s. \<exists>s0. s = proc_init s0) (live_step demo_env) (proc_init no_procs)"
    by (rule reachable_init) blast
  then show ?thesis unfolding one_proc_def by (rule reachable_step) (rule ls_create)
qed

theorem queue_served_in_order_witness:
  "\<exists>s' regs'. run_ticks [(3, 0x9000)] (one_proc, cold_regs) = Inr (s', regs') \<and> CURRENT s' ! 3 = 0"
  using queue_served_in_order [OF one_proc_live, of 0 "[(3, 0x9000)]" cold_regs] one_proc_queue
  by (simp add: MAX_CPUS_def)

section \<open>Blocked processes\<close>

text \<open>
  A slot that records a CPU which does not have it as current. Only \<open>schedule_from_irq\<close> clears the record,
  and only for the current process: the slot is never dispatched again.
\<close>

definition stranded :: "procs \<Rightarrow> nat \<Rightarrow> bool" where
  "stranded s i \<longleftrightarrow> sched_inv s \<and> i < MAX_PROCS \<and> (\<exists>p. slots (table s) ! i = Some p \<and> p_running_on p \<noteq> CPU_NONE) \<and>
     (\<forall>c<MAX_CPUS. CURRENT s ! c \<noteq> i)"

lemma stranded_slot:
  assumes "stranded s i" "sched_inv s'" "CURRENT s' = CURRENT s" "keeps_sched f"
    "slots (table s') = (slots (table s))[j := map_option f (slots (table s) ! j)]"
  shows "stranded s' i"
  using assms sched_inv_lengths [of s]
  by (cases "j = i") (auto simp: stranded_def keeps_sched_def)

lemma stranded_same:
  assumes "stranded s i" "sched_inv s'" "CURRENT s' = CURRENT s" "slots (table s') ! i = slots (table s) ! i"
  shows "stranded s' i"
  using assms by (simp add: stranded_def)

lemma stranded_dispatch:
  assumes "stranded s i" "sched_inv s'" "cpu < MAX_CPUS" "CURRENT s' = (CURRENT s)[cpu := j]" "runnable (slots (table s) ! j)"
    "slots (table s') ! i = slots (table s) ! i"
  shows "stranded s' i"
proof -
  have "j \<noteq> i" using assms(1,5) by (auto simp: stranded_def runnable_def)
  moreover have "CURRENT s' ! c \<noteq> i" if "c < MAX_CPUS" for c
    using that calculation assms(1,4) sched_inv_lengths [of s] by (cases "c = cpu") (auto simp: stranded_def)
  ultimately show ?thesis using assms by (simp add: stranded_def)
qed

lemma stranded_tick:
  assumes st: "stranded s i" and cpu: "cpu < MAX_CPUS" and tick: "schedule_from_irq cpu frame (s, regs) = Inr ((s', regs'), r)"
  shows "stranded s' i"
proof -
  have inv: "sched_inv s" using st by (simp add: stranded_def)
  have cur: "CURRENT s ! cpu \<noteq> i" using st cpu by (simp add: stranded_def)
  from tick_ok [OF inv cpu, of frame regs] tick have inv': "sched_inv s'"
    and "resumed cpu frame s s' \<or> (\<exists>k j. switched cpu frame k j s s')" by auto
  then show ?thesis
  proof (elim disjE exE)
    assume "resumed cpu frame s s'"
    then have "CURRENT s' = CURRENT s" "slots (table s') ! i = slots (table s) ! i"
      using cur by (auto simp: resumed_def)
    with st inv' show ?thesis by (rule stranded_same)
  next
    fix k j
    assume sw: "switched cpu frame k j s s'"
    then have j: "runnable (slots (table s) ! j)" "CURRENT s' = (CURRENT s)[cpu := j]" by (auto simp: switched_def Let_def)
    then have "j \<noteq> i" using st by (auto simp: stranded_def runnable_def)
    with sw cur have "slots (table s') ! i = slots (table s) ! i" by (auto simp: switched_def Let_def split: if_splits)
    with st inv' cpu j show ?thesis using stranded_dispatch by blast
  qed
qed

lemma stranded_start:
  assumes st: "stranded s i" and cpu: "cpu < MAX_CPUS" and start: "start_on_cpu cpu (s, regs) = Inr ((s', regs'), r)"
  shows "stranded s' i"
proof (cases rule: queue_cases [of "rq_items (run_queue (table s))" "slots (table s)"])
  case idle
  with start_panics [of s cpu regs] st start show ?thesis by (simp add: stranded_def)
next
  case (first k)
  let ?j = "rq_items (run_queue (table s)) ! k"
  have inv: "sched_inv s" using st by (simp add: stranded_def)
  from start_spec [OF inv cpu first(1) refl first(2,3), of regs] start obtain p where
    p: "sched_inv s'" "CURRENT s' = (CURRENT s)[cpu := ?j]" "slots (table s') = (slots (table s))[?j := Some (dispatched cpu p)]" by auto
  have "?j \<noteq> i" using st first(2) by (auto simp: stranded_def runnable_def)
  with p(3) have "slots (table s') ! i = slots (table s) ! i" by simp
  with st p(1,2) cpu first(2) show ?thesis using stranded_dispatch by blast
qed

lemma with_current_mut_slot:
  assumes "with_current_mut cpu f s = Inr (s', r)"
  shows "CURRENT s' = CURRENT s \<and> (\<exists>j. slots (table s') = (slots (table s))[j := map_option (\<lambda>p. fst (f p)) (slots (table s) ! j)])"
proof (cases "s' = s")
  case True
  then show ?thesis by (intro conjI exI [of _ "length (slots (table s))"]) (simp_all add: list_update_beyond)
next
  case False
  with assms obtain p where "slots (table s) ! (CURRENT s ! cpu) = Some p"
    "s' = s\<lparr>table := (table s)\<lparr>slots := (slots (table s))[CURRENT s ! cpu := Some (fst (f p))]\<rparr>\<rparr>"
    by (auto simp: with_current_mut_def res_simps split: if_splits option.splits prod.splits)
  then show ?thesis by (intro conjI exI [of _ "CURRENT s ! cpu"]) simp_all
qed

lemma stranded_step: "proc_step env s t \<Longrightarrow> stranded s i \<Longrightarrow> stranded t i"
proof (induction rule: proc_step.induct)
  case (ps_create s name entry stack_top mode parent)
  let ?t = "fst (create_with_mode env name entry stack_top mode parent s)"
  have "CURRENT ?t = CURRENT s" "slots (table ?t) ! i = slots (table s) ! i"
    using ps_create first_none_some [of "slots (table s)"]
    by (auto simp: create_with_mode_def alloc_pid_def init_context_def Let_def stranded_def nth_list_update split: option.splits)
  then show ?case using ps_create create_inv stranded_same by (auto simp: stranded_def)
next
  case (ps_set_state s pid st)
  have k: "keeps_sched (\<lambda>p. p\<lparr>p_state := st\<rparr>)" by (simp add: keeps_sched_def)
  have "sched_inv (fst (set_state pid st s))" using ps_set_state set_state_inv by (simp add: stranded_def)
  then show ?case using ps_set_state stranded_slot [OF ps_set_state _ _ k]
    by (auto simp: set_state_def update_slot_def split: option.splits)
next
  case (ps_set_fd s pid fd desc)
  have k: "keeps_sched (\<lambda>p. p\<lparr>p_fds := (p_fds p)[fd := desc]\<rparr>)" by (simp add: keeps_sched_def)
  have "sched_inv (fst (set_fd pid fd desc s))" using ps_set_fd set_fd_inv by (simp add: stranded_def)
  then show ?case using ps_set_fd stranded_slot [OF ps_set_fd _ _ k]
    by (auto simp: set_fd_def update_slot_def split: option.splits if_splits)
next
  case (ps_set_init_fd s fd desc)
  have "sched_inv (set_init_fd fd desc s)" using ps_set_init_fd set_init_fd_inv by (simp add: stranded_def)
  then show ?case using ps_set_init_fd by (intro stranded_same [OF ps_set_init_fd]) (simp_all add: set_init_fd_def)
next
  case (ps_alloc_fd cpu desc s s' r)
  let ?f = "\<lambda>p. case first_none (p_fds p) of Some fd \<Rightarrow> (p\<lparr>p_fds := (p_fds p)[fd := Some desc]\<rparr>, Some fd) | None \<Rightarrow> (p, None)"
  from ps_alloc_fd(1) obtain q where w: "with_current_mut cpu ?f s = Inr (s', q)"
    by (auto simp: alloc_fd_current_def res_simps)
  have k: "keeps_sched (\<lambda>p. fst (?f p))" by (simp add: keeps_sched_def split: option.splits)
  have "sched_inv s'" using ps_alloc_fd alloc_fd_inv by (auto simp: stranded_def)
  with with_current_mut_slot [OF w] show ?case using stranded_slot [OF ps_alloc_fd(2) _ _ k] by blast
next
  case (ps_close_fd cpu fd s s' r)
  show ?case
  proof (cases "fd \<ge> MAX_FDS")
    case False
    let ?f = "\<lambda>p. (p\<lparr>p_fds := (p_fds p)[fd := None]\<rparr>, True)"
    from ps_close_fd(1) False obtain q where w: "with_current_mut cpu ?f s = Inr (s', q)"
      by (auto simp: close_fd_current_def res_simps)
    have k: "keeps_sched (\<lambda>p. fst (?f p))" by (simp add: keeps_sched_def)
    have "sched_inv s'" using ps_close_fd close_fd_inv by (auto simp: stranded_def)
    with with_current_mut_slot [OF w] show ?thesis using stranded_slot [OF ps_close_fd(2) _ _ k] by blast
  qed (use ps_close_fd in \<open>simp add: close_fd_current_def\<close>)
qed (auto intro: stranded_tick stranded_start)

lemma blocked_stranded:
  assumes inv: "sched_inv s" and cpu: "cpu < MAX_CPUS" and cur: "CURRENT s ! cpu \<noteq> INVALID_IDX"
    and p: "slots (table s) ! (CURRENT s ! cpu) = Some p" "p_state p = Blocked"
    and run: "\<exists>i\<in>set (rq_items (run_queue (table s))). runnable (slots (table s) ! i)"
    and tick: "schedule_from_irq cpu frame (s, regs) = Inr ((s', regs'), r)"
  shows "stranded s' (CURRENT s ! cpu)"
proof (cases rule: queue_cases [of "rq_items (run_queue (table s))" "slots (table s)"])
  case idle
  with run show ?thesis by blast
next
  case (first k)
  let ?cur = "CURRENT s ! cpu" and ?j = "rq_items (run_queue (table s)) ! k"
  note len = sched_inv_lengths [OF inv]
  from sched_inv_current [OF inv cpu cur] p(1) have c: "?cur < MAX_PROCS" "p_running_on p = cpu" by auto
  from schedule_switched [OF inv cpu first(1) refl first(2,3), of frame regs] tick have inv': "sched_inv s'"
    and sw: "switched cpu frame k ?j s s'" by auto
  then have sl: "slots (table s') = (slots (table s))[?cur := Some (requeued (saved frame p)), ?j := map_option (dispatched cpu) (slots (table s) ! ?j)]"
    and cu: "CURRENT s' = (CURRENT s)[cpu := ?j]" and ne: "?cur \<noteq> ?j" using cur p by (auto simp: switched_def Let_def)
  have "slots (table s') ! ?cur = Some (p\<lparr>p_context_sp := frame\<rparr>)"
    using sl ne c len p(2) by (simp add: requeued_def saved_def)
  moreover have "CURRENT s' ! c \<noteq> ?cur" if "c < MAX_CPUS" for c
  proof (cases "c = cpu")
    case True
    then show ?thesis using cu ne that len by simp
  next
    case False
    then show ?thesis using other_current [OF inv that False _ p(1)] cu c(2) cur by auto
  qed
  ultimately show ?thesis using inv' c CPU_NONE_ge [OF cpu] by (simp add: stranded_def)
qed

section \<open>Properties of blocking\<close>

text \<open>
  C37. Blocking a running process loses it. If the current process of a CPU is marked \<open>Blocked\<close> and the
  next tick of that CPU switches to another process, the blocked one keeps its \<open>running_on\<close> mark and
  is in no queue, and from then on no CPU ever runs it again, whatever happens, even after
  \<open>set_state\<close> marks it \<open>Ready\<close>.
\<close>

theorem blocked_process_lost:
  assumes "reachable (\<lambda>s. \<exists>s0. s = proc_init s0) (proc_step env) s" and "cpu < MAX_CPUS" and "CURRENT s ! cpu \<noteq> INVALID_IDX"
    and "slots (table s) ! (CURRENT s ! cpu) = Some p" and "p_state p = Blocked"
    and "\<exists>i\<in>set (rq_items (run_queue (table s))). runnable (slots (table s) ! i)"
    and "schedule_from_irq cpu frame (s, regs) = Inr ((s', regs'), r)" and "(proc_step env)\<^sup>*\<^sup>* s' t"
  shows "\<forall>c<MAX_CPUS. CURRENT t ! c \<noteq> CURRENT s ! cpu"
proof -
  have "stranded s' (CURRENT s ! cpu)"
    using sched.reachable_inv [OF assms(1)] assms(2-7) by (rule blocked_stranded)
  with assms(8) have "stranded t (CURRENT s ! cpu)"
    by (induction rule: rtranclp_induct) (auto intro: stranded_step)
  then show ?thesis by (simp add: stranded_def)
qed

text \<open>
  A tick with nothing else to run revives the current process: whatever its state was, also
  \<open>Blocked\<close> or \<open>Terminated\<close>, it is \<open>Running\<close> again afterwards.
\<close>

theorem idle_tick_revives_current:
  assumes "reachable (\<lambda>s. \<exists>s0. s = proc_init s0) (proc_step env) s" and "cpu < MAX_CPUS" and "CURRENT s ! cpu \<noteq> INVALID_IDX"
    and "\<forall>i\<in>set (rq_items (run_queue (table s))). \<not> runnable (slots (table s) ! i)"
  shows "\<exists>s' p. schedule_from_irq cpu frame (s, regs) = Inr ((s', regs), frame) \<and>
    slots (table s') ! (CURRENT s ! cpu) = Some p \<and> p_state p = Running"
proof -
  have inv: "sched_inv s" using assms(1) by (rule sched.reachable_inv)
  from sched_inv_current [OF inv assms(2,3)] obtain p where
    p: "CURRENT s ! cpu < MAX_PROCS" "slots (table s) ! (CURRENT s ! cpu) = Some p" by blast
  from schedule_resumed [OF inv assms(2,4), of frame regs] obtain s' where
    "schedule_from_irq cpu frame (s, regs) = Inr ((s', regs), frame)" "resumed cpu frame s s'" by blast
  with p assms(3) sched_inv_lengths [OF inv] show ?thesis by (auto simp: resumed_def)
qed


text \<open>States to apply these to: process 0 runs on CPU 0, with nothing or with process 1 in the queue.\<close>

lemma create_queue:
  assumes inv: "sched_inv s" and f: "first_none (slots (table s)) = Some i"
  shows "rq_items (run_queue (table (fst (create_with_mode env name entry stack_top mode parent s)))) = rq_items (run_queue (table s)) @ [i]"
    and "CURRENT (fst (create_with_mode env name entry stack_top mode parent s)) = CURRENT s"
    and "\<exists>p. slots (table (fst (create_with_mode env name entry stack_top mode parent s))) = (slots (table s))[i := Some p] \<and>
      runnable (Some p) \<and> p_id p = next_pid (table s)"
proof -
  have qi: "queue_inv (table s)" using inv by (simp add: sched_inv_def)
  from first_none_some [OF f] have i: "i < MAX_PROCS" "slots (table s) ! i = None" using sched_inv_lengths [OF inv] by auto
  have "i \<notin> set (rq_items (run_queue (table s)))" using qi i by (auto simp: queue_inv_def)
  then have "card (set (rq_items (run_queue (table s)))) \<le> card ({..<MAX_PROCS} - {i})"
    using qi by (intro card_mono) (auto simp: queue_inv_def)
  then have "length (rq_items (run_queue (table s))) < MAX_PROCS" "rq_ok (run_queue (table s))"
    using qi i(1) by (simp_all add: queue_inv_def distinct_card)
  then show "rq_items (run_queue (table (fst (create_with_mode env name entry stack_top mode parent s)))) = rq_items (run_queue (table s)) @ [i]"
    using rq.push_room f by (simp add: create_with_mode_def alloc_pid_def init_context_def Let_def)
  show "CURRENT (fst (create_with_mode env name entry stack_top mode parent s)) = CURRENT s"
    using f by (simp add: create_with_mode_def alloc_pid_def init_context_def Let_def)
  show "\<exists>p. slots (table (fst (create_with_mode env name entry stack_top mode parent s))) = (slots (table s))[i := Some p] \<and>
      runnable (Some p) \<and> p_id p = next_pid (table s)"
    using f by (cases "stack_top = 0")
      (simp add: create_with_mode_def alloc_pid_def init_context_def Let_def runnable_def, rule exI, rule conjI, rule refl, simp)+
qed

definition two_procs :: procs where
  "two_procs = fst (create_with_mode demo_env ''idle'' 0x90000 0 Kernel None one_proc)"

lemma one_proc_slot: "\<exists>p. slots (table one_proc) = (replicate MAX_PROCS None)[0 := Some p] \<and> p_id p = 1"
proof -
  have "first_none (slots (table (proc_init no_procs))) = Some 0"
    by (simp add: proc_init_def table_new_def MAX_PROCS_def numeral_eq_Suc)
  from create_queue(3) [OF proc_init_inv this] show ?thesis
    unfolding one_proc_def by (force simp: proc_init_def table_new_def)
qed

lemma two_procs_reachable: "reachable (\<lambda>s. \<exists>s0. s = proc_init s0) (proc_step demo_env) two_procs"
  unfolding two_procs_def using one_proc_reachable by (rule reachable_step) (rule ps_create)

lemma two_procs_queue:
  "\<exists>p q. rq_items (run_queue (table two_procs)) = [0, 1] \<and> slots (table two_procs) ! 0 = Some p \<and> p_id p = 1 \<and> runnable (Some p) \<and>
     slots (table two_procs) ! 1 = Some q \<and> runnable (Some q) \<and> CURRENT two_procs = replicate MAX_CPUS INVALID_IDX"
proof -
  obtain p where p: "slots (table one_proc) = (replicate MAX_PROCS None)[0 := Some p]" "p_id p = 1" using one_proc_slot by blast
  then have "first_none (slots (table one_proc)) = Some 1" by (simp add: MAX_PROCS_def numeral_eq_Suc)
  note c = create_queue [OF one_proc_inv this, of demo_env "''idle''" "0x90000" 0 Kernel None]
  from c(3) obtain q where "slots (table two_procs) = (slots (table one_proc))[1 := Some q]" "runnable (Some q)" unfolding two_procs_def by blast
  moreover have "runnable (Some p)" using one_proc_queue p(1) by (simp add: MAX_PROCS_def)
  ultimately show ?thesis using c(1,2) one_proc_queue p by (auto simp: two_procs_def MAX_PROCS_def)
qed

text \<open>Start the head of the queue on CPU 0, then change the state of that process.\<close>

lemma start_and_set:
  assumes r: "reachable (\<lambda>s. \<exists>s0. s = proc_init s0) (proc_step demo_env) s"
    and its: "rq_items (run_queue (table s)) = 0 # rest" and p: "slots (table s) ! 0 = Some p" "runnable (Some p)"
    and cur: "length (CURRENT s) = MAX_CPUS"
  obtains s' p' where "reachable (\<lambda>s. \<exists>s0. s = proc_init s0) (proc_step demo_env) s'" "CURRENT s' ! 0 = 0"
    "rq_items (run_queue (table s')) = rest" "slots (table s') ! 0 = Some p'" "p_state p' = st"
    "\<forall>i. i \<noteq> 0 \<longrightarrow> slots (table s') ! i = slots (table s) ! i"
proof -
  have inv: "sched_inv s" using r by (rule sched.reachable_inv)
  note len = sched_inv_lengths [OF inv]
  have k0: "0 < length (rq_items (run_queue (table s)))" "0 = rq_items (run_queue (table s)) ! 0" "runnable (slots (table s) ! 0)"
    "\<forall>j<0. \<not> runnable (slots (table s) ! (rq_items (run_queue (table s)) ! j))" unfolding its using p by simp_all
  have cpu: "0 < MAX_CPUS" by (simp add: MAX_CPUS_def)
  from start_spec [OF inv cpu k0, of cold_regs] obtain s1 regs x where
    s1: "start_on_cpu 0 (s, cold_regs) = Inr ((s1, regs), x)" "CURRENT s1 = (CURRENT s)[0 := 0]"
      "slots (table s1) = (slots (table s))[0 := Some (dispatched 0 p)]" "rq_items (run_queue (table s1)) = rest"
    using p(1) its by auto
  have r1: "reachable (\<lambda>s. \<exists>s0. s = proc_init s0) (proc_step demo_env) s1"
    using r ps_start [OF cpu s1(1)] by (rule reachable_step)
  obtain y ys where y: "slots (table s1) = Some (dispatched 0 p) # ys"
    using s1(3) len by (cases "slots (table s)") (auto simp: MAX_PROCS_def)
  let ?s = "fst (set_state (p_id p) st s1)"
  have eq: "?s = update_slot 0 (\<lambda>p. p\<lparr>p_state := st\<rparr>) s1" using y by (simp add: set_state_def dispatched_def)
  have "reachable (\<lambda>s. \<exists>s0. s = proc_init s0) (proc_step demo_env) ?s" using r1 ps_set_state by (rule reachable_step)
  moreover have "CURRENT ?s ! 0 = 0" "rq_items (run_queue (table ?s)) = rest"
    using eq s1 cur by (simp_all add: update_slot_def MAX_CPUS_def)
  moreover have sl: "slots (table ?s) = (slots (table s1))[0 := Some ((dispatched 0 p)\<lparr>p_state := st\<rparr>)]"
    unfolding eq using y by (simp add: update_slot_def)
  moreover have "slots (table ?s) ! 0 = Some ((dispatched 0 p)\<lparr>p_state := st\<rparr>)" using sl y by simp
  moreover have "\<forall>i. i \<noteq> 0 \<longrightarrow> slots (table ?s) ! i = slots (table s) ! i" using sl s1(3) by simp
  ultimately show ?thesis using that [of ?s "(dispatched 0 p)\<lparr>p_state := st\<rparr>"] by simp
qed

theorem blocked_process_lost_witness:
  "\<exists>s s' regs' r. CURRENT s ! 0 = 0 \<and> schedule_from_irq 0 0x9000 (s, cold_regs) = Inr ((s', regs'), r) \<and>
     (\<forall>t. (proc_step demo_env)\<^sup>*\<^sup>* s' t \<longrightarrow> (\<forall>c<MAX_CPUS. CURRENT t ! c \<noteq> 0))"
proof -
  obtain p q where t: "rq_items (run_queue (table two_procs)) = [0, 1]" "slots (table two_procs) ! 0 = Some p" "runnable (Some p)"
    "slots (table two_procs) ! 1 = Some q" "runnable (Some q)" "CURRENT two_procs = replicate MAX_CPUS INVALID_IDX"
    using two_procs_queue by blast
  have "length (CURRENT two_procs) = MAX_CPUS" using t(6) by simp
  from start_and_set [OF two_procs_reachable t(1-3) this, of Blocked] obtain s p' where
    s: "reachable (\<lambda>s. \<exists>s0. s = proc_init s0) (proc_step demo_env) s" "CURRENT s ! 0 = 0" "rq_items (run_queue (table s)) = [1]"
      "slots (table s) ! 0 = Some p'" "p_state p' = Blocked" "\<forall>i. i \<noteq> 0 \<longrightarrow> slots (table s) ! i = slots (table two_procs) ! i" by blast
  have cpu: "0 < MAX_CPUS" and ne: "CURRENT s ! 0 \<noteq> INVALID_IDX" using s(2) by (simp_all add: MAX_CPUS_def INVALID_IDX_def)
  obtain s' regs' r where tick: "schedule_from_irq 0 0x9000 (s, cold_regs) = Inr ((s', regs'), r)"
    using tick_ok [OF sched.reachable_inv [OF s(1)] cpu, of "0x9000" cold_regs] by blast
  have run: "\<exists>i\<in>set (rq_items (run_queue (table s))). runnable (slots (table s) ! i)" using s(3,6) t(4,5) by simp
  have "slots (table s) ! (CURRENT s ! 0) = Some p'" using s(2,4) by simp
  from blocked_process_lost [OF s(1) cpu ne this s(5) run tick] s(2) have
    "\<forall>t. (proc_step demo_env)\<^sup>*\<^sup>* s' t \<longrightarrow> (\<forall>c<MAX_CPUS. CURRENT t ! c \<noteq> 0)" by simp
  with s(2) tick show ?thesis by blast
qed

theorem idle_tick_revives_current_witness:
  "\<exists>s p s' p'. slots (table s) ! 0 = Some p \<and> p_state p = Terminated \<and>
     schedule_from_irq 0 0x9000 (s, cold_regs) = Inr ((s', cold_regs), 0x9000) \<and> slots (table s') ! 0 = Some p' \<and> p_state p' = Running"
proof -
  obtain p where t: "rq_items (run_queue (table one_proc)) = [0]" "slots (table one_proc) ! 0 = Some p" "runnable (Some p)"
    "length (CURRENT one_proc) = MAX_CPUS"
    using one_proc_queue one_proc_slot by (auto simp: MAX_PROCS_def)
  from start_and_set [OF one_proc_reachable t, of Terminated] obtain s p' where
    s: "reachable (\<lambda>s. \<exists>s0. s = proc_init s0) (proc_step demo_env) s" "CURRENT s ! 0 = 0" "rq_items (run_queue (table s)) = []"
      "slots (table s) ! 0 = Some p'" "p_state p' = Terminated" by blast
  have cpu: "0 < MAX_CPUS" and ne: "CURRENT s ! 0 \<noteq> INVALID_IDX" using s(2) by (simp_all add: MAX_CPUS_def INVALID_IDX_def)
  from idle_tick_revives_current [OF s(1) cpu ne, of "0x9000" cold_regs] s show ?thesis by auto
qed

end
