(* ===== verification/Pids.thy ===== *)
theory Pids
  imports Scheduler
begin

text \<open>
  Process identifiers. The process table never frees a slot, so the 32-bit pid counter of
  \<^verbatim>\<open>ProcessTable::alloc_pid\<close> (\<^verbatim>\<open>kernel/process.rs\<close>) cannot wrap; this theory proves that every step of
  the process subsystem keeps the pids of the occupied slots distinct and in the range 1 to
  \<^verbatim>\<open>MAX_PROCS\<close>.
\<close>

section \<open>Process identifiers\<close>

text \<open>What a process is created with and keeps, and that of every slot with the next pid to hand out.\<close>

definition profile ::
  "process \<Rightarrow> u32 \<times> string \<times> usize \<times> usize \<times> process_mode \<times> u32 option \<times> u64 \<times> nat" where
  "profile p = (p_id p, p_name p, p_entry p, p_stack_top p, p_mode p, p_parent p, p_ttbr0 p, length (p_fds p))"

definition profiles :: "process_table \<Rightarrow>
    (u32 \<times> string \<times> usize \<times> usize \<times> process_mode \<times> u32 option \<times> u64 \<times> nat) option list" where
  "profiles t = map (map_option profile) (slots t)"

definition ids where
  "ids t = (profiles t, next_pid t)"

text \<open>Scheduling and descriptor operations leave a process its profile.\<close>

lemma profile_simps [simp]:
  "profile (p\<lparr>p_state := st\<rparr>) = profile p" "profile (p\<lparr>p_context_sp := sp\<rparr>) = profile p"
  "profile (p\<lparr>p_running_on := c\<rparr>) = profile p" "profile (p\<lparr>p_in_run_queue := b\<rparr>) = profile p"
  "profile (p\<lparr>p_fds := (p_fds p)[fd := d]\<rparr>) = profile p"
  by (simp_all add: profile_def)

lemma profile_pid: "profile p = profile q \<Longrightarrow> p_id p = p_id q"
  by (simp add: profile_def)

lemma ids_slot: "(\<And>p. profile (f p) = profile p) \<Longrightarrow> ids (t\<lparr>slots := (slots t)[i := map_option f (slots t ! i)]\<rparr>) = ids t"
proof (cases "i < length (slots t)")
  case True
  assume "\<And>p. profile (f p) = profile p"
  then have "map_option profile (map_option f x) = map_option profile x" for x by (cases x) auto
  with True show ?thesis by (simp add: ids_def profiles_def map_update) (metis list_update_id nth_map)
qed (simp add: list_update_beyond)

lemma ids_queue [simp]: "ids (t\<lparr>run_queue := q\<rparr>) = ids t"
  by (simp add: ids_def profiles_def)

lemma on_slot_ids: "on_slot i f t = Inr t' \<Longrightarrow> (\<And>p. profile (f p) = profile p) \<Longrightarrow> ids t' = ids t"
  by (auto simp: on_slot_def res_simps ids_slot split: if_splits)

lemma dequeue_loop_ids: "dequeue_loop n t = Inr (t', r) \<Longrightarrow> ids t' = ids t"
proof (induction n arbitrary: t)
  case (Suc n)
  show ?case
  proof (cases "rq_pop (run_queue t)")
    case (Pair q w)
    with Suc ids_slot [of "\<lambda>p. p\<lparr>p_in_run_queue := False\<rparr>" "t\<lparr>run_queue := q\<rparr>"] show ?thesis
      by (cases w) (auto simp: res_simps Let_def split: if_splits)
  qed
qed simp

lemma requeue_ids: "requeue_current cur t = Inr t' \<Longrightarrow> ids t' = ids t"
proof -
  assume r: "requeue_current cur t = Inr t'"
  have "ids (t\<lparr>slots := (slots t)[cur := Some (p\<lparr>p_in_run_queue := True\<rparr>)], run_queue := q\<rparr>) = ids t"
    if "slots t ! cur = Some p" for p q
    using that ids_slot [of "\<lambda>p. p\<lparr>p_in_run_queue := True\<rparr>" t cur] by simp
  with r show ?thesis by (auto simp: requeue_current_def res_simps split: if_splits option.splits)
qed

lemma tick_ids: "schedule_from_irq cpu frame (s, regs) = Inr ((s', regs'), r) \<Longrightarrow> ids (table s') = ids (table s)"
  by (auto simp: schedule_from_irq_def res_simps save_current_def resume_current_def dispatch_def dequeue_next_runnable_def Let_def
      split: option.splits dest!: on_slot_ids dequeue_loop_ids requeue_ids)

lemma start_ids: "start_on_cpu cpu (s, regs) = Inr ((s', regs'), r) \<Longrightarrow> ids (table s') = ids (table s)"
  by (auto simp: start_on_cpu_def res_simps dispatch_def dequeue_next_runnable_def Let_def
      split: option.splits dest!: on_slot_ids dequeue_loop_ids)

lemma with_current_mut_ids:
  assumes "with_current_mut cpu f s = Inr (s', r)" "\<And>p. profile (fst (f p)) = profile p"
  shows "ids (table s') = ids (table s)"
  using assms ids_slot [of "\<lambda>p. fst (f p)" "table s" "CURRENT s ! cpu"]
  by (auto simp: with_current_mut_def res_simps split: if_splits option.splits prod.splits)

lemma alloc_fd_ids: "alloc_fd_current cpu desc s = Inr (s', r) \<Longrightarrow> ids (table s') = ids (table s)"
proof -
  assume a: "alloc_fd_current cpu desc s = Inr (s', r)"
  let ?f = "\<lambda>p. case first_none (p_fds p) of Some fd \<Rightarrow> (p\<lparr>p_fds := (p_fds p)[fd := Some desc]\<rparr>, Some fd) | None \<Rightarrow> (p, None)"
  from a obtain q where "with_current_mut cpu ?f s = Inr (s', q)" by (auto simp: alloc_fd_current_def res_simps)
  then show ?thesis by (rule with_current_mut_ids) (simp split: option.splits)
qed

lemma close_fd_ids: "close_fd_current cpu fd s = Inr (s', r) \<Longrightarrow> ids (table s') = ids (table s)"
proof -
  assume a: "close_fd_current cpu fd s = Inr (s', r)"
  let ?f = "\<lambda>p. (p\<lparr>p_fds := (p_fds p)[fd := None]\<rparr>, True)"
  from a consider "s' = s" | q where "with_current_mut cpu ?f s = Inr (s', q)"
    by (auto simp: close_fd_current_def res_simps split: if_splits)
  then show ?thesis by cases (auto dest!: with_current_mut_ids)
qed

definition occupied :: "procs \<Rightarrow> nat" where
  "occupied s = card {i. i < MAX_PROCS \<and> slots (table s) ! i \<noteq> None}"

definition pid_inv :: "procs \<Rightarrow> bool" where
  "pid_inv s \<longleftrightarrow> length (slots (table s)) = MAX_PROCS \<and> next_pid (table s) = of_nat (occupied s + 1) \<and>
     (\<forall>i<MAX_PROCS. \<forall>p. slots (table s) ! i = Some p \<longrightarrow> 1 \<le> unat (p_id p) \<and> unat (p_id p) \<le> occupied s) \<and>
     (\<forall>i<MAX_PROCS. \<forall>j<MAX_PROCS. \<forall>p q. slots (table s) ! i = Some p \<longrightarrow> slots (table s) ! j = Some q \<longrightarrow> p_id p = p_id q \<longrightarrow> i = j)"

lemma pid_inv_ids:
  assumes eq: "ids (table s') = ids (table s)" and inv: "pid_inv s"
  shows "pid_inv s'"
proof -
  have m: "profiles (table s') = profiles (table s)" and np: "next_pid (table s') = next_pid (table s)"
    using eq by (simp_all add: ids_def)
  have len: "length (slots (table s')) = MAX_PROCS" "length (slots (table s)) = MAX_PROCS"
    using arg_cong [OF m, of length] inv by (simp_all add: pid_inv_def profiles_def)
  have view: "map_option profile (slots (table s') ! i) = map_option profile (slots (table s) ! i)" if "i < MAX_PROCS" for i
    using arg_cong [OF m, of "\<lambda>l. l ! i"] that len by (simp add: profiles_def)
  have some: "\<exists>p. slots (table s) ! i = Some p \<and> p_id p = p_id p'" if "i < MAX_PROCS" "slots (table s') ! i = Some p'" for i p'
    using view [OF that(1)] that(2) by (cases "slots (table s) ! i") (auto dest: profile_pid)
  have none: "slots (table s') ! i \<noteq> None \<longleftrightarrow> slots (table s) ! i \<noteq> None" if "i < MAX_PROCS" for i
    using view [OF that] by (cases "slots (table s) ! i"; cases "slots (table s') ! i") auto
  have "{i. i < MAX_PROCS \<and> slots (table s') ! i \<noteq> None} = {i. i < MAX_PROCS \<and> slots (table s) ! i \<noteq> None}"
    by (intro Collect_cong conj_cong refl none)
  then have occ: "occupied s' = occupied s" by (simp only: occupied_def)
  show ?thesis
    unfolding pid_inv_def occ np
  proof (intro conjI allI impI len(1))
    show "next_pid (table s) = of_nat (occupied s + 1)" using inv by (simp add: pid_inv_def)
    fix i p'
    assume i: "i < MAX_PROCS" "slots (table s') ! i = Some p'"
    from some [OF i] obtain p where p: "slots (table s) ! i = Some p" "p_id p = p_id p'" by blast
    with inv i(1) have "1 \<le> unat (p_id p) \<and> unat (p_id p) \<le> occupied s" unfolding pid_inv_def by blast
    then show "1 \<le> unat (p_id p')" "unat (p_id p') \<le> occupied s" using p by simp_all
    fix j q'
    assume j: "j < MAX_PROCS" "slots (table s') ! j = Some q'" "p_id p' = p_id q'"
    from some [OF j(1,2)] obtain q where q: "slots (table s) ! j = Some q" "p_id q = p_id q'" by blast
    with p i(1) j inv show "i = j" unfolding pid_inv_def by metis
  qed
qed

lemma create_pid_inv:
  assumes inv: "pid_inv s"
  shows "pid_inv (fst (create_with_mode env name entry stack_top mode parent s))"
proof (cases "first_none (slots (table s))")
  case None
  then show ?thesis using inv by (simp add: create_with_mode_def)
next
  case (Some idx)
  have len: "length (slots (table s)) = MAX_PROCS" using inv by (simp add: pid_inv_def)
  from first_none_some [OF Some] len have idx: "idx < MAX_PROCS" "slots (table s) ! idx = None" by auto
  let ?occ = "{i. i < MAX_PROCS \<and> slots (table s) ! i \<noteq> None}" and ?n = "occupied s"
  have "?occ \<subseteq> {..<MAX_PROCS} - {idx}" using idx by auto
  then have "?n \<le> card ({..<MAX_PROCS} - {idx})" unfolding occupied_def by (intro card_mono) auto
  then have n: "?n < 64" using idx by (simp add: MAX_PROCS_def)
  obtain s' p where c: "fst (create_with_mode env name entry stack_top mode parent s) = s'"
    and s': "slots (table s') = (slots (table s))[idx := Some p]" "next_pid (table s') = max (next_pid (table s) + 1) 1" "p_id p = next_pid (table s)"
    using Some by (simp add: create_with_mode_def alloc_pid_def init_context_def Let_def)
  have np: "next_pid (table s) = of_nat (?n + 1)" using inv by (simp add: pid_inv_def)
  have u: "unat (p_id p) = ?n + 1" using n unfolding s'(3) np by (simp add: unat_of_nat del: of_nat_add of_nat_Suc)
  have "{i. i < MAX_PROCS \<and> slots (table s') ! i \<noteq> None} = insert idx ?occ"
    using idx len s'(1) by (auto simp: nth_list_update split: if_splits)
  then have occ: "occupied s' = ?n + 1" using idx by (simp add: occupied_def)
  have np': "next_pid (table s') = of_nat (occupied s' + 1)"
  proof -
    have "next_pid (table s) + 1 = of_nat (?n + 2)" unfolding np by simp
    moreover have "(1 :: u32) \<le> of_nat (?n + 2)" using n by (simp add: word_le_nat_alt unat_of_nat del: of_nat_add of_nat_Suc)
    ultimately show ?thesis using occ s'(2) by (simp add: max_def)
  qed
  have cases: "(i = idx \<and> q = p) \<or> (i \<noteq> idx \<and> slots (table s) ! i = Some q)" if "slots (table s') ! i = Some q" for i q
    using that s'(1) idx len by (cases "i = idx") auto
  show ?thesis
    unfolding c pid_inv_def
  proof (intro conjI allI impI)
    show "length (slots (table s')) = MAX_PROCS" using s'(1) len by simp
    show "next_pid (table s') = of_nat (occupied s' + 1)" by (rule np')
    fix i q
    assume i: "i < MAX_PROCS" "slots (table s') ! i = Some q"
    have old: "1 \<le> unat (p_id q) \<and> unat (p_id q) \<le> ?n" if "i < MAX_PROCS" "slots (table s) ! i = Some q" for i q
      using inv that unfolding pid_inv_def by blast
    show "1 \<le> unat (p_id q)" "unat (p_id q) \<le> occupied s'" using cases [OF i(2)] old [OF i(1)] u occ by auto
    fix j r
    assume j: "j < MAX_PROCS" "slots (table s') ! j = Some r" "p_id q = p_id r"
    have eq: "unat (p_id q) = unat (p_id r)" using j(3) by simp
    have uniq: "i = j" if "slots (table s) ! i = Some q" "slots (table s) ! j = Some r"
      using inv that i(1) j(1,3) unfolding pid_inv_def by blast
    have "\<not> (q = p \<and> slots (table s) ! j = Some r)" using old [OF j(1)] u eq by fastforce
    moreover have "\<not> (r = p \<and> slots (table s) ! i = Some q)" using old [OF i(1)] u eq by fastforce
    ultimately show "i = j" using cases [OF i(2)] cases [OF j(2)] uniq by blast
  qed
qed

lemma pid_step: "proc_step env s t \<Longrightarrow> pid_inv s \<Longrightarrow> pid_inv t"
proof (induction rule: proc_step.induct)
  case (ps_create s name entry stack_top mode parent)
  then show ?case by (rule create_pid_inv)
next
  case (ps_set_state s pid st)
  have "ids (table (fst (set_state pid st s))) = ids (table s)"
    by (auto simp: set_state_def update_slot_def ids_slot split: option.splits)
  then show ?case using ps_set_state by (rule pid_inv_ids)
next
  case (ps_set_fd s pid fd desc)
  have "ids (table (fst (set_fd pid fd desc s))) = ids (table s)"
    by (auto simp: set_fd_def update_slot_def ids_slot split: option.splits)
  then show ?case using ps_set_fd by (rule pid_inv_ids)
next
  case (ps_set_init_fd s fd desc)
  then show ?case by (simp add: set_init_fd_def pid_inv_def occupied_def)
qed (erule pid_inv_ids [rotated], erule tick_ids start_ids alloc_fd_ids close_fd_ids)+

interpretation pids: invariant_system "\<lambda>s. \<exists>s0. s = proc_init s0" "proc_step env" pid_inv for env
proof unfold_locales
  fix s :: procs
  assume "\<exists>s0. s = proc_init s0"
  then obtain s0 where s: "s = proc_init s0" by blast
  have "{i. i < MAX_PROCS \<and> slots (table s) ! i \<noteq> None} = {}" by (auto simp: s proc_init_def table_new_def)
  then have "occupied s = 0" by (simp add: occupied_def)
  then show "pid_inv s" unfolding pid_inv_def by (simp add: s proc_init_def table_new_def)
qed (rule pid_step)

text \<open>
  C32. Process identifiers are unique and never zero: in every reachable state two occupied slots with
  the same pid are the same slot, and every pid is between 1 and the number of processes. The
  32-bit counter cannot wrap because slots are never freed.
\<close>

theorem pids_unique:
  assumes "reachable (\<lambda>s. \<exists>s0. s = proc_init s0) (proc_step env) s"
    and "i < MAX_PROCS" and "j < MAX_PROCS" and "slots (table s) ! i = Some p" and "slots (table s) ! j = Some q"
  shows "1 \<le> unat (p_id p) \<and> unat (p_id p) \<le> MAX_PROCS \<and> (p_id p = p_id q \<longrightarrow> i = j)"
proof -
  have inv: "pid_inv s" using assms(1) by (rule pids.reachable_inv)
  have "occupied s \<le> card {..<MAX_PROCS}" unfolding occupied_def by (intro card_mono) auto
  moreover have "1 \<le> unat (p_id p) \<and> unat (p_id p) \<le> occupied s" using inv assms(2,4) unfolding pid_inv_def by blast
  moreover have "p_id p = p_id q \<longrightarrow> i = j" using inv assms(2-5) unfolding pid_inv_def by blast
  ultimately show ?thesis by simp
qed

theorem pids_unique_witness:
  "\<exists>p. slots (table one_proc) ! 0 = Some p \<and> 1 \<le> unat (p_id p) \<and> unat (p_id p) \<le> 64"
proof -
  obtain p where p: "slots (table one_proc) ! 0 = Some p" using one_proc_queue by (auto simp: runnable_def split: option.splits)
  have "0 < MAX_PROCS" by (simp add: MAX_PROCS_def)
  from pids_unique [OF one_proc_reachable this this p p] p show ?thesis by (simp add: MAX_PROCS_def)
qed

end
