(* ===== verification/Fdt.thy ===== *)
theory Fdt
  imports Region
begin

text \<open>
  The flattened device tree reader of \<open>src/mm/dtb.rs\<close>: the byte-level helpers and the token loop. The
  five scanners of that file repeat one loop over the structure block and differ only in what they do
  at a node, at its end and at a property. The loop is here once, as \<open>fdt_next\<close> (one iteration up to
  the \<open>match\<close> arm) and \<open>fdt_loop\<close>; a scanner is a handler for its events. Offsets are \<open>nat\<close>: block sizes
  and property lengths are 32-bit fields, so no offset reaches \<open>2 ^ 35\<close>.

  The second half defines the encoding of event sequences into a structure block, as the device tree
  specification lays it out, and proves once, for every scanner, that scanning an encoded sequence
  runs the handler over it.
\<close>

section \<open>Definitions\<close>

definition FDT_MAGIC :: u32 where "FDT_MAGIC = 0xD00DFEED"
definition FDT_BEGIN_NODE :: u32 where "FDT_BEGIN_NODE = 0x1"
definition FDT_END_NODE :: u32 where "FDT_END_NODE = 0x2"
definition FDT_PROP :: u32 where "FDT_PROP = 0x3"
definition FDT_NOP :: u32 where "FDT_NOP = 0x4"
definition FDT_END :: u32 where "FDT_END = 0x9"

lemmas fdt_tokens = FDT_BEGIN_NODE_def FDT_END_NODE_def FDT_PROP_def FDT_NOP_def FDT_END_def

definition read_be_u32 :: "u8 list \<Rightarrow> u32 res" where
  "read_be_u32 buf =
     and_then (arr_get buf 0) (\<lambda>b0. and_then (arr_get buf 1) (\<lambda>b1.
     and_then (arr_get buf 2) (\<lambda>b2. and_then (arr_get buf 3) (\<lambda>b3.
       Inr (push_bit 24 (ucast b0) OR push_bit 16 (ucast b1) OR push_bit 8 (ucast b2) OR ucast b3)))))"

definition align4 :: "nat \<Rightarrow> nat" where
  "align4 v = (v + 3) - (v + 3) mod 4"

text \<open>\<open>while end < buf.len() && buf[end] != 0 { end += 1 }\<close>\<close>

function nul_from :: "u8 list \<Rightarrow> nat \<Rightarrow> nat" where
  "nul_from buf end = (if end < length buf \<and> buf ! end \<noteq> 0 then nul_from buf (end + 1) else end)"
  by pat_completeness auto
termination
  by (relation "measure (\<lambda>(buf, end). length buf - end)") auto

declare nul_from.simps [simp del]

lemma nul_from_ge: "end \<le> nul_from buf end"
proof (induction buf "end" rule: nul_from.induct)
  case (1 buf e)
  then show ?case by (subst nul_from.simps) (auto intro: Suc_leD)
qed

definition get_string :: "u8 list \<Rightarrow> nat \<Rightarrow> u8 list" where
  "get_string strings offset =
     (if offset \<ge> length strings then [] else take (nul_from strings offset - offset) (drop offset strings))"

definition name_starts_with :: "u8 list \<Rightarrow> u8 list \<Rightarrow> bool" where
  "name_starts_with name prefix =
     (if length name < length prefix then False else take (length prefix) name = prefix)"

function value_has_string_from :: "u8 list \<Rightarrow> u8 list \<Rightarrow> nat \<Rightarrow> bool" where
  "value_has_string_from buf needle start =
     (if start < length buf
      then let end = nul_from buf start in
        if end > start \<and> take (end - start) (drop start buf) = needle then True
        else value_has_string_from buf needle (end + 1)
      else False)"
  by pat_completeness auto
termination
  by (relation "measure (\<lambda>(buf, needle, start). length buf - start)")
     (auto intro!: diff_less_mono2 le_imp_less_Suc nul_from_ge)

declare value_has_string_from.simps [simp del]

definition value_has_string :: "u8 list \<Rightarrow> u8 list \<Rightarrow> bool" where
  "value_has_string buf needle = value_has_string_from buf needle 0"

function read_cells_loop :: "u8 list \<Rightarrow> nat \<Rightarrow> nat \<Rightarrow> u64 \<Rightarrow> u64 res" where
  "read_cells_loop buf cells i v =
     (if i < cells
      then let start = i * 4 in
        if start + 4 > length buf then Inr v
        else and_then (sub_slice buf start (start + 4)) (\<lambda>b.
             and_then (read_be_u32 b) (\<lambda>w. read_cells_loop buf cells (i + 1) (push_bit 32 v OR ucast w)))
      else Inr v)"
  by pat_completeness auto
termination
  by (relation "measure (\<lambda>(buf, cells, i, v). cells - i)") auto

declare read_cells_loop.simps [simp del]

definition read_cells :: "u8 list \<Rightarrow> u32 \<Rightarrow> u64 res" where
  "read_cells buf cells = read_cells_loop buf (unat cells) 0 0"

definition read_cells_trunc :: "u8 list \<Rightarrow> u32 \<Rightarrow> u64 res" where
  "read_cells_trunc buf cells =
     (if cells \<le> 2 then read_cells buf cells
      else let start = (unat cells - 2) * 4 in
        if start \<ge> length buf then Inr 0
        else and_then (sub_slice buf start (length buf)) (\<lambda>b. read_cells b 2))"

definition read_addr_cells :: "u8 list \<Rightarrow> u32 \<Rightarrow> u64 res" where
  "read_addr_cells buf cells = (if cells > 2 then read_cells_trunc buf cells else read_cells buf cells)"

subsection \<open>The header\<close>

text \<open>
  Magic number, then \<open>total_size\<close>, the structure block and the strings block, for which the code makes
  slices at the offsets and of the sizes the header gives.
\<close>

definition read_field :: "u8 list \<Rightarrow> nat \<Rightarrow> u32 res" where
  "read_field header i = and_then (sub_slice header i (i + 4)) read_be_u32"

definition fdt_blocks :: "memory \<Rightarrow> u64 \<Rightarrow> (u32 \<times> u8 list \<times> u8 list) option res" where
  "fdt_blocks mem dtb_pa =
     (let header = raw_slice mem dtb_pa 40 in
      and_then (read_field header 0) (\<lambda>magic.
      if magic \<noteq> FDT_MAGIC then Inr None
      else
        and_then (read_field header 4) (\<lambda>total_size.
        and_then (read_field header 8) (\<lambda>off_dt_struct.
        and_then (read_field header 12) (\<lambda>off_dt_strings.
        and_then (read_field header 36) (\<lambda>size_dt_struct.
        and_then (read_field header 32) (\<lambda>size_dt_strings.
          Inr (Some (total_size, raw_slice mem (dtb_pa + ucast off_dt_struct) (unat size_dt_struct),
                     raw_slice mem (dtb_pa + ucast off_dt_strings) (unat size_dt_strings))))))))))"

subsection \<open>The token loop\<close>

datatype fdt_event = Begin_Node "u8 list" | End_Node | Prop "u8 list" "u8 list" | Nop

text \<open>\<open>None\<close>: the loop ends, because the block is exhausted or by one of its \<open>break\<close>s.\<close>

definition fdt_next :: "u8 list \<Rightarrow> u8 list \<Rightarrow> nat \<Rightarrow> (fdt_event \<times> nat) option res" where
  "fdt_next block strings offset =
     (if offset + 4 \<le> length block
      then
        and_then (read_field block offset) (\<lambda>token.
        let offset = offset + 4 in
        if token = FDT_BEGIN_NODE then
          let name_start = offset; offset = nul_from block offset in
          and_then (sub_slice block name_start offset) (\<lambda>name. Inr (Some (Begin_Node name, align4 (offset + 1))))
        else if token = FDT_END_NODE then Inr (Some (End_Node, offset))
        else if token = FDT_PROP then
          if offset + 8 > length block then Inr None
          else
            and_then (read_field block offset) (\<lambda>len.
            and_then (read_field block (offset + 4)) (\<lambda>nameoff.
            let offset = offset + 8 in
            if offset + unat len > length block then Inr None
            else and_then (sub_slice block offset (offset + unat len)) (\<lambda>value.
              Inr (Some (Prop (get_string strings (unat nameoff)) value, align4 (offset + unat len))))))
        else if token = FDT_NOP then Inr (Some (Nop, offset))
        else Inr None)
      else Inr None)"

text \<open>What a handler does with an event: go on with a new state, or return from the scanner.\<close>

datatype ('s, 'r) flow = Go 's | Ret 'r

lemma align4_ge: "v \<le> align4 v"
  using mod_less_divisor [of 4 "v + 3"] by (simp add: align4_def)

lemma fdt_next_progress:
  assumes "fdt_next block strings offset = Inr (Some (ev, offset'))"
  shows "offset < length block \<and> offset < offset'"
proof -
  have "offset + 4 < align4 (nul_from block (offset + 4) + 1)"
    using nul_from_ge [of "offset + 4" block] align4_ge [of "nul_from block (offset + 4) + 1"] by linarith
  moreover have "offset < align4 (offset + 4 + 8 + n)" for n
    using align4_ge [of "offset + 4 + 8 + n"] by linarith
  ultimately show ?thesis
    using assms by (auto simp: fdt_next_def Let_def res_simps simp del: One_nat_def add_Suc_right split: if_splits)
qed

function fdt_loop ::
  "(fdt_event \<Rightarrow> 's \<Rightarrow> ('s, 'r) flow res) \<Rightarrow> u8 list \<Rightarrow> u8 list \<Rightarrow> nat \<Rightarrow> 's \<Rightarrow> ('s, 'r) flow res" where
  "fdt_loop h block strings offset s =
     and_then (fdt_next block strings offset) (\<lambda>nxt.
       case nxt of
         None \<Rightarrow> Inr (Go s)
       | Some (ev, offset') \<Rightarrow>
           and_then (h ev s) (\<lambda>f. case f of Ret r \<Rightarrow> Inr (Ret r) | Go s' \<Rightarrow> fdt_loop h block strings offset' s'))"
  by pat_completeness auto
termination
  by (relation "measure (\<lambda>(h, block, strings, offset, s). length block - offset)")
     (auto dest: fdt_next_progress)

declare fdt_loop.simps [simp del]

section \<open>Encoding\<close>

definition be32 :: "u32 \<Rightarrow> u8 list" where
  "be32 w = [ucast (drop_bit 24 w), ucast (drop_bit 16 w), ucast (drop_bit 8 w), ucast w]"

definition pad4 :: "u8 list \<Rightarrow> u8 list" where
  "pad4 xs = xs @ replicate (align4 (length xs) - length xs) 0"

fun enc_event :: "(u8 list \<Rightarrow> u32) \<Rightarrow> fdt_event \<Rightarrow> u8 list" where
  "enc_event nameoff (Begin_Node name) = be32 FDT_BEGIN_NODE @ pad4 (name @ [0])"
| "enc_event nameoff End_Node = be32 FDT_END_NODE"
| "enc_event nameoff (Prop name v) = be32 FDT_PROP @ be32 (of_nat (length v)) @ be32 (nameoff name) @ pad4 v"
| "enc_event nameoff Nop = be32 FDT_NOP"

text \<open>
  What the format can represent: node names without NUL, property values whose length fits the
  32-bit field, property names that stand at their offset in the strings block.
\<close>

fun event_ok :: "(u8 list \<Rightarrow> u32) \<Rightarrow> u8 list \<Rightarrow> fdt_event \<Rightarrow> bool" where
  "event_ok nameoff strings (Begin_Node name) \<longleftrightarrow> 0 \<notin> set name"
| "event_ok nameoff strings (Prop name v) \<longleftrightarrow>
     length v < 2 ^ 32 \<and> get_string strings (unat (nameoff name)) = name"
| "event_ok nameoff strings ev \<longleftrightarrow> True"

lemma length_be32 [simp]: "length (be32 w) = 4"
  by (simp add: be32_def)

lemma be32_join:
  "push_bit 24 (ucast (ucast (drop_bit 24 w) :: u8)) OR push_bit 16 (ucast (ucast (drop_bit 16 w) :: u8)) OR
   push_bit 8 (ucast (ucast (drop_bit 8 w) :: u8)) OR ucast (ucast w :: u8) = (w :: u32)" (is "?l = w")
proof (rule bit_word_eqI)
  fix n
  assume n: "n < LENGTH(32)"
  consider "n < 8" | "8 \<le> n" "n < 16" | "16 \<le> n" "n < 24" | "24 \<le> n" by linarith
  then show "bit ?l n = bit w n"
    using n by cases (auto simp: bit_simps)
qed

lemma read_be_u32_be32 [simp]: "read_be_u32 (be32 w) = Inr w"
  by (simp add: read_be_u32_def be32_def be32_join)

lemma read_field_at: "block = pre @ be32 w @ post \<Longrightarrow> offset = length pre \<Longrightarrow> read_field block offset = Inr w"
  by (simp add: read_field_def)

lemma align4_mod [simp]: "align4 v mod 4 = 0"
  by (simp add: align4_def minus_mod_eq_mult_div)

lemma align4_add: "a mod 4 = 0 \<Longrightarrow> align4 (a + b) = a + align4 b"
proof -
  assume "a mod 4 = 0"
  then obtain k where "a = 4 * k" by auto
  then show ?thesis using mod_less_divisor [of 4 "b + 3"] mod_less_eq_dividend [of "b + 3" 4]
    by (simp add: align4_def add.assoc)
qed

lemma length_pad4 [simp]: "length (pad4 xs) = align4 (length xs)"
  using align4_ge [of "length xs"] by (simp add: pad4_def)

lemma length_enc_event_mod: "length (enc_event nameoff ev) mod 4 = 0"
proof (cases ev)
  case (Begin_Node name)
  then show ?thesis using align4_mod [of "length name + 1"] by (simp add: mod_add_eq [of 4, symmetric])
next
  case (Prop name v)
  then show ?thesis using align4_mod [of "length v"] by (simp add: mod_add_eq [of 12, symmetric])
qed simp_all

lemma nul_from_at: "0 \<notin> set s \<Longrightarrow> nul_from (pre @ s @ 0 # post) (length pre) = length pre + length s"
proof (induction s arbitrary: pre)
  case Nil
  then show ?case by (subst nul_from.simps) simp
next
  case (Cons c s)
  then have "nul_from ((pre @ [c]) @ s @ 0 # post) (length (pre @ [c])) = length (pre @ [c]) + length s"
    by (intro Cons.IH) simp
  then show ?case using Cons.prems by (subst nul_from.simps) simp
qed

lemma get_string_at: "0 \<notin> set s \<Longrightarrow> get_string (pre @ s @ 0 # post) (length pre) = s"
  using nul_from_at [of s pre post] by (simp add: get_string_def)

section \<open>Scanning an encoded sequence\<close>

lemma fdt_next_event:
  assumes ok: "event_ok nameoff strings ev" and al: "length pre mod 4 = 0"
  shows "fdt_next (pre @ enc_event nameoff ev @ post) strings (length pre) =
    Inr (Some (ev, length pre + length (enc_event nameoff ev)))"
proof (cases ev)
  case (Begin_Node name)
  let ?pad = "replicate (align4 (length name + 1) - (length name + 1)) 0 @ post"
  let ?b = "pre @ be32 FDT_BEGIN_NODE @ name @ 0 # ?pad"
  have b: "pre @ enc_event nameoff ev @ post = ?b" by (simp add: Begin_Node pad4_def)
  have tok: "read_field ?b (length pre) = Inr FDT_BEGIN_NODE" by (rule read_field_at) simp_all
  have "nul_from ((pre @ be32 FDT_BEGIN_NODE) @ name @ 0 # ?pad) (length (pre @ be32 FDT_BEGIN_NODE)) =
    length (pre @ be32 FDT_BEGIN_NODE) + length name"
    using ok Begin_Node by (intro nul_from_at) simp
  then have nul: "nul_from ?b (length pre + 4) = length pre + 4 + length name" by simp
  have "align4 (length pre + 4 + (length name + 1)) = length pre + 4 + align4 (length name + 1)"
    using al by (intro align4_add) presburger
  then show ?thesis
    unfolding b unfolding fdt_next_def Let_def tok and_then.simps nul by (simp add: Begin_Node add.assoc)
next
  case (Prop name v)
  let ?hd = "pre @ be32 FDT_PROP @ be32 (of_nat (length v)) @ be32 (nameoff name)"
  let ?pad = "replicate (align4 (length v) - length v) 0 @ post"
  let ?b = "?hd @ v @ ?pad"
  have b: "pre @ enc_event nameoff ev @ post = ?b" by (simp add: Prop pad4_def)
  have v: "unat (of_nat (length v) :: u32) = length v" using ok Prop by (simp add: unat_of_nat)
  have tok: "read_field ?b (length pre) = Inr FDT_PROP"
    and len: "read_field ?b (length pre + 4) = Inr (of_nat (length v))"
    and off: "read_field ?b (length pre + 4 + 4) = Inr (nameoff name)"
    by (rule read_field_at [of _ pre], simp, simp)
       (rule read_field_at [of _ "pre @ be32 FDT_PROP"], simp, simp,
        rule read_field_at [of _ "pre @ be32 FDT_PROP @ be32 (of_nat (length v))"], simp, simp)
  have "align4 (length pre + 12 + length v) = length pre + 12 + align4 (length v)"
    using al by (intro align4_add) presburger
  then show ?thesis
    using ok unfolding b unfolding fdt_next_def Let_def tok and_then.simps len off v
    by (simp add: Prop add.assoc fdt_tokens v)
next
  case End_Node
  have "read_field (pre @ be32 FDT_END_NODE @ post) (length pre) = Inr FDT_END_NODE" by (rule read_field_at) simp_all
  then show ?thesis by (simp add: End_Node fdt_next_def fdt_tokens)
next
  case Nop
  have "read_field (pre @ be32 FDT_NOP @ post) (length pre) = Inr FDT_NOP" by (rule read_field_at) simp_all
  then show ?thesis by (simp add: Nop fdt_next_def fdt_tokens)
qed

lemma fdt_next_end: "fdt_next (pre @ be32 FDT_END @ post) strings (length pre) = Inr None"
proof -
  have "read_field (pre @ be32 FDT_END @ post) (length pre) = Inr FDT_END" by (rule read_field_at) simp_all
  then show ?thesis by (simp add: fdt_next_def fdt_tokens)
qed

text \<open>Running a handler over a sequence of events, until it returns.\<close>

fun run_events :: "(fdt_event \<Rightarrow> 's \<Rightarrow> ('s, 'r) flow res) \<Rightarrow> fdt_event list \<Rightarrow> 's \<Rightarrow> ('s, 'r) flow res" where
  "run_events h [] s = Inr (Go s)"
| "run_events h (ev # evs) s =
     and_then (h ev s) (\<lambda>f. case f of Ret r \<Rightarrow> Inr (Ret r) | Go s' \<Rightarrow> run_events h evs s')"

definition enc_events :: "(u8 list \<Rightarrow> u32) \<Rightarrow> fdt_event list \<Rightarrow> u8 list" where
  "enc_events nameoff evs = concat (map (enc_event nameoff) evs)"

lemma fdt_loop_events:
  assumes "list_all (event_ok nameoff strings) evs" and "length pre mod 4 = 0"
  shows "fdt_loop h (pre @ enc_events nameoff evs @ be32 FDT_END @ post) strings (length pre) s = run_events h evs s"
  using assms
proof (induction evs arbitrary: pre s)
  case Nil
  then show ?case by (subst fdt_loop.simps) (simp add: enc_events_def fdt_next_end [simplified])
next
  case (Cons ev evs)
  let ?rest = "enc_events nameoff evs @ be32 FDT_END @ post"
  let ?pre = "pre @ enc_event nameoff ev"
  have nxt: "fdt_next (pre @ enc_event nameoff ev @ ?rest) strings (length pre) = Inr (Some (ev, length ?pre))"
    using Cons.prems fdt_next_event [of nameoff strings ev pre ?rest] by simp
  have "length ?pre mod 4 = 0"
    using Cons.prems(2) length_enc_event_mod [of nameoff ev] by (simp add: mod_add_eq [symmetric])
  then have IH: "fdt_loop h (pre @ enc_event nameoff ev @ ?rest) strings (length ?pre) = run_events h evs"
    using Cons.prems Cons.IH [of ?pre] by (intro ext) simp
  have b: "pre @ enc_events nameoff (ev # evs) @ be32 FDT_END @ post = pre @ enc_event nameoff ev @ ?rest"
    by (simp add: enc_events_def)
  show ?case
    unfolding b
    by (subst fdt_loop.simps) (simp only: nxt and_then.simps option.case prod.case IH run_events.simps)
qed

lemma run_events_append:
  "run_events h (xs @ ys) s = and_then (run_events h xs s) (\<lambda>f. case f of Ret r \<Rightarrow> Inr (Ret r) | Go s' \<Rightarrow> run_events h ys s')"
proof (induction xs arbitrary: s)
  case (Cons ev xs)
  then show ?case by (cases "h ev s") (auto split: flow.splits)
qed simp

section \<open>Whole blobs\<close>

text \<open>
  A device tree in memory: the 40-byte header, the structure block and the strings block. The code
  does not read the reservation map, version and boot CPU fields of the header.
\<close>

definition fdt_header :: "nat \<Rightarrow> nat \<Rightarrow> nat \<Rightarrow> u8 list" where
  "fdt_header total_len struct_len strings_len =
     be32 FDT_MAGIC @ be32 (of_nat total_len) @ be32 40 @ be32 (of_nat (40 + struct_len)) @ be32 0 @ be32 17 @ be32 16 @
     be32 0 @ be32 (of_nat strings_len) @ be32 (of_nat struct_len)"

definition fdt_blob :: "(u8 list \<Rightarrow> u32) \<Rightarrow> u8 list \<Rightarrow> fdt_event list \<Rightarrow> u8 list" where
  "fdt_blob nameoff strings evs =
     (let block = enc_events nameoff evs @ be32 FDT_END
      in fdt_header (40 + length block + length strings) (length block) (length strings) @ block @ strings)"

definition in_memory :: "memory \<Rightarrow> u64 \<Rightarrow> u8 list \<Rightarrow> bool" where
  "in_memory mem pa bs \<longleftrightarrow> raw_slice mem pa (length bs) = bs"

lemma raw_slice_part: "i + j \<le> n \<Longrightarrow> raw_slice mem (a + of_nat i) j = take j (drop i (raw_slice mem a n))"
  by (intro nth_equalityI) (simp_all add: raw_slice_def add.assoc)

lemma in_memory_part:
  "in_memory mem pa (xs @ ys @ zs) \<Longrightarrow> raw_slice mem (pa + of_nat (length xs)) (length ys) = ys"
  using raw_slice_part [of "length xs" "length ys" "length (xs @ ys @ zs)" mem pa] by (simp add: in_memory_def)

lemma length_fdt_header [simp]: "length (fdt_header t s n) = 40"
  by (simp add: fdt_header_def)

lemma read_field_nth:
  assumes "i < length ws"
  shows "read_field (concat (map be32 ws)) (4 * i) = Inr (ws ! i)"
proof (rule read_field_at)
  show "concat (map be32 ws) = concat (map be32 (take i ws)) @ be32 (ws ! i) @ concat (map be32 (drop (Suc i) ws))"
    using id_take_nth_drop [OF assms] by (metis concat.simps(2) concat_append list.simps(9) map_append)
  have "length (concat (map be32 vs)) = 4 * length vs" for vs by (induction vs) simp_all
  then show "4 * i = length (concat (map be32 (take i ws)))" using assms by simp
qed

lemma fdt_header_words:
  "fdt_header t s n = concat (map be32 [FDT_MAGIC, of_nat t, 40, of_nat (40 + s), 0, 17, 16, 0, of_nat n, of_nat s])"
  by (simp add: fdt_header_def)

lemma fdt_header_fields:
  "read_field (fdt_header t s n) 0 = Inr FDT_MAGIC" "read_field (fdt_header t s n) 4 = Inr (of_nat t)"
  "read_field (fdt_header t s n) 8 = Inr 40" "read_field (fdt_header t s n) 12 = Inr (of_nat (40 + s))"
  "read_field (fdt_header t s n) 36 = Inr (of_nat s)" "read_field (fdt_header t s n) 32 = Inr (of_nat n)"
proof -
  let ?ws = "[FDT_MAGIC, of_nat t, 40, of_nat (40 + s), 0, 17, 16, 0, of_nat n, of_nat s]"
  have "read_field (fdt_header t s n) (4 * i) = Inr (?ws ! i)" if "i < 10" for i
    unfolding fdt_header_words using that by (intro read_field_nth) simp
  from this [of 0] this [of 1] this [of 2] this [of 3] this [of 9] this [of 8] show
    "read_field (fdt_header t s n) 0 = Inr FDT_MAGIC" "read_field (fdt_header t s n) 4 = Inr (of_nat t)"
    "read_field (fdt_header t s n) 8 = Inr 40" "read_field (fdt_header t s n) 12 = Inr (of_nat (40 + s))"
    "read_field (fdt_header t s n) 36 = Inr (of_nat s)" "read_field (fdt_header t s n) 32 = Inr (of_nat n)"
    by simp_all
qed

lemma fdt_blocks_blob:
  assumes mem: "in_memory mem pa (fdt_blob nameoff strings evs)" and len: "length (fdt_blob nameoff strings evs) < 2 ^ 32"
  shows "fdt_blocks mem pa =
    Inr (Some (of_nat (length (fdt_blob nameoff strings evs)), enc_events nameoff evs @ be32 FDT_END, strings))"
proof -
  let ?b = "enc_events nameoff evs @ be32 FDT_END"
  let ?h = "fdt_header (40 + length ?b + length strings) (length ?b) (length strings)"
  have blob: "fdt_blob nameoff strings evs = ?h @ ?b @ strings" by (simp add: fdt_blob_def Let_def)
  have h: "raw_slice mem pa 40 = ?h"
    using in_memory_part [of mem pa "[]" ?h "?b @ strings"] mem blob by simp
  have b: "raw_slice mem (pa + of_nat 40) (length ?b) = ?b"
    using in_memory_part [of mem pa ?h ?b strings] mem blob by simp
  have s: "raw_slice mem (pa + of_nat (40 + length ?b)) (length strings) = strings"
    using in_memory_part [of mem pa "?h @ ?b" strings "[]"] mem blob by simp
  have lens: "40 + length ?b + length strings < 2 ^ 32" using len blob by simp
  have u: "unat (of_nat k :: u32) = k" "ucast (of_nat k :: u32) = (of_nat k :: u64)" if "k < 2 ^ 32" for k
    using that by (simp_all add: unat_of_nat word_unat_eq_iff unsigned_ucast_eq take_bit_nat_eq_self_iff)
  show ?thesis
    using lens
    by (simp only: fdt_blocks_def Let_def h fdt_header_fields and_then.simps u b [simplified] s [simplified])
      (simp add: blob u [of 40, simplified] u b [simplified] s [simplified])
qed

lemma fdt_scan_blob:
  "list_all (event_ok nameoff strings) evs \<Longrightarrow>
    fdt_loop h (enc_events nameoff evs @ be32 FDT_END) strings 0 s = run_events h evs s"
  using fdt_loop_events [of nameoff strings evs "[]" h "[]" s] by simp

end
