(* ===== verification/Dtb.thy ===== *)
theory Dtb
  imports Fdt
begin

text \<open>
  \<open>parse\<close> of \<open>src/mm/dtb.rs\<close>: from the device tree to the raw memory map. The handler \<open>parse_event\<close> is the
  body of its \<open>match\<close>, on the stack of 32 node contexts and the map.

  Below it, device trees as trees: typed properties, the events of a tree in document order, and the
  regions a tree describes. The refinement theorem says that \<open>parse\<close> of the encoding of a tree adds
  exactly the regions of the tree.
\<close>

section \<open>Definitions\<close>

record node_context =
  addr_cells :: u32
  size_cells :: u32
  in_reserved :: bool
  is_memory :: bool

definition root_context :: node_context where
  "root_context = \<lparr>addr_cells = 2, size_cells = 2, in_reserved = False, is_memory = False\<rparr>"

definition DTB_DEPTH :: nat where
  "DTB_DEPTH = 32"

record parse_state =
  ps_stack :: "node_context list"
  ps_depth :: nat
  ps_map :: memory_map

text \<open>
  The loop over the entries of a \<open>reg\<close> property. It is entered only with \<open>entry_bytes\<close> not zero; the
  first conjunct makes the recursion total.
\<close>

function reg_loop :: "node_context \<Rightarrow> u8 list \<Rightarrow> nat \<Rightarrow> nat \<Rightarrow> memory_map \<Rightarrow> memory_map res" where
  "reg_loop ctx val entry_bytes pos m =
     (if 0 < entry_bytes \<and> pos + entry_bytes \<le> length val
      then
        and_then (sub_slice val pos (pos + unat (addr_cells ctx) * 4)) (\<lambda>a.
        and_then (read_cells a (addr_cells ctx)) (\<lambda>addr.
        and_then (sub_slice val (pos + unat (addr_cells ctx) * 4) (pos + entry_bytes)) (\<lambda>b.
        and_then (read_cells b (size_cells ctx)) (\<lambda>sz.
          reg_loop ctx val entry_bytes (pos + entry_bytes)
            (if is_memory ctx then add_region m addr sz UsableRam
             else if in_reserved ctx then add_region m addr sz Reserved
             else m)))))
      else Inr m)"
  by pat_completeness auto
termination
  by (relation "measure (\<lambda>(ctx, val, entry_bytes, pos, m). length val - pos)") auto

declare reg_loop.simps [simp del]

definition parse_prop ::
  "u8 list \<Rightarrow> u8 list \<Rightarrow> node_context \<Rightarrow> memory_map \<Rightarrow> (node_context \<times> memory_map) res" where
  "parse_prop name val ctx m =
     (if name = bytes_of ''#address-cells'' then
        if length val \<ge> 4 then and_then (read_be_u32 val) (\<lambda>w. Inr (ctx\<lparr>addr_cells := w\<rparr>, m)) else Inr (ctx, m)
      else if name = bytes_of ''#size-cells'' then
        if length val \<ge> 4 then and_then (read_be_u32 val) (\<lambda>w. Inr (ctx\<lparr>size_cells := w\<rparr>, m)) else Inr (ctx, m)
      else if name = bytes_of ''device_type'' then
        Inr (if name_starts_with val (bytes_of ''memory'') then ctx\<lparr>is_memory := True\<rparr> else ctx, m)
      else if name = bytes_of ''reg'' then
        let tuple_cells = unat (addr_cells ctx + size_cells ctx) in
        if tuple_cells = 0 then Inr (ctx, m)
        else and_then (reg_loop ctx val (tuple_cells * 4) 0 m) (\<lambda>m'. Inr (ctx, m'))
      else Inr (ctx, m))"

definition enter_context :: "u8 list \<Rightarrow> node_context \<Rightarrow> node_context" where
  "enter_context name parent =
     (let ctx = parent;
          ctx = (if name_starts_with name (bytes_of ''reserved-memory'') then ctx\<lparr>in_reserved := True\<rparr> else ctx)
      in if name_starts_with name (bytes_of ''memory'') then ctx\<lparr>is_memory := True\<rparr> else ctx)"

fun parse_event :: "fdt_event \<Rightarrow> parse_state \<Rightarrow> (parse_state, unit) flow res" where
  "parse_event (Begin_Node name) s =
     and_then (if ps_depth s = 0 then Inr root_context else arr_get (ps_stack s) (ps_depth s - 1)) (\<lambda>parent.
       let ctx = enter_context name parent
       in if ps_depth s < length (ps_stack s)
          then Inr (Go (s\<lparr>ps_stack := (ps_stack s)[ps_depth s := ctx], ps_depth := ps_depth s + 1\<rparr>))
          else Inr (Go s))"
| "parse_event End_Node s = Inr (Go (if ps_depth s > 0 then s\<lparr>ps_depth := ps_depth s - 1\<rparr> else s))"
| "parse_event (Prop name val) s =
     (if ps_depth s = 0 then Inr (Go s)
      else and_then (arr_get (ps_stack s) (ps_depth s - 1)) (\<lambda>ctx.
           and_then (parse_prop name val ctx (ps_map s)) (\<lambda>(ctx', m).
             Inr (Go (s\<lparr>ps_stack := (ps_stack s)[ps_depth s - 1 := ctx'], ps_map := m\<rparr>)))))"
| "parse_event Nop s = Inr (Go s)"

text \<open>The map after the call, and \<open>total_size\<close> of the tree if there is one. The handler never returns early.\<close>

definition dtb_parse :: "memory \<Rightarrow> u64 \<Rightarrow> memory_map \<Rightarrow> (memory_map \<times> u32 option) res" where
  "dtb_parse mem dtb_pa m =
     (if dtb_pa = 0 then Inr (m, None)
      else and_then (fdt_blocks mem dtb_pa) (\<lambda>r.
        case r of
          None \<Rightarrow> Inr (m, None)
        | Some (total_size, block, strings) \<Rightarrow>
            and_then (fdt_loop parse_event block strings 0
                \<lparr>ps_stack = replicate DTB_DEPTH root_context, ps_depth = 0, ps_map = m\<rparr>) (\<lambda>f.
              case f of Go s \<Rightarrow> Inr (ps_map s, Some total_size) | Ret u \<Rightarrow> Inr (m, None))))"

section \<open>Device trees\<close>

datatype fdt_prop =
    Address_Cells u32
  | Size_Cells u32
  | Device_Type "u8 list"
  | Reg "(u64 \<times> u64) list"
  | Other "u8 list" "u8 list"

datatype fdt_tree = Node "u8 list" "fdt_prop list" "fdt_tree list"

text \<open>A number in \<open>0\<close>, \<open>1\<close> or \<open>2\<close> cells, most significant first.\<close>

definition enc_cells :: "u32 \<Rightarrow> u64 \<Rightarrow> u8 list" where
  "enc_cells n v =
     (if n = 0 then [] else if n = 1 then be32 (ucast v) else be32 (ucast (drop_bit 32 v)) @ be32 (ucast v))"

definition cells_fit :: "u32 \<Rightarrow> u64 \<Rightarrow> bool" where
  "cells_fit n v \<longleftrightarrow> n = 0 \<and> v = 0 \<or> n = 1 \<and> v < 2 ^ 32 \<or> n = 2"

definition enc_reg :: "node_context \<Rightarrow> (u64 \<times> u64) list \<Rightarrow> u8 list" where
  "enc_reg ctx es = concat (map (\<lambda>(a, s). enc_cells (addr_cells ctx) a @ enc_cells (size_cells ctx) s) es)"

fun prop_event :: "node_context \<Rightarrow> fdt_prop \<Rightarrow> fdt_event" where
  "prop_event ctx (Address_Cells n) = Prop (bytes_of ''#address-cells'') (be32 n)"
| "prop_event ctx (Size_Cells n) = Prop (bytes_of ''#size-cells'') (be32 n)"
| "prop_event ctx (Device_Type t) = Prop (bytes_of ''device_type'') t"
| "prop_event ctx (Reg es) = Prop (bytes_of ''reg'') (enc_reg ctx es)"
| "prop_event ctx (Other n v) = Prop n v"

fun prop_context :: "node_context \<Rightarrow> fdt_prop \<Rightarrow> node_context" where
  "prop_context ctx (Address_Cells n) = ctx\<lparr>addr_cells := n\<rparr>"
| "prop_context ctx (Size_Cells n) = ctx\<lparr>size_cells := n\<rparr>"
| "prop_context ctx (Device_Type t) =
     (if name_starts_with t (bytes_of ''memory'') then ctx\<lparr>is_memory := True\<rparr> else ctx)"
| "prop_context ctx p = ctx"

fun prop_regions :: "node_context \<Rightarrow> fdt_prop \<Rightarrow> (u64 \<times> u64 \<times> region_kind) list" where
  "prop_regions ctx (Reg es) =
     (if is_memory ctx then map (\<lambda>(a, s). (a, s, UsableRam)) es
      else if in_reserved ctx then map (\<lambda>(a, s). (a, s, Reserved)) es
      else [])"
| "prop_regions ctx p = []"

definition known_props :: "u8 list set" where
  "known_props = bytes_of ` {''#address-cells'', ''#size-cells'', ''device_type'', ''reg''}"

fun prop_ok :: "node_context \<Rightarrow> fdt_prop \<Rightarrow> bool" where
  "prop_ok ctx (Reg es) \<longleftrightarrow>
     addr_cells ctx \<noteq> 0 \<and> (\<forall>(a, s)\<in>set es. cells_fit (addr_cells ctx) a \<and> cells_fit (size_cells ctx) s)"
| "prop_ok ctx (Other n v) \<longleftrightarrow> n \<notin> known_props"
| "prop_ok ctx p \<longleftrightarrow> True"

fun props_events :: "node_context \<Rightarrow> fdt_prop list \<Rightarrow> fdt_event list" where
  "props_events ctx [] = []"
| "props_events ctx (p # ps) = prop_event ctx p # props_events (prop_context ctx p) ps"

fun props_regions :: "node_context \<Rightarrow> fdt_prop list \<Rightarrow> (u64 \<times> u64 \<times> region_kind) list" where
  "props_regions ctx [] = []"
| "props_regions ctx (p # ps) = prop_regions ctx p @ props_regions (prop_context ctx p) ps"

fun props_ok :: "node_context \<Rightarrow> fdt_prop list \<Rightarrow> bool" where
  "props_ok ctx [] \<longleftrightarrow> True"
| "props_ok ctx (p # ps) \<longleftrightarrow> prop_ok ctx p \<and> props_ok (prop_context ctx p) ps"

text \<open>The context a node hands to its children.\<close>

definition child_context :: "node_context \<Rightarrow> u8 list \<Rightarrow> fdt_prop list \<Rightarrow> node_context" where
  "child_context parent name ps = fold (\<lambda>p ctx. prop_context ctx p) ps (enter_context name parent)"

fun tree_events :: "node_context \<Rightarrow> fdt_tree \<Rightarrow> fdt_event list" where
  "tree_events parent (Node name ps ts) =
     Begin_Node name # props_events (enter_context name parent) ps @
     concat (map (tree_events (child_context parent name ps)) ts) @ [End_Node]"

fun tree_regions :: "node_context \<Rightarrow> fdt_tree \<Rightarrow> (u64 \<times> u64 \<times> region_kind) list" where
  "tree_regions parent (Node name ps ts) =
     props_regions (enter_context name parent) ps @ concat (map (tree_regions (child_context parent name ps)) ts)"

fun tree_ok :: "node_context \<Rightarrow> fdt_tree \<Rightarrow> bool" where
  "tree_ok parent (Node name ps ts) \<longleftrightarrow>
     props_ok (enter_context name parent) ps \<and> list_all (tree_ok (child_context parent name ps)) ts"

fun tree_height :: "fdt_tree \<Rightarrow> nat" where
  "tree_height (Node name ps ts) = Suc (fold max (map tree_height ts) 0)"

definition add_regions :: "(u64 \<times> u64 \<times> region_kind) list \<Rightarrow> memory_map \<Rightarrow> memory_map" where
  "add_regions rs m = fold (\<lambda>(a, s, k) m. add_region m a s k) rs m"

section \<open>Reading properties\<close>

lemma join_cells: "push_bit 32 (ucast (ucast (drop_bit 32 v) :: u32)) OR ucast (ucast v :: u32) = (v :: u64)" (is "?l = v")
proof (rule bit_word_eqI)
  fix n
  assume n: "n < LENGTH(64)"
  then show "bit ?l n = bit v n" by (cases "n < 32") (auto simp: bit_simps)
qed

lemma ucast_u32_fits: "v < 2 ^ 32 \<Longrightarrow> ucast (ucast v :: u32) = (v :: u64)"
  by (simp add: word_unat_eq_iff unsigned_ucast_eq unsigned_take_bit_eq take_bit_nat_eq_self_iff word_less_nat_alt)

lemma read_cells_1: "read_cells (be32 w) 1 = Inr (ucast w)"
proof -
  have "read_cells_loop (be32 w) 1 0 0 = Inr (ucast w)"
    by (subst read_cells_loop.simps, simp add: read_cells_loop.simps)
  then show ?thesis by (simp add: read_cells_def)
qed

lemma read_cells_2: "read_cells (be32 hi @ be32 lo) 2 = Inr (push_bit 32 (ucast hi) OR ucast lo)"
proof -
  have "read_cells_loop (be32 hi @ be32 lo) 2 0 0 = Inr (push_bit 32 (ucast hi) OR ucast lo)"
    by (subst read_cells_loop.simps, simp, subst read_cells_loop.simps, simp add: read_cells_loop.simps)
  then show ?thesis by (simp add: read_cells_def)
qed

lemma read_enc_cells: "cells_fit n v \<Longrightarrow> read_cells (enc_cells n v) n = Inr v"
proof -
  assume "cells_fit n v"
  then consider "n = 0" "v = 0" | "n = 1" "v < 2 ^ 32" | "n = 2" by (auto simp: cells_fit_def)
  then show ?thesis
  proof cases
    case 1
    then show ?thesis by (simp add: read_cells_def read_cells_loop.simps)
  next
    case 2
    then show ?thesis by (simp add: enc_cells_def read_cells_1 ucast_u32_fits)
  next
    case 3
    then show ?thesis by (simp add: enc_cells_def read_cells_2 join_cells)
  qed
qed

lemma length_enc_cells: "cells_fit n v \<Longrightarrow> length (enc_cells n v) = unat n * 4"
  by (auto simp: cells_fit_def enc_cells_def)

definition reg_regions :: "node_context \<Rightarrow> (u64 \<times> u64) list \<Rightarrow> memory_map \<Rightarrow> memory_map" where
  "reg_regions ctx es m = add_regions (prop_regions ctx (Reg es)) m"

lemma reg_regions_simps:
  "reg_regions ctx [] m = m"
  "reg_regions ctx ((a, s) # es) m =
     reg_regions ctx es (if is_memory ctx then add_region m a s UsableRam
       else if in_reserved ctx then add_region m a s Reserved else m)"
  by (simp_all add: reg_regions_def add_regions_def)

lemma reg_loop_enc:
  assumes "addr_cells ctx \<noteq> 0" and "\<forall>(a, s)\<in>set es. cells_fit (addr_cells ctx) a \<and> cells_fit (size_cells ctx) s"
    and "addr_cells ctx \<le> 2" and "size_cells ctx \<le> 2"
  shows "reg_loop ctx (pre @ enc_reg ctx es) (unat (addr_cells ctx + size_cells ctx) * 4) (length pre) m =
    Inr (reg_regions ctx es m)"
proof -
  let ?a = "unat (addr_cells ctx)" and ?s = "unat (size_cells ctx)"
  have a: "?a \<le> 2" "0 < ?a" and s: "?s \<le> 2" using assms by (simp_all add: word_le_nat_alt unat_gt_0)
  have t: "unat (addr_cells ctx + size_cells ctx) = ?a + ?s" using a s by (simp add: unat_word_ariths(1))
  show ?thesis
    using assms(2)
  proof (induction es arbitrary: pre m)
    case Nil
    then show ?case using a by (subst reg_loop.simps) (simp add: enc_reg_def reg_regions_simps t)
  next
    case (Cons e es)
    obtain ad sz where e: "e = (ad, sz)" by (metis surj_pair)
    let ?ea = "enc_cells (addr_cells ctx) ad" and ?es = "enc_cells (size_cells ctx) sz"
    have fit: "cells_fit (addr_cells ctx) ad" "cells_fit (size_cells ctx) sz" using Cons.prems e by auto
    note len = length_enc_cells [OF fit(1)] length_enc_cells [OF fit(2)]
    have b: "pre @ enc_reg ctx (e # es) = pre @ ?ea @ ?es @ enc_reg ctx es" by (simp add: enc_reg_def e)
    have IH: "reg_loop ctx (pre @ ?ea @ ?es @ enc_reg ctx es) (?a * 4 + ?s * 4) (length pre + (?a * 4 + ?s * 4)) m' =
        Inr (reg_regions ctx es m')" for m'
      using Cons.IH [of "pre @ ?ea @ ?es" m'] Cons.prems by (simp add: len t algebra_simps)
    show ?case
      unfolding b t
      by (subst reg_loop.simps)
        (use a in \<open>simp add: len read_enc_cells [OF fit(1)] read_enc_cells [OF fit(2)] IH e reg_regions_simps algebra_simps\<close>)
  qed
qed

lemma cells_fit_le: "cells_fit n v \<Longrightarrow> n \<le> 2"
  by (auto simp: cells_fit_def)

lemma read_be_u32_prefix: "read_be_u32 (be32 w @ post) = Inr w"
  using read_be_u32_be32 [of w] by (simp add: read_be_u32_def be32_def)

lemma parse_prop_reg:
  assumes "prop_ok ctx (Reg es)"
  shows "parse_prop (bytes_of ''reg'') (enc_reg ctx es) ctx m = Inr (ctx, reg_regions ctx es m)"
proof (cases "unat (addr_cells ctx + size_cells ctx) = 0 \<or> es = []")
  case True
  moreover have "es = []" if t: "unat (addr_cells ctx + size_cells ctx) = 0"
  proof (rule ccontr)
    assume "es \<noteq> []"
    then obtain a s where "(a, s) \<in> set es" by (metis hd_in_set surj_pair)
    with assms have "addr_cells ctx \<le> 2" "size_cells ctx \<le> 2" "addr_cells ctx \<noteq> 0" by (auto dest: cells_fit_le)
    then have "unat (addr_cells ctx) \<le> 2" "unat (size_cells ctx) \<le> 2" "0 < unat (addr_cells ctx)"
      by (simp_all add: word_le_nat_alt unat_gt_0)
    with t show False by (simp add: unat_word_ariths(1))
  qed
  ultimately have "es = []" by blast
  then show ?thesis
    by (simp add: parse_prop_def Let_def enc_reg_def reg_regions_simps reg_loop.simps bytes_of_def)
next
  case False
  then obtain a s where "(a, s) \<in> set es" by (metis hd_in_set surj_pair)
  with assms have "addr_cells ctx \<le> 2" "size_cells ctx \<le> 2" by (auto dest: cells_fit_le)
  with assms False reg_loop_enc [of ctx es "[]" m] show ?thesis
    by (simp add: parse_prop_def Let_def bytes_of_def)
qed

lemma parse_prop_event:
  assumes "prop_ok ctx p" and "prop_event ctx p = Prop name val"
  shows "parse_prop name val ctx m = Inr (prop_context ctx p, add_regions (prop_regions ctx p) m)"
proof (cases p)
  case (Reg es)
  then show ?thesis using assms parse_prop_reg [of ctx es m] by (simp add: reg_regions_def)
next
  case (Other n v)
  then show ?thesis using assms by (auto simp: parse_prop_def known_props_def add_regions_def)
next
  case (Address_Cells n)
  then show ?thesis using assms read_be_u32_be32 [of n] by (auto simp: parse_prop_def add_regions_def)
next
  case (Size_Cells n)
  then show ?thesis using assms read_be_u32_be32 [of n] by (auto simp: parse_prop_def add_regions_def bytes_of_def)
next
  case (Device_Type t)
  then show ?thesis using assms by (auto simp: parse_prop_def add_regions_def bytes_of_def)
qed

lemma prop_event_Prop: "\<exists>name val. prop_event ctx p = Prop name val"
  by (cases p) simp_all

lemma add_regions_append: "add_regions (xs @ ys) m = add_regions ys (add_regions xs m)"
  by (simp add: add_regions_def)

lemma add_regions_Nil [simp]: "add_regions [] m = m"
  by (simp add: add_regions_def)

text \<open>The properties of a node, at the top of the stack.\<close>

lemma run_props:
  assumes "props_ok ctx ps" and "ps_depth s = Suc d" and "d < length (ps_stack s)" and "ps_stack s ! d = ctx"
  shows "run_events parse_event (props_events ctx ps) s =
    Inr (Go (s\<lparr>ps_stack := (ps_stack s)[d := fold (\<lambda>p ctx. prop_context ctx p) ps ctx],
               ps_map := add_regions (props_regions ctx ps) (ps_map s)\<rparr>))"
  using assms
proof (induction ps arbitrary: ctx s)
  case Nil
  then show ?case by (auto simp: list_update_id intro!: parse_state.equality)
next
  case (Cons p ps)
  obtain name val where ev: "prop_event ctx p = Prop name val" using prop_event_Prop by blast
  have pp: "parse_prop name val ctx (ps_map s) = Inr (prop_context ctx p, add_regions (prop_regions ctx p) (ps_map s))"
    using Cons.prems(1) ev by (intro parse_prop_event) simp_all
  let ?s = "s\<lparr>ps_stack := (ps_stack s)[d := prop_context ctx p], ps_map := add_regions (prop_regions ctx p) (ps_map s)\<rparr>"
  have step: "parse_event (Prop name val) s = Inr (Go ?s)" using Cons.prems pp by simp
  have "run_events parse_event (props_events (prop_context ctx p) ps) ?s =
    Inr (Go (?s\<lparr>ps_stack := (ps_stack ?s)[d := fold (\<lambda>p ctx. prop_context ctx p) ps (prop_context ctx p)],
               ps_map := add_regions (props_regions (prop_context ctx p) ps) (ps_map ?s)\<rparr>))"
    using Cons.prems by (intro Cons.IH) simp_all
  then show ?case by (simp add: ev step add_regions_append del: parse_event.simps)
qed

definition top_context :: "parse_state \<Rightarrow> node_context" where
  "top_context s = (if ps_depth s = 0 then root_context else ps_stack s ! (ps_depth s - 1))"

text \<open>What stays the same below a finished subtree.\<close>

definition same_below :: "parse_state \<Rightarrow> parse_state \<Rightarrow> bool" where
  "same_below s s' \<longleftrightarrow> ps_depth s' = ps_depth s \<and> length (ps_stack s') = length (ps_stack s) \<and>
     take (ps_depth s) (ps_stack s') = take (ps_depth s) (ps_stack s)"

lemma same_below_trans: "same_below s t \<Longrightarrow> same_below t u \<Longrightarrow> same_below s u"
  by (simp add: same_below_def)

lemma same_below_top: "same_below s s' \<Longrightarrow> ps_depth s \<le> length (ps_stack s) \<Longrightarrow> top_context s' = top_context s"
  unfolding same_below_def top_context_def
  by (cases "ps_depth s") (auto dest: arg_cong [where f = "\<lambda>l. l ! (ps_depth s - 1)"])

lemma tree_height_le: "t \<in> set ts \<Longrightarrow> tree_height t < tree_height (Node name ps ts)"
proof -
  assume t: "t \<in> set ts"
  have "\<forall>y. y \<in> set xs \<longrightarrow> y \<le> fold max xs (acc :: nat)" "acc \<le> fold max xs (acc :: nat)" for xs acc
    by (induction xs arbitrary: acc) (auto intro: order_trans [OF max.cobounded1] order_trans [OF max.cobounded2])
  from this(1) [of "map tree_height ts" 0] t show ?thesis by (auto simp: less_Suc_eq_le)
qed

text \<open>A run over complete subtrees: it adds the given regions and leaves the stack below as it was.\<close>

definition ran :: "parse_state \<Rightarrow> fdt_event list \<Rightarrow> (u64 \<times> u64 \<times> region_kind) list \<Rightarrow> parse_state \<Rightarrow> bool" where
  "ran s evs rs s' \<longleftrightarrow> run_events parse_event evs s = Inr (Go s') \<and> same_below s s' \<and> ps_map s' = add_regions rs (ps_map s)"

lemma ran_Nil: "ran s [] [] s"
  by (simp add: ran_def same_below_def)

lemma ran_append: "ran s xs rs t \<Longrightarrow> ran t ys qs u \<Longrightarrow> ran s (xs @ ys) (rs @ qs) u"
  by (auto simp: ran_def run_events_append add_regions_append intro: same_below_trans)

lemma ran_top: "ran s evs rs s' \<Longrightarrow> ps_depth s \<le> length (ps_stack s) \<Longrightarrow>
    top_context s' = top_context s \<and> ps_depth s' = ps_depth s \<and> length (ps_stack s') = length (ps_stack s)"
  by (simp add: ran_def same_below_top) (simp add: same_below_def)

lemma ran_children:
  assumes step: "\<And>u s. u \<in> set us \<Longrightarrow> top_context s = k \<Longrightarrow> ps_depth s = d \<Longrightarrow> length (ps_stack s) = n \<Longrightarrow>
      \<exists>s'. ran s (tree_events k u) (tree_regions k u) s'"
    and s: "top_context s = k" "ps_depth s = d" "length (ps_stack s) = n" "d \<le> n"
  shows "\<exists>s'. ran s (concat (map (tree_events k) us)) (concat (map (tree_regions k) us)) s'"
  using step s(1-3)
proof (induction us arbitrary: s)
  case Nil
  then show ?case using ran_Nil by auto
next
  case (Cons u us)
  obtain t where t: "ran s (tree_events k u) (tree_regions k u) t" using Cons.prems(1) [of u s] Cons.prems(2-4) by auto
  from ran_top [OF t] Cons.prems(2-4) s(4) obtain s' where
    "ran t (concat (map (tree_events k) us)) (concat (map (tree_regions k) us)) s'"
    using Cons.IH [of t] Cons.prems(1) by auto
  from ran_append [OF t this] show ?case by auto
qed

text \<open>Entering a node and reading its properties.\<close>

lemma run_node:
  assumes "props_ok (enter_context name (top_context s)) ps" and "ps_depth s < length (ps_stack s)"
  shows "run_events parse_event (Begin_Node name # props_events (enter_context name (top_context s)) ps) s =
    Inr (Go (s\<lparr>ps_stack := (ps_stack s)[ps_depth s := child_context (top_context s) name ps], ps_depth := Suc (ps_depth s),
      ps_map := add_regions (props_regions (enter_context name (top_context s)) ps) (ps_map s)\<rparr>))"
proof -
  let ?d = "ps_depth s" and ?c = "enter_context name (top_context s)"
  let ?s1 = "s\<lparr>ps_stack := (ps_stack s)[?d := ?c], ps_depth := ?d + 1\<rparr>"
  have "parse_event (Begin_Node name) s = Inr (Go ?s1)" using assms(2) by (simp add: top_context_def)
  with assms run_props [of ?c ps ?s1 ?d] show ?thesis by (simp add: child_context_def del: parse_event.simps)
qed

lemma run_tree:
  "tree_ok (top_context s) t \<Longrightarrow> ps_depth s + tree_height t \<le> length (ps_stack s) \<Longrightarrow>
    \<exists>s'. ran s (tree_events (top_context s) t) (tree_regions (top_context s) t) s'"
proof (induction t arbitrary: s)
  case (Node name ps ts)
  let ?d = "ps_depth s" and ?c = "enter_context name (top_context s)" and ?k = "child_context (top_context s) name ps"
  let ?s2 = "s\<lparr>ps_stack := (ps_stack s)[?d := ?k], ps_depth := Suc ?d, ps_map := add_regions (props_regions ?c ps) (ps_map s)\<rparr>"
  have d: "?d < length (ps_stack s)" using Node.prems(2) by simp
  then have node: "run_events parse_event (Begin_Node name # props_events ?c ps) s = Inr (Go ?s2)"
    using Node.prems(1) by (intro run_node) simp_all
  have kid: "\<exists>s'. ran s2 (tree_events ?k u) (tree_regions ?k u) s'"
    if "u \<in> set ts" "top_context s2 = ?k" "ps_depth s2 = Suc ?d" "length (ps_stack s2) = length (ps_stack s)" for u s2
    using Node.IH [of u s2] that Node.prems tree_height_le [OF that(1), of name ps] by (simp add: list_all_iff)
  have "\<exists>s3. ran ?s2 (concat (map (tree_events ?k) ts)) (concat (map (tree_regions ?k) ts)) s3"
    by (rule ran_children [of ts ?k "Suc ?d" "length (ps_stack s)" ?s2, OF kid]) (use d in \<open>simp_all add: top_context_def\<close>)
  then obtain s3 where s3: "ran ?s2 (concat (map (tree_events ?k) ts)) (concat (map (tree_regions ?k) ts)) s3" ..
  let ?s4 = "s3\<lparr>ps_depth := ?d\<rparr>"
  have sb: "same_below ?s2 s3" using s3 by (simp add: ran_def)
  then have fin: "run_events parse_event [End_Node] s3 = Inr (Go ?s4)" by (simp add: same_below_def)
  have "take ?d (ps_stack s3) = take ?d (take (Suc ?d) (ps_stack s3))" by (simp add: min_def)
  also have "\<dots> = take ?d (ps_stack s)" using sb by (simp add: same_below_def min_def)
  finally have "same_below s ?s4" using sb by (simp add: same_below_def)
  moreover have "tree_events (top_context s) (Node name ps ts) =
      (Begin_Node name # props_events ?c ps) @ concat (map (tree_events ?k) ts) @ [End_Node]" by simp
  then have "run_events parse_event (tree_events (top_context s) (Node name ps ts)) s = Inr (Go ?s4)"
    using s3 by (simp only: run_events_append node ran_def and_then.simps flow.case fin)
  moreover have "ps_map ?s4 = add_regions (tree_regions (top_context s) (Node name ps ts)) (ps_map s)"
    using s3 by (simp add: ran_def add_regions_append)
  ultimately show ?case unfolding ran_def by blast
qed

section \<open>Properties\<close>

lemma dtb_parse_events:
  assumes "pa \<noteq> 0" and "in_memory mem pa (fdt_blob nameoff strings evs)"
    and "length (fdt_blob nameoff strings evs) < 2 ^ 32" and "list_all (event_ok nameoff strings) evs"
  shows "dtb_parse mem pa m =
    and_then (run_events parse_event evs \<lparr>ps_stack = replicate DTB_DEPTH root_context, ps_depth = 0, ps_map = m\<rparr>)
      (\<lambda>f. case f of Go s \<Rightarrow> Inr (ps_map s, Some (of_nat (length (fdt_blob nameoff strings evs)))) | Ret u \<Rightarrow> Inr (m, None))"
  using assms by (simp add: dtb_parse_def fdt_blocks_blob fdt_scan_blob)


text \<open>A blob placed in memory, and a tree as firmware builds it.\<close>

definition place :: "u64 \<Rightarrow> u8 list \<Rightarrow> memory" where
  "place pa bs a = (if unat (a - pa) < length bs then bs ! unat (a - pa) else 0)"

lemma in_memory_place: "length bs < 2 ^ 64 \<Longrightarrow> in_memory (place pa bs) pa bs"
  unfolding in_memory_def by (intro nth_equalityI) (simp_all add: raw_slice_def place_def unat_of_nat)

definition demo_tree :: fdt_tree where
  "demo_tree = Node [] [Address_Cells 1, Size_Cells 1]
     [Node (bytes_of ''memory@0'') [Device_Type (bytes_of ''memory''), Reg [(0, 0x40000000)]] [],
      Node (bytes_of ''reserved-memory'') [] [Node (bytes_of ''fw@1000'') [Reg [(0x1000, 0x2000)]] []],
      Node (bytes_of ''soc'') [Other (bytes_of ''status'') [], Reg [(0x7c000000, 0x1000)]] []]"

definition demo_names :: "string list" where
  "demo_names = [''#address-cells'', ''#size-cells'', ''device_type'', ''reg'', ''status'', ''compatible'',
     ''width'', ''height'', ''stride'', ''format'']"

definition demo_strings :: "u8 list" where
  "demo_strings = concat (map (\<lambda>n. bytes_of n @ [0]) demo_names)"

fun offset_of :: "string list \<Rightarrow> nat \<Rightarrow> u8 list \<Rightarrow> u32" where
  "offset_of [] k n = of_nat k"
| "offset_of (m # ms) k n = (if bytes_of m = n then of_nat k else offset_of ms (k + length m + 1) n)"

definition demo_nameoff :: "u8 list \<Rightarrow> u32" where
  "demo_nameoff = offset_of demo_names 0"

lemma get_string_offset_of:
  assumes "n \<in> set ns" and "\<forall>m\<in>set ns. 0 \<notin> set (bytes_of m)"
    and "length (pre @ concat (map (\<lambda>m. bytes_of m @ [0]) ns)) < 2 ^ 32"
  shows "get_string (pre @ concat (map (\<lambda>m. bytes_of m @ [0]) ns)) (unat (offset_of ns (length pre) (bytes_of n))) = bytes_of n"
  using assms
proof (induction ns arbitrary: pre)
  case (Cons m ns)
  show ?case
  proof (cases "bytes_of m = bytes_of n")
    case True
    then have "get_string (pre @ bytes_of m @ 0 # concat (map (\<lambda>m. bytes_of m @ [0]) ns)) (length pre) = bytes_of n"
      using Cons.prems(2) get_string_at [of "bytes_of m" pre] by simp
    moreover have "unat (of_nat (length pre) :: u32) = length pre" using Cons.prems(3) by (simp add: unat_of_nat)
    ultimately show ?thesis using True by simp
  next
    case False
    then have "n \<in> set ns" using Cons.prems(1) by auto
    then have "get_string ((pre @ bytes_of m @ [0]) @ concat (map (\<lambda>m. bytes_of m @ [0]) ns))
        (unat (offset_of ns (length (pre @ bytes_of m @ [0])) (bytes_of n))) = bytes_of n"
      using Cons.prems(2,3) by (intro Cons.IH) simp_all
    then show ?thesis using False by (simp add: bytes_of_def add.assoc)
  qed
qed simp

lemma demo_name: "n \<in> set demo_names \<Longrightarrow> get_string demo_strings (unat (demo_nameoff (bytes_of n))) = bytes_of n"
  unfolding demo_strings_def demo_nameoff_def
  by (rule get_string_offset_of [of _ _ "[]", simplified]) (auto simp: demo_names_def bytes_of_def)

lemma demo_events_ok: "list_all (event_ok demo_nameoff demo_strings) (tree_events root_context demo_tree)"
  by (simp add: demo_tree_def demo_name demo_names_def enter_context_def child_context_def root_context_def enc_reg_def enc_cells_def)
    (simp add: bytes_of_def)

lemma demo_blob_length: "length (fdt_blob demo_nameoff demo_strings (tree_events root_context demo_tree)) = 340"
  by code_simp


text \<open>A device tree whose only node below the root is a memory controller with its register window.\<close>

definition controller_tree :: "u64 \<Rightarrow> u64 \<Rightarrow> fdt_tree" where
  "controller_tree a s = Node [] [] [Node (bytes_of ''memory-controller@7d5d1000'') [Reg [(a, s)]] []]"

lemma controller_context: "is_memory (enter_context (bytes_of ''memory-controller@7d5d1000'') root_context)"
  by code_simp

lemma run_controller:
  "\<exists>s'. run_events parse_event (tree_events root_context (controller_tree a s))
     \<lparr>ps_stack = replicate DTB_DEPTH root_context, ps_depth = 0, ps_map = m\<rparr> = Inr (Go s') \<and> ps_map s' = add_region m a s UsableRam"
proof -
  let ?s = "\<lparr>ps_stack = replicate DTB_DEPTH root_context, ps_depth = 0, ps_map = m\<rparr>"
  have root: "enter_context [] root_context = root_context" by (simp add: enter_context_def name_starts_with_def bytes_of_def)
  have cells: "addr_cells (enter_context n root_context) = 2" "size_cells (enter_context n root_context) = 2" for n
    by (simp_all add: enter_context_def root_context_def Let_def)
  have "tree_ok (top_context ?s) (controller_tree a s)"
    by (simp add: controller_tree_def top_context_def child_context_def root cells cells_fit_def)
  moreover have "ps_depth ?s + tree_height (controller_tree a s) \<le> length (ps_stack ?s)"
    by (simp add: controller_tree_def DTB_DEPTH_def)
  ultimately obtain s' where "ran ?s (tree_events (top_context ?s) (controller_tree a s)) (tree_regions (top_context ?s) (controller_tree a s)) s'"
    using run_tree by blast
  moreover have "tree_regions root_context (controller_tree a s) = [(a, s, UsableRam)]"
    by (simp add: controller_tree_def child_context_def root controller_context)
  ultimately show ?thesis by (auto simp: ran_def top_context_def add_regions_def)
qed

text \<open>
  A memory controller is taken for memory: \<open>parse\<close> recognises memory nodes by the prefix \<open>memory\<close> of
  their name, so the register window of a node \<open>memory-controller@...\<close>, which has no \<open>device_type\<close>, is
  added to the map as usable RAM.
\<close>

theorem memory_controller_taken_as_ram:
  assumes "pa \<noteq> 0" and "in_memory mem pa (fdt_blob nameoff strings (tree_events root_context (controller_tree a s)))"
    and "length (fdt_blob nameoff strings (tree_events root_context (controller_tree a s))) < 2 ^ 32"
    and "list_all (event_ok nameoff strings) (tree_events root_context (controller_tree a s))"
  shows "\<exists>n. dtb_parse mem pa m = Inr (add_region m a s UsableRam, Some n)"
  using run_controller [of a s m] by (auto simp: dtb_parse_events [OF assms])

lemma controller_events_ok:
  "list_all (event_ok demo_nameoff demo_strings) (tree_events root_context (controller_tree 0x7d5d1000 0x1000))"
  by (simp add: controller_tree_def demo_name demo_names_def enter_context_def child_context_def root_context_def enc_reg_def enc_cells_def)
    (simp add: bytes_of_def)

theorem memory_controller_taken_as_ram_witness:
  "\<exists>mem n. dtb_parse mem 0x1000 mm_new = Inr (add_region mm_new 0x7d5d1000 0x1000 UsableRam, Some n)"
proof -
  have "length (fdt_blob demo_nameoff demo_strings (tree_events root_context (controller_tree 0x7d5d1000 0x1000))) \<le> 1000"
    by code_simp
  then show ?thesis
    using memory_controller_taken_as_ram [OF _ in_memory_place _ controller_events_ok, of "0x1000" mm_new] by auto
qed

end
