(* ===== verification/Dtbfind.thy ===== *)
theory Dtbfind
  imports Dtb Board
begin

text \<open>
  The other scanners of \<open>src/mm/dtb.rs\<close>: \<open>find_simplefb\<close>, which looks for a framebuffer the firmware set up,
  and \<open>find_uart\<close>, which follows \<open>/aliases\<close> and \<open>/chosen\<close> to the node of the console UART and translates its
  address through the \<open>ranges\<close> of its ancestors. The record of \<open>src/platform/simplefb.rs\<close> is here too.
\<close>

section \<open>find_simplefb\<close>

datatype simple_fb_format = X8R8G8B8 | A8R8G8B8

record simple_fb_info =
  sfb_addr :: u64
  sfb_size :: u64
  sfb_width :: u32
  sfb_height :: u32
  sfb_stride :: u32
  sfb_format :: simple_fb_format

record simple_fb_state =
  is_simplefb :: bool
  fs_addr :: u64
  fs_size :: u64
  fs_width :: u32
  fs_height :: u32
  fs_stride :: u32
  fs_format :: "simple_fb_format option"

definition no_simplefb :: simple_fb_state where
  "no_simplefb = \<lparr>is_simplefb = False, fs_addr = 0, fs_size = 0, fs_width = 0, fs_height = 0, fs_stride = 0, fs_format = None\<rparr>"

definition parse_format :: "u8 list \<Rightarrow> simple_fb_format option" where
  "parse_format buf =
     (let s = take (nul_from buf 0) buf
      in if s = bytes_of ''x8r8g8b8'' then Some X8R8G8B8
         else if s = bytes_of ''a8r8g8b8'' then Some A8R8G8B8
         else None)"

text \<open>A \<open>u32\<close> property: taken when it has at least four bytes.\<close>

definition u32_prop :: "u8 list \<Rightarrow> (u32 \<Rightarrow> 's) \<Rightarrow> 's \<Rightarrow> 's res" where
  "u32_prop val f s = (if length val \<ge> 4 then and_then (read_be_u32 val) (\<lambda>w. Inr (f w)) else Inr s)"

definition simplefb_prop ::
  "u8 list \<Rightarrow> u8 list \<Rightarrow> node_context \<times> simple_fb_state \<Rightarrow> (node_context \<times> simple_fb_state) res" where
  "simplefb_prop name val st =
     (case st of (ctx, fb) \<Rightarrow>
      if name = bytes_of ''#address-cells'' then u32_prop val (\<lambda>w. (ctx\<lparr>addr_cells := w\<rparr>, fb)) st
      else if name = bytes_of ''#size-cells'' then u32_prop val (\<lambda>w. (ctx\<lparr>size_cells := w\<rparr>, fb)) st
      else if name = bytes_of ''compatible'' then
        Inr (ctx, if value_has_string val (bytes_of ''simple-framebuffer'') then fb\<lparr>is_simplefb := True\<rparr> else fb)
      else if name = bytes_of ''reg'' then
        let tuple_cells = unat (addr_cells ctx + size_cells ctx); entry_bytes = tuple_cells * 4 in
        if tuple_cells = 0 \<or> length val < entry_bytes then Inr st
        else
          and_then (sub_slice val 0 (unat (addr_cells ctx) * 4)) (\<lambda>a.
          and_then (read_cells a (addr_cells ctx)) (\<lambda>addr.
          and_then (sub_slice val (unat (addr_cells ctx) * 4) entry_bytes) (\<lambda>b.
          and_then (read_cells b (size_cells ctx)) (\<lambda>sz. Inr (ctx, fb\<lparr>fs_addr := addr, fs_size := sz\<rparr>)))))
      else if name = bytes_of ''width'' then u32_prop val (\<lambda>w. (ctx, fb\<lparr>fs_width := w\<rparr>)) st
      else if name = bytes_of ''height'' then u32_prop val (\<lambda>w. (ctx, fb\<lparr>fs_height := w\<rparr>)) st
      else if name = bytes_of ''stride'' then u32_prop val (\<lambda>w. (ctx, fb\<lparr>fs_stride := w\<rparr>)) st
      else if name = bytes_of ''format'' then Inr (ctx, fb\<lparr>fs_format := parse_format val\<rparr>)
      else Inr st)"

record simplefb_scan =
  ss_stack :: "node_context list"
  ss_fb_stack :: "simple_fb_state list"
  ss_depth :: nat

definition simplefb_done :: "simple_fb_state \<Rightarrow> simple_fb_info option" where
  "simplefb_done fb =
     (if is_simplefb fb \<and> fs_addr fb \<noteq> 0 \<and> fs_width fb \<noteq> 0 \<and> fs_height fb \<noteq> 0 \<and> fs_stride fb \<noteq> 0
      then case fs_format fb of
             Some fmt \<Rightarrow> Some \<lparr>sfb_addr = fs_addr fb, sfb_size = fs_size fb, sfb_width = fs_width fb,
                           sfb_height = fs_height fb, sfb_stride = fs_stride fb, sfb_format = fmt\<rparr>
           | None \<Rightarrow> None
      else None)"

fun simplefb_event :: "fdt_event \<Rightarrow> simplefb_scan \<Rightarrow> (simplefb_scan, simple_fb_info) flow res" where
  "simplefb_event (Begin_Node name) s =
     and_then (if ss_depth s = 0 then Inr root_context else arr_get (ss_stack s) (ss_depth s - 1)) (\<lambda>ctx.
       if ss_depth s < length (ss_stack s)
       then and_then (arr_set (ss_fb_stack s) (ss_depth s) no_simplefb) (\<lambda>fbs.
         Inr (Go (s\<lparr>ss_stack := (ss_stack s)[ss_depth s := ctx], ss_fb_stack := fbs, ss_depth := ss_depth s + 1\<rparr>)))
       else Inr (Go s))"
| "simplefb_event End_Node s =
     (if ss_depth s > 0
      then and_then (arr_get (ss_fb_stack s) (ss_depth s - 1)) (\<lambda>fb.
        case simplefb_done fb of Some info \<Rightarrow> Inr (Ret info) | None \<Rightarrow> Inr (Go (s\<lparr>ss_depth := ss_depth s - 1\<rparr>)))
      else Inr (Go s))"
| "simplefb_event (Prop name val) s =
     (if ss_depth s = 0 then Inr (Go s)
      else
        and_then (arr_get (ss_stack s) (ss_depth s - 1)) (\<lambda>ctx.
        and_then (arr_get (ss_fb_stack s) (ss_depth s - 1)) (\<lambda>fb.
        and_then (simplefb_prop name val (ctx, fb)) (\<lambda>(ctx', fb').
          Inr (Go (s\<lparr>ss_stack := (ss_stack s)[ss_depth s - 1 := ctx'], ss_fb_stack := (ss_fb_stack s)[ss_depth s - 1 := fb']\<rparr>))))))"
| "simplefb_event Nop s = Inr (Go s)"

text \<open>The result of a scan that found nothing is \<open>None\<close>.\<close>

definition flow_ret :: "('s, 'r) flow \<Rightarrow> 'r option" where
  "flow_ret f = (case f of Go s \<Rightarrow> None | Ret r \<Rightarrow> Some r)"

definition fdt_scan :: "(fdt_event \<Rightarrow> 's \<Rightarrow> ('s, 'r) flow res) \<Rightarrow> 's \<Rightarrow> memory \<Rightarrow> u64 \<Rightarrow> 'r option res" where
  "fdt_scan h s mem dtb_pa =
     and_then (fdt_blocks mem dtb_pa) (\<lambda>r.
       case r of
         None \<Rightarrow> Inr None
       | Some (total_size, block, strings) \<Rightarrow> and_then (fdt_loop h block strings 0 s) (\<lambda>f. Inr (flow_ret f)))"

definition find_simplefb :: "memory \<Rightarrow> u64 \<Rightarrow> simple_fb_info option res" where
  "find_simplefb mem dtb_pa =
     (if dtb_pa = 0 then Inr None
      else fdt_scan simplefb_event
        \<lparr>ss_stack = replicate DTB_DEPTH root_context, ss_fb_stack = replicate DTB_DEPTH no_simplefb, ss_depth = 0\<rparr> mem dtb_pa)"

section \<open>find_uart\<close>

record uart_info =
  ui_addr :: u64
  ui_size :: u64
  ui_reg_shift :: u32
  ui_reg_io_width :: u32
  ui_clock_hz :: "u32 option"
  ui_skip_init :: bool

record fdt_range =
  child_base :: u64
  parent_base :: u64
  fr_size :: u64

record reg_node =
  rn_addr_cells :: u32
  rn_size_cells :: u32
  rn_ranges :: "fdt_range list"
  rn_ranges_len :: nat

record small_buf =
  sb_buf :: "u8 list"
  sb_len :: nat

definition SMALL_BUF :: nat where
  "SMALL_BUF = 256"

definition sb_new :: small_buf where
  "sb_new = \<lparr>sb_buf = replicate SMALL_BUF 0, sb_len = 0\<rparr>"

definition sb_clear :: "small_buf \<Rightarrow> small_buf" where
  "sb_clear sb = sb\<lparr>sb_len := 0\<rparr>"

text \<open>One byte at the end, when there is room.\<close>

definition sb_put :: "u8 \<Rightarrow> small_buf \<Rightarrow> small_buf" where
  "sb_put b sb = sb\<lparr>sb_buf := (sb_buf sb)[sb_len sb := b], sb_len := sb_len sb + 1\<rparr>"

fun set_from_loop :: "u8 list \<Rightarrow> u8 option \<Rightarrow> small_buf \<Rightarrow> small_buf" where
  "set_from_loop [] stop sb = sb"
| "set_from_loop (b # bs) stop sb =
     (if b = 0 then sb
      else if stop = Some b then sb
      else if sb_len sb \<ge> length (sb_buf sb) then sb
      else set_from_loop bs stop (sb_put b sb))"

definition set_from :: "u8 list \<Rightarrow> u8 option \<Rightarrow> small_buf \<Rightarrow> small_buf" where
  "set_from src stop sb = set_from_loop src stop (sb\<lparr>sb_len := 0\<rparr>)"

definition as_slice :: "small_buf \<Rightarrow> u8 list" where
  "as_slice sb = take (sb_len sb) (sb_buf sb)"

text \<open>
  The scan for a property of one named child of the root, shared by \<open>scan_stdout_path\<close> (\<open>/chosen\<close>) and
  \<open>read_alias_path\<close> (\<open>/aliases\<close>): depth, whether the scan is inside the node, and the depth it was entered at.
\<close>

record child_scan =
  cs_depth :: nat
  cs_inside :: bool
  cs_inside_depth :: nat

fun child_event ::
  "u8 list \<Rightarrow> u8 list \<Rightarrow> (u8 list \<Rightarrow> small_buf) \<Rightarrow> fdt_event \<Rightarrow> child_scan \<Rightarrow> (child_scan, small_buf) flow res" where
  "child_event node_name prop_name out (Begin_Node name) s =
     (let is_root = (cs_depth s = 0 \<and> name = []); depth = cs_depth s + 1
      in if \<not> is_root \<and> depth = 2 \<and> name = node_name
         then Inr (Go (s\<lparr>cs_depth := depth, cs_inside := True, cs_inside_depth := depth\<rparr>))
         else Inr (Go (s\<lparr>cs_depth := depth\<rparr>)))"
| "child_event node_name prop_name out End_Node s =
     (let s1 = (if cs_inside s \<and> cs_depth s = cs_inside_depth s then s\<lparr>cs_inside := False\<rparr> else s)
      in Inr (Go (if cs_depth s1 > 0 then s1\<lparr>cs_depth := cs_depth s1 - 1\<rparr> else s1)))"
| "child_event node_name prop_name out (Prop name val) s =
     (if \<not> cs_inside s then Inr (Go s)
      else if name = prop_name then Inr (Ret (out val))
      else Inr (Go s))"
| "child_event node_name prop_name out Nop s = Inr (Go s)"

definition child_start :: child_scan where
  "child_start = \<lparr>cs_depth = 0, cs_inside = False, cs_inside_depth = 0\<rparr>"

definition scan_stdout_path :: "memory \<Rightarrow> u64 \<Rightarrow> small_buf \<Rightarrow> small_buf res" where
  "scan_stdout_path mem dtb_pa out =
     (let out = sb_clear out in
      and_then (fdt_scan (child_event (bytes_of ''chosen'') (bytes_of ''stdout-path'') (\<lambda>val. set_from val (Some 58) out))
          child_start mem dtb_pa)
        (\<lambda>r. Inr (case r of Some out' \<Rightarrow> out' | None \<Rightarrow> out)))"

definition read_alias_path :: "memory \<Rightarrow> u64 \<Rightarrow> u8 list \<Rightarrow> small_buf \<Rightarrow> (bool \<times> small_buf) res" where
  "read_alias_path mem dtb_pa alias out =
     (let out = sb_clear out in
      and_then (fdt_scan (child_event (bytes_of ''aliases'') alias (\<lambda>val. set_from val None out)) child_start mem dtb_pa)
        (\<lambda>r. Inr (case r of Some out' \<Rightarrow> (True, out') | None \<Rightarrow> (False, out))))"

subsection \<open>find_reg_by_path\<close>

definition zero_range :: fdt_range where
  "zero_range = \<lparr>child_base = 0, parent_base = 0, fr_size = 0\<rparr>"

definition root_reg_node :: reg_node where
  "root_reg_node = \<lparr>rn_addr_cells = 2, rn_size_cells = 2, rn_ranges = replicate 4 zero_range, rn_ranges_len = 0\<rparr>"

definition path_matches :: "small_buf \<Rightarrow> u8 list \<Rightarrow> bool" where
  "path_matches path target \<longleftrightarrow> sb_len path = length target \<and> take (sb_len path) (sb_buf path) = target"

definition RP1_PREFIX :: "u8 list" where
  "RP1_PREFIX = bytes_of ''/axi/pcie@1000120000/rp1/''"

definition is_rp1_path :: "small_buf \<Rightarrow> bool" where
  "is_rp1_path path \<longleftrightarrow> sb_len path \<ge> length RP1_PREFIX \<and> take (length RP1_PREFIX) (sb_buf path) = RP1_PREFIX"

definition rp1_fixup :: "u64 \<Rightarrow> u64" where
  "rp1_fixup addr =
     (let RP1_CHILD_BASE = 0x000000C040000000; RP1_PHYS_BASE = 0x0000001C00000000
      in if addr \<ge> RP1_CHILD_BASE then RP1_PHYS_BASE + (addr - RP1_CHILD_BASE) else RP1_PHYS_BASE + addr)"

fun translate_ranges :: "fdt_range list \<Rightarrow> u64 \<Rightarrow> u64 option" where
  "translate_ranges [] cur = None"
| "translate_ranges (r # rs) cur =
     (if cur \<ge> child_base r \<and> cur < saturating_add (child_base r) (fr_size r)
      then Some (parent_base r + (cur - child_base r))
      else translate_ranges rs cur)"

fun translate_loop :: "reg_node list \<Rightarrow> nat \<Rightarrow> u64 \<Rightarrow> u64 option res" where
  "translate_loop stack 0 cur = Inr (Some cur)"
| "translate_loop stack (Suc i) cur =
     and_then (arr_get stack i) (\<lambda>parent.
       if rn_ranges_len parent > 0
       then and_then (sub_slice (rn_ranges parent) 0 (rn_ranges_len parent)) (\<lambda>rs.
         case translate_ranges rs cur of Some nxt \<Rightarrow> translate_loop stack i nxt | None \<Rightarrow> Inr None)
       else translate_loop stack i cur)"

definition translate_addr :: "u64 \<Rightarrow> nat \<Rightarrow> reg_node list \<Rightarrow> u64 option res" where
  "translate_addr addr depth stack = (if depth = 0 then Inr (Some addr) else translate_loop stack (depth - 1) addr)"

text \<open>The loop over the entries of a \<open>ranges\<close> property; \<open>entry_bytes\<close> is not zero.\<close>

function ranges_loop :: "u32 \<Rightarrow> u32 \<Rightarrow> u32 \<Rightarrow> u8 list \<Rightarrow> nat \<Rightarrow> nat \<Rightarrow> reg_node \<Rightarrow> reg_node res" where
  "ranges_loop ac pac sc val entry_bytes pos ctx =
     (if 0 < entry_bytes \<and> pos + entry_bytes \<le> length val \<and> rn_ranges_len ctx < length (rn_ranges ctx)
      then
        and_then (sub_slice val pos (pos + unat ac * 4)) (\<lambda>a. and_then (read_addr_cells a ac) (\<lambda>child.
        and_then (sub_slice val (pos + unat ac * 4) (pos + unat (ac + pac) * 4)) (\<lambda>b. and_then (read_cells_trunc b pac) (\<lambda>parent.
        and_then (sub_slice val (pos + unat (ac + pac) * 4) (pos + entry_bytes)) (\<lambda>c. and_then (read_cells c sc) (\<lambda>sz.
          ranges_loop ac pac sc val entry_bytes (pos + entry_bytes)
            (ctx\<lparr>rn_ranges := (rn_ranges ctx)[rn_ranges_len ctx := \<lparr>child_base = child, parent_base = parent, fr_size = sz\<rparr>],
                 rn_ranges_len := rn_ranges_len ctx + 1\<rparr>)))))))
      else Inr ctx)"
  by pat_completeness auto
termination
  by (relation "measure (\<lambda>(ac, pac, sc, val, entry_bytes, pos, ctx). length val - pos)") auto

declare ranges_loop.simps [simp del]

record reg_scan =
  rs_stack :: "reg_node list"
  rs_depth :: nat
  rs_path :: small_buf
  rs_path_len_stack :: "nat list"
  rs_reg_shift :: u32
  rs_reg_io_width :: u32
  rs_clock_hz :: "u32 option"
  rs_skip_init :: bool

definition reg_scan_start :: reg_scan where
  "reg_scan_start = \<lparr>rs_stack = replicate DTB_DEPTH root_reg_node, rs_depth = 0, rs_path = sb_new,
     rs_path_len_stack = replicate DTB_DEPTH 0, rs_reg_shift = 0, rs_reg_io_width = 4, rs_clock_hz = None, rs_skip_init = False\<rparr>"

text \<open>A node name appended to the path, as far as it fits.\<close>

fun path_push :: "u8 list \<Rightarrow> small_buf \<Rightarrow> small_buf" where
  "path_push [] path = path"
| "path_push (b # bs) path = (if sb_len path \<ge> length (sb_buf path) then path else path_push bs (sb_put b path))"

definition path_enter :: "u8 list \<Rightarrow> small_buf \<Rightarrow> small_buf" where
  "path_enter name path = path_push name (if sb_len path < length (sb_buf path) then sb_put 47 path else path)"

text \<open>The \<open>reg\<close> property of the node at the target path: the scan returns here.\<close>

definition reg_found :: "u8 list \<Rightarrow> reg_scan \<Rightarrow> reg_node \<Rightarrow> (reg_scan, uart_info option) flow res" where
  "reg_found val s ctx =
     (let tuple_cells = unat (rn_addr_cells ctx + rn_size_cells ctx); entry_bytes = tuple_cells * 4 in
      if tuple_cells = 0 \<or> length val < entry_bytes then Inr (Go s)
      else
        and_then (sub_slice val 0 (unat (rn_addr_cells ctx) * 4)) (\<lambda>a.
        and_then (read_addr_cells a (rn_addr_cells ctx)) (\<lambda>addr.
        and_then (sub_slice val (unat (rn_addr_cells ctx) * 4) entry_bytes) (\<lambda>b.
        and_then (read_cells b (rn_size_cells ctx)) (\<lambda>sz.
        and_then (translate_addr addr (rs_depth s) (rs_stack s)) (\<lambda>phys.
          let phys = (if phys = None \<and> is_rp1_path (rs_path s) then Some (rp1_fixup addr) else phys)
          in case phys of
               None \<Rightarrow> Inr (Ret None)
             | Some p \<Rightarrow>
                 let p = (if is_rp1_path (rs_path s) \<and> p < 0x100000000 then rp1_fixup addr else p)
                 in Inr (Ret (Some \<lparr>ui_addr = p, ui_size = sz, ui_reg_shift = rs_reg_shift s,
                      ui_reg_io_width = rs_reg_io_width s, ui_clock_hz = rs_clock_hz s, ui_skip_init = rs_skip_init s\<rparr>))))))))"

definition set_top :: "reg_scan \<Rightarrow> reg_node \<Rightarrow> reg_scan" where
  "set_top s ctx = s\<lparr>rs_stack := (rs_stack s)[rs_depth s - 1 := ctx]\<rparr>"

definition go_prop :: "u8 list \<Rightarrow> (u32 \<Rightarrow> reg_scan) \<Rightarrow> reg_scan \<Rightarrow> (reg_scan, uart_info option) flow res" where
  "go_prop val f s = and_then (u32_prop val f s) (\<lambda>s'. Inr (Go s'))"

definition reg_prop ::
  "u8 list \<Rightarrow> u8 list \<Rightarrow> u8 list \<Rightarrow> reg_scan \<Rightarrow> reg_node \<Rightarrow> u32 \<Rightarrow> (reg_scan, uart_info option) flow res" where
  "reg_prop target name val s ctx pac =
     (let here = path_matches (rs_path s) target in
      if name = bytes_of ''#address-cells'' then go_prop val (\<lambda>w. set_top s (ctx\<lparr>rn_addr_cells := w\<rparr>)) s
      else if name = bytes_of ''#size-cells'' then go_prop val (\<lambda>w. set_top s (ctx\<lparr>rn_size_cells := w\<rparr>)) s
      else if name = bytes_of ''ranges'' then
        let tuple_cells = unat (rn_addr_cells ctx + pac + rn_size_cells ctx) in
        if tuple_cells = 0 then Inr (Go s)
        else and_then (ranges_loop (rn_addr_cells ctx) pac (rn_size_cells ctx) val (tuple_cells * 4) 0 (ctx\<lparr>rn_ranges_len := 0\<rparr>))
          (\<lambda>ctx'. Inr (Go (set_top s ctx')))
      else if name = bytes_of ''reg-shift'' then
        if here then go_prop val (\<lambda>w. s\<lparr>rs_reg_shift := w\<rparr>) s else Inr (Go s)
      else if name = bytes_of ''reg-io-width'' then
        if here then go_prop val (\<lambda>w. s\<lparr>rs_reg_io_width := w\<rparr>) s else Inr (Go s)
      else if name = bytes_of ''clock-frequency'' then
        if here then go_prop val (\<lambda>w. s\<lparr>rs_clock_hz := Some w\<rparr>) s else Inr (Go s)
      else if name = bytes_of ''skip-init'' then Inr (Go (if here then s\<lparr>rs_skip_init := True\<rparr> else s))
      else if name = bytes_of ''reg'' then if here then reg_found val s ctx else Inr (Go s)
      else Inr (Go s))"

fun reg_event :: "u8 list \<Rightarrow> fdt_event \<Rightarrow> reg_scan \<Rightarrow> (reg_scan, uart_info option) flow res" where
  "reg_event target (Begin_Node name) s =
     (let lens = (if rs_depth s < length (rs_path_len_stack s)
                  then (rs_path_len_stack s)[rs_depth s := sb_len (rs_path s)] else rs_path_len_stack s);
          is_root = (rs_depth s = 0 \<and> name = []);
          path = (if is_root then rs_path s else path_enter name (rs_path s));
          s = s\<lparr>rs_path_len_stack := lens, rs_path := path\<rparr>
      in and_then (if rs_depth s = 0 then Inr root_reg_node else arr_get (rs_stack s) (rs_depth s - 1)) (\<lambda>parent.
           if rs_depth s < length (rs_stack s)
           then Inr (Go (s\<lparr>rs_stack := (rs_stack s)[rs_depth s := parent\<lparr>rn_ranges_len := 0\<rparr>], rs_depth := rs_depth s + 1\<rparr>))
           else Inr (Go s)))"
| "reg_event target End_Node s =
     (if rs_depth s > 0
      then and_then (arr_get (rs_path_len_stack s) (rs_depth s - 1)) (\<lambda>l.
        Inr (Go (s\<lparr>rs_depth := rs_depth s - 1, rs_path := (rs_path s)\<lparr>sb_len := l\<rparr>\<rparr>)))
      else Inr (Go s))"
| "reg_event target (Prop name val) s =
     (if rs_depth s = 0 then Inr (Go s)
      else
        and_then (arr_get (rs_stack s) (rs_depth s - 1)) (\<lambda>ctx.
        and_then (if rs_depth s \<ge> 2 then and_then (arr_get (rs_stack s) (rs_depth s - 2)) (\<lambda>up. Inr (rn_addr_cells up)) else Inr 0)
          (\<lambda>pac. reg_prop target name val s ctx pac)))"
| "reg_event target Nop s = Inr (Go s)"

definition find_reg_by_path :: "memory \<Rightarrow> u64 \<Rightarrow> u8 list \<Rightarrow> uart_info option res" where
  "find_reg_by_path mem dtb_pa target =
     and_then (fdt_scan (reg_event target) reg_scan_start mem dtb_pa) (\<lambda>r. Inr (case r of Some info \<Rightarrow> info | None \<Rightarrow> None))"

definition find_uart :: "memory \<Rightarrow> u64 \<Rightarrow> uart_info option res" where
  "find_uart mem dtb_pa =
     (if dtb_pa = 0 then Inr None
      else
        and_then (scan_stdout_path mem dtb_pa sb_new) (\<lambda>stdout.
        and_then (read_alias_path mem dtb_pa (bytes_of ''serial0'') sb_new) (\<lambda>(found, target).
          let to_path = (\<not> found \<and> sb_len stdout \<noteq> 0 \<and> sb_buf stdout ! 0 = 47);
              to_alias = (\<not> found \<and> sb_len stdout \<noteq> 0 \<and> sb_buf stdout ! 0 \<noteq> 47);
              target = (if to_path then stdout else target);
              alias = (if to_alias then stdout else sb_new)
          in and_then (if sb_len target = 0 \<and> sb_len alias \<noteq> 0
                       then and_then (read_alias_path mem dtb_pa (as_slice alias) target) (\<lambda>(b, t). Inr t)
                       else Inr target) (\<lambda>target.
               if sb_len target = 0 then Inr None else find_reg_by_path mem dtb_pa (as_slice target)))))"

section \<open>What a scan can return\<close>

lemma fdt_loop_ret:
  assumes "fdt_loop h block strings offset s = Inr (Ret r)" and "\<And>ev s r. h ev s = Inr (Ret r) \<Longrightarrow> P r"
  shows "P r"
  using assms
proof (induction h block strings offset s rule: fdt_loop.induct)
  case (1 h block strings offset s)
  have "and_then (fdt_next block strings offset) (\<lambda>nxt. case nxt of None \<Rightarrow> Inr (Go s)
      | Some (ev, offset') \<Rightarrow> and_then (h ev s) (\<lambda>f. case f of Ret r \<Rightarrow> Inr (Ret r)
        | Go s' \<Rightarrow> fdt_loop h block strings offset' s')) = Inr (Ret r)"
    using "1.prems"(1) by (simp only: fdt_loop.simps [of h block strings offset s])
  then obtain ev offset' f where
    nxt: "fdt_next block strings offset = Inr (Some (ev, offset'))" "h ev s = Inr f"
    and f: "(case f of Ret r \<Rightarrow> Inr (Ret r) | Go s' \<Rightarrow> fdt_loop h block strings offset' s') = Inr (Ret r)"
    by (auto simp: res_simps split: option.splits)
  show ?case
  proof (cases f)
    case (Ret r')
    then show ?thesis using f nxt "1.prems"(2) by simp
  next
    case (Go s')
    then show ?thesis using f "1.IH" [OF nxt(1) refl refl, of f s'] nxt(2) "1.prems"(2) by simp
  qed
qed

lemma fdt_scan_ret:
  assumes "fdt_scan h s mem pa = Inr (Some r)" and "\<And>ev s r. h ev s = Inr (Ret r) \<Longrightarrow> P r"
  shows "P r"
proof -
  from assms(1) obtain n block strings f where "fdt_loop h block strings 0 s = Inr f" "flow_ret f = Some r"
    by (auto simp: fdt_scan_def res_simps split: option.splits)
  then have "fdt_loop h block strings 0 s = Inr (Ret r)" by (cases f) (simp_all add: flow_ret_def)
  then show ?thesis using assms(2) by (rule fdt_loop_ret)
qed

lemma rp1_fixup_high: "0x1C00000000 \<le> rp1_fixup addr"
proof -
  have add: "0x1C00000000 \<le> 0x1C00000000 + d" if "unat d < 2 ^ 64 - 0x1C00000000" for d :: u64
    using that by (simp add: word_le_nat_alt unat_word_ariths(1))
  show ?thesis
  proof (cases "addr \<ge> 0x000000C040000000")
    case True
    then have "unat (addr - 0xC040000000) = unat addr - 0xC040000000" by (simp add: unat_sub)
    then have "unat (addr - 0xC040000000) < 2 ^ 64 - 0x1C00000000" using unat_u64_less [of addr] by simp
    from add [OF this] True show ?thesis by (simp add: rp1_fixup_def Let_def)
  next
    case False
    then have "unat addr < 2 ^ 64 - 0x1C00000000" by (simp add: word_le_nat_alt)
    from add [OF this] False show ?thesis by (simp add: rp1_fixup_def Let_def)
  qed
qed

lemma path_matches_rp1:
  assumes "path_matches path target" and "take (length RP1_PREFIX) target = RP1_PREFIX"
  shows "is_rp1_path path"
proof -
  have "length RP1_PREFIX \<le> length target" using assms(2) by (metis length_take min.absorb_iff2 min.commute)
  with assms show ?thesis by (auto simp: path_matches_def is_rp1_path_def min_def)
qed

lemma reg_found_high:
  assumes "reg_found val s ctx = Inr (Ret (Some info))" and "is_rp1_path (rs_path s)"
  shows "0x100000000 \<le> ui_addr info"
proof -
  have "0x100000000 \<le> rp1_fixup addr" for addr using rp1_fixup_high [of addr] by (rule order_trans [rotated]) simp
  with assms show ?thesis
    by (auto simp: reg_found_def Let_def res_simps not_less split: if_splits option.splits)
qed

lemma reg_event_ret:
  assumes "reg_event target ev s = Inr (Ret r)"
  shows "path_matches (rs_path s) target \<and> (\<exists>val ctx. reg_found val s ctx = Inr (Ret r))"
  using assms
  by (cases ev) (auto simp: reg_prop_def go_prop_def u32_prop_def Let_def res_simps split: if_splits)

text \<open>
  C23. The console UART of a Raspberry Pi 5 lies behind the RP1 bridge, above 4 GiB: whenever the target
  path is below the RP1 node, whatever the \<open>ranges\<close> of the tree say, the address that
  \<open>find_reg_by_path\<close> reports is at least \<open>2 ^ 32\<close>, because untranslated and truncated addresses go through
  \<open>rp1_fixup\<close>, which cannot wrap.
\<close>

theorem rp1_uart_above_4gib:
  assumes "find_reg_by_path mem pa target = Inr (Some info)" and "take (length RP1_PREFIX) target = RP1_PREFIX"
  shows "0x100000000 \<le> ui_addr info"
proof -
  have "fdt_scan (reg_event target) reg_scan_start mem pa = Inr (Some (Some info))"
    using assms(1) by (auto simp: find_reg_by_path_def res_simps split: option.splits)
  then have "\<forall>i. Some info = Some i \<longrightarrow> 0x100000000 \<le> ui_addr i"
  proof (rule fdt_scan_ret, intro allI impI)
    fix ev s r i
    assume "reg_event target ev s = Inr (Ret r)" and "r = Some i"
    then show "0x100000000 \<le> ui_addr i"
      using reg_event_ret [of target ev s r] path_matches_rp1 [OF _ assms(2)] reg_found_high by blast
  qed
  then show ?thesis by simp
qed

lemma fdt_scan_events:
  assumes "in_memory mem pa (fdt_blob nameoff strings evs)"
    and "length (fdt_blob nameoff strings evs) < 2 ^ 32" and "list_all (event_ok nameoff strings) evs"
  shows "fdt_scan h s mem pa = and_then (run_events h evs s) (\<lambda>f. Inr (flow_ret f))"
  using assms by (simp add: fdt_scan_def fdt_blocks_blob fdt_scan_blob)

text \<open>A UART below the RP1 bridge, with an address that no \<open>ranges\<close> property translates.\<close>

definition rp1_events :: "fdt_event list" where
  "rp1_events = [Begin_Node [], Begin_Node (bytes_of ''axi''), Begin_Node (bytes_of ''pcie@1000120000''), Begin_Node (bytes_of ''rp1''),
     Begin_Node (bytes_of ''serial@30000''), Prop (bytes_of ''reg'') (enc_cells 2 0x30000 @ enc_cells 2 0x100),
     End_Node, End_Node, End_Node, End_Node, End_Node]"

definition rp1_target :: "u8 list" where
  "rp1_target = bytes_of ''/axi/pcie@1000120000/rp1/serial@30000''"

lemma rp1_events_ok: "list_all (event_ok demo_nameoff demo_strings) rp1_events"
  by (simp add: rp1_events_def demo_name demo_names_def enc_cells_def) (simp add: bytes_of_def)

lemma rp1_blob_length: "length (fdt_blob demo_nameoff demo_strings rp1_events) \<le> 1000"
  by code_simp

lemma rp1_run: "run_events (reg_event rp1_target) rp1_events reg_scan_start =
    Inr (Ret (Some \<lparr>ui_addr = 0x1C00030000, ui_size = 0x100, ui_reg_shift = 0, ui_reg_io_width = 4, ui_clock_hz = None, ui_skip_init = False\<rparr>))"
  by code_simp

theorem rp1_uart_above_4gib_witness:
  "\<exists>mem info. find_reg_by_path mem 0x1000 rp1_target = Inr (Some info) \<and> ui_addr info = 0x1C00030000 \<and> 0x100000000 \<le> ui_addr info"
proof -
  let ?mem = "place 0x1000 (fdt_blob demo_nameoff demo_strings rp1_events)"
  let ?i = "\<lparr>ui_addr = 0x1C00030000, ui_size = 0x100, ui_reg_shift = 0, ui_reg_io_width = 4, ui_clock_hz = None, ui_skip_init = False\<rparr>"
  have found: "find_reg_by_path ?mem 0x1000 rp1_target = Inr (Some ?i)"
    using rp1_blob_length rp1_events_ok
    by (simp add: find_reg_by_path_def fdt_scan_events [OF in_memory_place] rp1_run flow_ret_def)
  moreover have "take (length RP1_PREFIX) rp1_target = RP1_PREFIX" by code_simp
  ultimately have "0x100000000 \<le> ui_addr ?i" by (rule rp1_uart_above_4gib)
  with found show ?thesis by fastforce
qed

end
