(* ===== verification/Heap.thy ===== *)
theory Heap
  imports Frame
begin

text \<open>
  \<open>src/mm/heap.rs\<close>. The allocator itself is the \<open>linked_list_allocator\<close> crate, so its operations are a
  parameter, the record \<open>heap_ops\<close>, acting on its own state and on memory; \<open>svc\<close> stands for the system calls
  an unprivileged caller makes through \<open>src/kernel/user.rs\<close>. \<open>Layout::from_size_align\<close> is the core library's:
  the alignment must be a power of two and the size, rounded up to it, must not exceed \<open>isize::MAX\<close>.
\<close>

section \<open>Layouts\<close>

record layout =
  ly_size :: usize
  ly_align :: usize

definition from_size_align :: "usize \<Rightarrow> usize \<Rightarrow> layout option" where
  "from_size_align sz al =
     (if al \<noteq> 0 \<and> al AND (al - 1) = 0 \<and> unat sz \<le> 2 ^ 63 - unat al
      then Some \<lparr>ly_size = sz, ly_align = al\<rparr> else None)"

section \<open>The global allocator\<close>

record 'h heap_ops =
  ll_init :: "usize \<Rightarrow> usize \<Rightarrow> 'h \<times> memory \<Rightarrow> 'h \<times> memory"
  ll_alloc :: "layout \<Rightarrow> 'h \<times> memory \<Rightarrow> usize \<times> 'h \<times> memory"
  ll_dealloc :: "usize \<Rightarrow> layout \<Rightarrow> 'h \<times> memory \<Rightarrow> 'h \<times> memory"
  ll_realloc :: "usize \<Rightarrow> layout \<Rightarrow> usize \<Rightarrow> 'h \<times> memory \<Rightarrow> usize \<times> 'h \<times> memory"

record 'h user_calls =
  uc_alloc :: "usize \<Rightarrow> usize \<Rightarrow> 'h \<times> memory \<Rightarrow> u64 \<times> 'h \<times> memory"
  uc_realloc :: "u64 \<Rightarrow> usize \<Rightarrow> usize \<Rightarrow> usize \<Rightarrow> 'h \<times> memory \<Rightarrow> u64 \<times> 'h \<times> memory"
  uc_free :: "u64 \<Rightarrow> usize \<Rightarrow> usize \<Rightarrow> 'h \<times> memory \<Rightarrow> u64 \<times> 'h \<times> memory"

definition HEAP_SIZE :: nat where
  "HEAP_SIZE = 8 * 1024 * 1024"

definition init_kernel_heap ::
  "'h heap_ops \<Rightarrow> frame_allocator option \<times> 'h \<times> memory \<Rightarrow> (frame_allocator option \<times> 'h \<times> memory) res" where
  "init_kernel_heap ops st =
     (case st of (fa, hm) \<Rightarrow>
        let pages = HEAP_SIZE div unat PAGE_SIZE in
        and_then (alloc_contiguous pages fa) (\<lambda>(fa', r).
          case r of
            Some paddr \<Rightarrow> Inr (fa', ll_init ops (phys_to_virt paddr) (of_nat HEAP_SIZE) hm)
          | None \<Rightarrow> Inr (fa', hm)))"

definition heap_init ::
  "'h heap_ops \<Rightarrow> frame_allocator option \<times> 'h \<times> memory \<Rightarrow> (frame_allocator option \<times> 'h \<times> memory) res" where
  "heap_init ops st = init_kernel_heap ops st"

text \<open>\<open>current_el\<close>: bits 2 and 3 of \<open>CurrentEL\<close>.\<close>

definition current_el :: "u64 \<Rightarrow> u8" where
  "current_el el = ucast (drop_bit 2 el AND 0x3)"

definition heap_alloc :: "'h heap_ops \<Rightarrow> 'h user_calls \<Rightarrow> u64 \<Rightarrow> layout \<Rightarrow> 'h \<times> memory \<Rightarrow> usize \<times> 'h \<times> memory" where
  "heap_alloc ops uc el ly hm =
     (if current_el el = 0
      then case uc_alloc uc (ly_size ly) (ly_align ly) hm of (p, hm') \<Rightarrow> (if p = 0 \<or> p = u64_max then 0 else p, hm')
      else ll_alloc ops ly hm)"

definition heap_dealloc :: "'h heap_ops \<Rightarrow> 'h user_calls \<Rightarrow> u64 \<Rightarrow> usize \<Rightarrow> layout \<Rightarrow> 'h \<times> memory \<Rightarrow> 'h \<times> memory" where
  "heap_dealloc ops uc el ptr ly hm =
     (if current_el el = 0 then snd (uc_free uc ptr (ly_size ly) (ly_align ly) hm) else ll_dealloc ops ptr ly hm)"

definition heap_realloc ::
  "'h heap_ops \<Rightarrow> 'h user_calls \<Rightarrow> u64 \<Rightarrow> usize \<Rightarrow> layout \<Rightarrow> usize \<Rightarrow> 'h \<times> memory \<Rightarrow> usize \<times> 'h \<times> memory" where
  "heap_realloc ops uc el ptr ly new_size hm =
     (if current_el el = 0
      then case uc_realloc uc ptr (ly_size ly) new_size (ly_align ly) hm of (p, hm') \<Rightarrow> (if p = 0 \<or> p = u64_max then 0 else p, hm')
      else ll_realloc ops ptr ly new_size hm)"

end
