(* ===== verification/Mminit.thy ===== *)
theory Mminit
  imports Paging Dtbfind Heap Uart
begin

text \<open>
  \<open>init\<close> of \<open>src/mm/mod.rs\<close>: from the device tree and the linker's symbols to the raw memory map, its
  normalization, and the boot allocator, frame allocator, page tables and heap, in this order. What these
  components keep in statics is the record \<open>mm_state\<close>; the addresses the linker script provides are
  \<open>kernel_phys_info\<close>. The progress messages are left out; the printed memory map is in \<open>Bootlog\<close>.
\<close>

section \<open>Definitions\<close>

record kernel_phys_info =
  kernel_start :: u64
  kernel_end :: u64
  stack_start :: u64
  stack_end :: u64
  info_boot_end :: u64

record 'h mm_state =
  ms_uart :: uart_state
  ms_paging :: paging_state
  ms_regs :: mmu_regs
  ms_boot :: boot_state
  ms_frames :: "frame_allocator option"
  ms_heap :: 'h
  ms_mem :: memory

text \<open>The regions added after the device tree has been read; \<open>dtb_size\<close> is \<open>total_size\<close> when there is a tree.\<close>

definition raw_map :: "board \<Rightarrow> kernel_phys_info \<Rightarrow> u64 \<Rightarrow> u32 option \<Rightarrow> memory_map \<Rightarrow> memory_map" where
  "raw_map b info dtb_pa dtb_size m =
     (let m = (if info_boot_end info > KERNEL_PHYS_BASE
               then add_region m KERNEL_PHYS_BASE (saturating_sub (info_boot_end info) KERNEL_PHYS_BASE) KernelImage else m);
          m = add_region m (kernel_start info) (saturating_sub (kernel_end info) (kernel_start info)) KernelImage;
          m = add_region m (stack_start info) (saturating_sub (stack_end info) (stack_start info)) BootStack;
          m = (case dtb_size of
                 Some total_size \<Rightarrow> add_region m dtb_pa (ucast total_size) BootInfo
               | None \<Rightarrow> (case b of Qemu \<Rightarrow> add_region m 0 QEMU_RAM_SIZE UsableRam | Rpi5 \<Rightarrow> m))
      in case b of
           Qemu \<Rightarrow> add_region m PERIPHERAL_BASE PERIPHERAL_SIZE Mmio
         | Rpi5 \<Rightarrow> add_region m SOC_BASE SOC_MMIO_SIZE Mmio)"

text \<open>
  The driver set up for the UART of the device tree; the kernel's entry point repeats these lines. On the
  Raspberry Pi the register window of that UART is also to be mapped.
\<close>

definition apply_uart_info :: "uart_info \<Rightarrow> uart_state \<Rightarrow> uart_state" where
  "apply_uart_info info u =
     (let u = set_base (ui_addr info) u;
          u = set_clock_hz (ui_clock_hz info) u;
          u = set_reg_shift (ui_reg_shift info) u;
          u = set_reg_io_width (ui_reg_io_width info) u
      in set_skip_init (ui_skip_init info) u)"

definition configure_uart :: "uart_info option \<Rightarrow> 'h mm_state \<Rightarrow> 'h mm_state" where
  "configure_uart found s =
     (case found of
        None \<Rightarrow> s
      | Some info \<Rightarrow>
          s\<lparr>ms_uart := apply_uart_info info (ms_uart s),
            ms_paging := set_extra_mmio (align_down (ui_addr info) 0x200000) 0x200000 (ms_paging s)\<rparr>)"

definition board_uart :: "board \<Rightarrow> u64 \<Rightarrow> 'h mm_state \<Rightarrow> 'h mm_state res" where
  "board_uart b dtb_pa s =
     (case b of
        Rpi5 \<Rightarrow> and_then (find_uart (ms_mem s) dtb_pa) (\<lambda>found. Inr (configure_uart found s))
      | Qemu \<Rightarrow> Inr s)"

text \<open>The end of the usable region with the first page after the kernel, else of the first usable region, else 0.\<close>

definition boot_limit :: "normalized_map \<Rightarrow> u64 \<Rightarrow> u64" where
  "boot_limit nmap boot_start =
     (let e = (case find (\<lambda>r. rg_start r \<le> boot_start \<and> boot_start < rg_end r) (usable_regions nmap) of
                 Some r \<Rightarrow> rg_end r | None \<Rightarrow> 0)
      in if e = 0 then (case usable_regions nmap of r # rs \<Rightarrow> rg_end r | [] \<Rightarrow> 0) else e)"

definition start_allocators ::
  "board \<Rightarrow> table_addrs \<Rightarrow> 'h heap_ops \<Rightarrow> normalized_map \<Rightarrow> u64 \<Rightarrow> u64 \<Rightarrow> 'h mm_state \<Rightarrow> 'h mm_state res" where
  "start_allocators b addrs ops nmap boot_start boot_end s =
     (let s = (case b of Rpi5 \<Rightarrow> s\<lparr>ms_regs := enable_caches (ms_regs s)\<rparr> | Qemu \<Rightarrow> s);
          s = s\<lparr>ms_boot := boot_init boot_start boot_end (ms_boot s)\<rparr>
      in and_then (frame_init nmap (ms_boot s, ms_frames s)) (\<lambda>(boot, frames).
         and_then (paging_init b addrs nmap (ms_paging s, ms_regs s)) (\<lambda>(ps, regs).
         and_then (heap_init ops (frames, ms_heap s, ms_mem s)) (\<lambda>(frames, heap, mem).
           Inr (s\<lparr>ms_boot := boot, ms_frames := frames, ms_paging := ps, ms_regs := regs, ms_heap := heap, ms_mem := mem\<rparr>)))))"

definition mm_init ::
  "board \<Rightarrow> table_addrs \<Rightarrow> kernel_phys_info \<Rightarrow> 'h heap_ops \<Rightarrow> u64 \<Rightarrow> 'h mm_state \<Rightarrow> 'h mm_state res" where
  "mm_init b addrs info ops dtb_pa s =
     and_then (dtb_parse (ms_mem s) dtb_pa mm_new) (\<lambda>(m, dtb_size).
     and_then (board_uart b dtb_pa s) (\<lambda>s.
       let nmap = normalize (raw_map b info dtb_pa dtb_size m);
           boot_start = align_up (kernel_end info) PAGE_SIZE;
           boot_end = boot_limit nmap boot_start
       in if boot_end = 0 then Inr s else start_allocators b addrs ops nmap boot_start boot_end s))"

section \<open>Lemmas\<close>

lemma boot_limit_usable:
  assumes "boot_limit nmap st = e" and "e \<noteq> 0"
  obtains r where "r \<in> set (nm_live nmap)" and "pr_kind r = UsableRam" and "pr_end r = e"
proof -
  have "\<exists>r\<in>set (usable_regions nmap). rg_end r = e"
  proof (cases "find (\<lambda>r. rg_start r \<le> st \<and> st < rg_end r) (usable_regions nmap)")
    case None
    with assms show ?thesis by (auto simp: boot_limit_def split: list.splits)
  next
    case (Some r)
    from Some have "\<exists>i<length (usable_regions nmap). st < rg_end (usable_regions nmap ! i) \<and> r = usable_regions nmap ! i"
      unfolding find_Some_iff by blast
    then have r: "r \<in> set (usable_regions nmap)" and "st < rg_end r" using nth_mem by blast+
    then have "rg_end r \<noteq> 0" using word_less_nat_alt [of st "rg_end r"] by (metis not_less_zero unat_0)
    then have "rg_end r = e" using Some assms(1) by (simp add: boot_limit_def)
    with r show ?thesis by blast
  qed
  with that show ?thesis by (auto simp: usable_regions_def)
qed

lemma usable_end_page:
  assumes "r \<in> set (nm_live (normalize m))" and "pr_kind r = UsableRam"
  shows "4096 dvd unat (pr_end r)"
proof -
  obtain q where "r = align_region q" using assms(1) unfolding nm_live_normalize by (metis imageE list.set_map)
  with assms(2) have "pr_end r = align_down (pr_end q) PAGE_SIZE" using align_region_usableD by blast
  then show ?thesis by (simp add: unat_align_down_page)
qed

lemma fold_choose: "(\<And>r m. f r m = m \<or> P r (f r m)) \<Longrightarrow> fold f rs m = m \<or> (\<exists>r\<in>set rs. P r (fold f rs m))"
proof (induction rs arbitrary: m)
  case (Cons r rs)
  from Cons.IH [OF Cons.prems, of "f r m"] Cons.prems [of r m] show ?case by (metis fold_simps(2) list.set_intros)
qed simp

lemma usable_max_end_cases:
  "usable_max_end n = 0 \<or> (\<exists>r\<in>set (nm_live n). pr_kind r = UsableRam \<and> pr_end r = usable_max_end n)"
  unfolding usable_max_end_def by (rule fold_choose) simp

lemma page_multiple_below: "4096 dvd unat (w :: u64) \<Longrightarrow> unat w + 4095 < 2 ^ 64"
  using unat_u64_less [of w] by (elim dvdE) simp

lemma usable_max_end_page: "unat (usable_max_end (normalize m)) + 4095 < 2 ^ 64"
  using usable_max_end_cases [of "normalize m"] usable_end_page [of _ m] page_multiple_below by fastforce

lemma heap_pages: "0 < HEAP_SIZE div unat PAGE_SIZE"
  by (simp add: HEAP_SIZE_def PAGE_SIZE_def)

lemma heap_init_none [simp]: "heap_init ops (None, hm) = Inr (None, hm)"
  by (simp add: heap_init_def init_kernel_heap_def Let_def alloc_contiguous_def)

lemma heap_init_frames:
  assumes "frame_wf fa"
  obtains fb hm' where "heap_init ops (Some fa, hm) = Inr (Some fb, hm')" and "frame_wf fb" and "free_frames fb \<subseteq> free_frames fa"
proof -
  from fa_alloc_contiguous_ok [OF assms heap_pages]
  consider "fa_alloc_contiguous fa (HEAP_SIZE div unat PAGE_SIZE) = Inr (fa, None)"
    | fb p where "fa_alloc_contiguous fa (HEAP_SIZE div unat PAGE_SIZE) = Inr (fb, Some p)" "same_shape fa fb"
        "free_frames fb \<subseteq> free_frames fa" by blast
  then show thesis
  proof cases
    case 1
    with assms show ?thesis
      by (intro that [of fa hm]) (simp_all add: heap_init_def init_kernel_heap_def Let_def alloc_contiguous_def)
  next
    case (2 fb p)
    with assms same_shape_wf show ?thesis
      by (intro that [of fb "ll_init ops (phys_to_virt p) (of_nat HEAP_SIZE) hm"])
        (simp_all add: heap_init_def init_kernel_heap_def Let_def alloc_contiguous_def)
  qed
qed

text \<open>The size of the frame bitmap.\<close>

definition bitmap_bytes :: "normalized_map \<Rightarrow> nat" where
  "bitmap_bytes n = ((unat (usable_max_end n) + 4095) div 4096 + 63) div 64 * 8"

definition bitmap_fits :: "normalized_map \<Rightarrow> u64 \<Rightarrow> bool" where
  "bitmap_fits n boot_start \<longleftrightarrow>
     boot_start \<noteq> 0 \<and> unat boot_start + bitmap_bytes n \<le> unat (boot_limit n boot_start)"

lemma align_up_aligned:
  assumes "k \<le> 12" and "4096 dvd unat (v :: u64)"
  shows "align_up v (2 ^ k) = v"
proof -
  have "(2 :: nat) ^ k dvd 2 ^ 12" and le: "(2 :: nat) ^ k \<le> 2 ^ 12"
    using assms(1) by (simp_all only: le_imp_power_dvd power_increasing one_le_numeral)
  then have dvd: "2 ^ k dvd unat v" using assms(2) by (auto intro: dvd_trans)
  have "unat v + (2 ^ k - 1) < 2 ^ 64" using page_multiple_below [OF assms(2)] le by simp
  then show ?thesis using align_up_ge [of k v] align_up_least [of k v v] dvd assms(1) by (simp add: antisym)
qed

lemma align_up_page_aligned: "4096 dvd unat (align_up v PAGE_SIZE)"
proof (cases "unat v + 4095 < 2 ^ 64")
  case True
  then show ?thesis by (simp add: unat_align_up_page)
next
  case False
  then show ?thesis using align_up_wraps [of 12 v] by (simp add: PAGE_SIZE_def)
qed

lemma align_up_page_idem [simp]: "align_up (align_up v PAGE_SIZE) PAGE_SIZE = align_up v PAGE_SIZE"
  using align_up_aligned [of 12, OF _ align_up_page_aligned] by (simp add: PAGE_SIZE_def)

lemma frame_init_total:
  assumes lim: "boot_limit (normalize m) st = e" "e \<noteq> 0" and boot: "boot = boot_init st e boot0"
    and st: "st = align_up end_kernel PAGE_SIZE"
  obtains boot' where "frame_init (normalize m) (boot, None) = Inr (boot', None)" and "\<not> bitmap_fits (normalize m) st"
  | boot' fa where "frame_init (normalize m) (boot, None) = Inr (boot', Some fa)" and "frame_wf fa"
      and "BOOT_START boot' = BOOT_START boot"
      and "free_frames fa = {j. (\<exists>r\<in>set (nm_live (normalize m)). in_frames r j) \<and>
        \<not> (unat (BOOT_START boot) div 4096 \<le> j \<and> j < (unat (BOOT_CURRENT boot') + 4095) div 4096)}"
proof -
  let ?n = "normalize m"
  obtain r where r: "r \<in> set (nm_live ?n)" "pr_kind r = UsableRam" "pr_end r = e"
    using boot_limit_usable [OF lim] .
  have "e \<noteq> u64_max" using page_multiple_below [OF usable_end_page [OF r(1,2)]] r(3) unat_eq_u64_max [of e] by auto
  then have ok: "boot_ok boot" by (simp add: boot boot_init_def boot_ok_def Let_def)
  have e_le: "e \<le> usable_max_end ?n" using usable_max_end_ge [OF r(1,2)] r(3) by simp
  then have le: "unat (BOOT_END boot) \<le> unat (usable_max_end ?n)"
    by (simp add: boot boot_init_def Let_def word_le_nat_alt)
  have nz: "usable_max_end ?n \<noteq> 0" using e_le lim(2) by auto
  obtain boot' p where al: "boot_alloc (of_nat (bitmap_bytes ?n)) 8 boot = (boot', p)"
    by (cases "boot_alloc (of_nat (bitmap_bytes ?n)) 8 boot")
  show thesis
  proof (cases p)
    case None
    with al nz usable_max_end_page [of m] have fi: "frame_init ?n (boot, None) = Inr (boot', None)"
      by (simp add: frame_init_def Let_def unat_div unat_align_up_page bitmap_bytes_def)
    have "max 8 1 = (8 :: u64)" using max_pow2 [of 3] by simp
    moreover have "align_up st 8 = st" using align_up_aligned [of 3 st] align_up_page_aligned by (simp add: st)
    moreover have "unat (of_nat (bitmap_bytes ?n) :: u64) \<le> bitmap_bytes ?n" by (simp add: unat_of_nat)
    ultimately have "\<not> bitmap_fits ?n st"
      using al None lim by (auto simp: bitmap_fits_def boot_alloc_def boot boot_init_def Let_def st word_less_nat_alt
        unat_saturating_add split: if_splits)
    with fi show ?thesis by (rule that(1))
  next
    case (Some a)
    have st: "BOOT_START boot' = BOOT_START boot" using boot_alloc_start [of _ 8 boot] al by (metis fst_conv)
    from frame_init_ok [OF ok le usable_max_end_page nz al [unfolded bitmap_bytes_def Some], of None] st that(2) show ?thesis by blast
  qed
qed

lemma start_allocators_run:
  assumes "frame_init n (boot_init st e (ms_boot s), ms_frames s) = Inr (boot', fo)"
    and "addrs_ok addrs" and "below_512G n (ms_paging s)"
    and "heap_init ops (fo, ms_heap s, ms_mem s) = Inr (fo', hm)"
  obtains s' where "start_allocators b addrs ops n st e s = Inr s'" and "ms_frames s' = fo'" and "ms_boot s' = boot'"
proof -
  obtain heap mem where hm: "hm = (heap, mem)" by (cases hm)
  define regs where "regs = (case b of Rpi5 \<Rightarrow> enable_caches (ms_regs s) | Qemu \<Rightarrow> ms_regs s)"
  from paging_init_direct [OF assms(2,3), of b regs] obtain ps regs' where
    "paging_init b addrs n (ms_paging s, regs) = Inr (ps, regs')" by blast
  with assms(1,4) have "start_allocators b addrs ops n st e s = Inr (s\<lparr>ms_boot := boot', ms_frames := fo', ms_paging := ps,
      ms_regs := regs', ms_heap := heap, ms_mem := mem\<rparr>)"
    by (cases b) (simp_all add: start_allocators_def Let_def regs_def hm)
  then show thesis by (rule that) simp_all
qed

text \<open>The allocators come up without a panic, and no free frame meets anything but usable RAM.\<close>

lemma start_allocators_ok:
  assumes lim: "boot_limit (normalize m) st = e" "e \<noteq> 0" and frames: "ms_frames s = None"
    and "addrs_ok addrs" and "below_512G (normalize m) (ms_paging s)" and st: "st = align_up end_kernel PAGE_SIZE"
  shows "\<exists>s'. start_allocators b addrs ops (normalize m) st e s = Inr s' \<and>
    (bitmap_fits (normalize m) st \<longrightarrow> ms_frames s' \<noteq> None) \<and> (\<forall>fa. ms_frames s' = Some fa \<longrightarrow>
    (\<forall>j\<in>free_frames fa. (\<exists>r\<in>set (nm_live (normalize m)). in_frames r j) \<and>
      \<not> (unat (BOOT_START (ms_boot s')) div 4096 \<le> j \<and> j < (unat (BOOT_CURRENT (ms_boot s')) + 4095) div 4096)))"
proof -
  define boot where boot: "boot = boot_init st e (ms_boot s)"
  from lim boot st show ?thesis
  proof (cases rule: frame_init_total)
    case (1 boot')
    with start_allocators_run [OF _ assms(4,5), of st e boot' None ops None "(ms_heap s, ms_mem s)" b]
    show ?thesis unfolding boot frames by (metis heap_init_none option.distinct(1))
  next
    case (2 boot' fa)
    obtain fb hm where hi: "heap_init ops (Some fa, ms_heap s, ms_mem s) = Inr (Some fb, hm)"
      and sub: "free_frames fb \<subseteq> free_frames fa"
      using heap_init_frames [OF 2(2), of ops "(ms_heap s, ms_mem s)"] by blast
    then obtain s' where "start_allocators b addrs ops (normalize m) st e s = Inr s'" "ms_frames s' = Some fb" "ms_boot s' = boot'"
      using start_allocators_run [OF _ assms(4,5) hi, of st e boot' b] 2(1) unfolding boot frames by blast
    with sub 2(3,4) show ?thesis by auto
  qed
qed

lemma page_inside: "\<not> (unat (x :: u64) div 4096 \<le> unat a div 4096 \<and> unat a div 4096 < (unat y + 4095) div 4096) \<Longrightarrow>
    \<not> (x \<le> a \<and> a < (y :: u64))"
  using div_le_mono [of "unat x" "unat a" 4096] div_le_mono [of "unat a + 4096" "unat y + 4095" 4096]
  by (auto simp: word_le_nat_alt word_less_nat_alt)

lemma top_kind_usable:
  assumes "top_kind rs a UsableRam"
  shows "(\<exists>r\<in>set rs. covers r a) \<and> (\<forall>r\<in>set rs. covers r a \<longrightarrow> pr_kind r = UsableRam)"
  using assms by (auto simp: top_kind_def intro: antisym UsableRam_least)

lemma in_frames_byte:
  assumes "in_frames r (unat a div 4096)" and "4096 dvd unat (pr_start r)" and "4096 dvd unat (pr_end r)"
  shows "covers r a"
proof -
  obtain i k where ik: "unat (pr_start r) = i * 4096" "unat (pr_end r) = k * 4096"
    using assms(2,3) by (metis dvdE mult.commute)
  then have "i \<le> unat a div 4096" "unat a div 4096 < k" using assms(1) by (simp_all add: in_frames_def)
  then have "unat (pr_start r) \<le> unat a" "unat a < unat (pr_end r)"
    unfolding ik by (simp_all add: less_eq_div_iff_mult_less_eq div_less_iff_less_mult)
  then show ?thesis by (simp add: covers_def word_le_nat_alt word_less_nat_alt)
qed

lemma free_byte_usable:
  assumes "below_top_page (mm_live m)" and "r \<in> set (nm_live (normalize m))" and j: "in_frames r (unat a div 4096)"
  shows "top_kind (mm_live m) a UsableRam"
proof -
  have u: "pr_kind r = UsableRam" using j by (simp add: in_frames_def)
  have "unat (pr_start r) div 4096 < unat (pr_end r) div 4096" using j by (simp add: in_frames_def)
  then have "covers r (pr_start r)" using div_le_mono [of "unat (pr_end r)" "unat (pr_start r)" 4096]
    by (simp add: covers_def word_less_nat_alt not_le [symmetric])
  from usable_region_sound [OF assms(1,2) u this] have "covers r a" using j in_frames_byte by blast
  then show ?thesis using usable_region_sound [OF assms(1,2) u] by blast
qed

section \<open>Property\<close>

text \<open>
  C5. Memory initialisation comes up and hands the right memory to the frame allocator. Given a device
  tree that is read without a panic, page tables where the linker puts them and a map below 512 GiB,
  \<open>mm::init\<close> returns; it starts the frame allocator whenever the bitmap fits behind the kernel; and
  every byte of every free frame then lies in a usable region of the raw map, in no kernel, stack, boot
  information, reserved or device region, and outside what the boot allocator handed out.
\<close>

theorem mm_init_free_frames:
  assumes "dtb_parse (ms_mem s) dtb_pa mm_new = Inr (m, dtb_size)" and "board_uart b dtb_pa s = Inr s1"
    and "raw = raw_map b info dtb_pa dtb_size m" and "below_top_page (mm_live raw)"
    and "below_512G (normalize raw) (ms_paging s1)" and "addrs_ok addrs" and "ms_frames s = None"
  shows "\<exists>s'. mm_init b addrs info ops dtb_pa s = Inr s' \<and>
    (bitmap_fits (normalize raw) (align_up (kernel_end info) PAGE_SIZE) \<longrightarrow> ms_frames s' \<noteq> None) \<and>
    (\<forall>fa a. ms_frames s' = Some fa \<and> unat a div 4096 \<in> free_frames fa \<longrightarrow>
       (\<exists>r\<in>set (mm_live raw). covers r a) \<and> (\<forall>r\<in>set (mm_live raw). covers r a \<longrightarrow> pr_kind r = UsableRam) \<and>
       \<not> (BOOT_START (ms_boot s') \<le> a \<and> a < BOOT_CURRENT (ms_boot s')))"
proof -
  define st where st: "st = align_up (kernel_end info) PAGE_SIZE"
  have s1: "ms_frames s1 = None" using assms(2,7)
    by (cases b) (auto simp: board_uart_def configure_uart_def Let_def and_then_eq_Inr split: option.splits)
  show ?thesis
  proof (cases "boot_limit (normalize raw) st = 0")
    case True
    moreover from this have "\<not> bitmap_fits (normalize raw) st"
      by (simp add: bitmap_fits_def unat_eq_0)
    ultimately show ?thesis using assms(1-3) s1 by (simp add: mm_init_def Let_def st)
  next
    case False
    from start_allocators_ok [OF refl False s1 assms(6,5) st, of b ops] obtain s' where
      s': "start_allocators b addrs ops (normalize raw) st (boot_limit (normalize raw) st) s1 = Inr s'"
      and fits: "bitmap_fits (normalize raw) st \<longrightarrow> ms_frames s' \<noteq> None"
      and free: "\<And>fa j. ms_frames s' = Some fa \<Longrightarrow> j \<in> free_frames fa \<Longrightarrow>
        (\<exists>r\<in>set (nm_live (normalize raw)). in_frames r j) \<and> \<not> (unat (BOOT_START (ms_boot s')) div 4096 \<le> j \<and>
           j < (unat (BOOT_CURRENT (ms_boot s')) + 4095) div 4096)" by blast
    have "mm_init b addrs info ops dtb_pa s = Inr s'" using assms(1-3) s' False by (simp add: mm_init_def Let_def st)
    moreover have "top_kind (mm_live raw) a UsableRam \<and> \<not> (BOOT_START (ms_boot s') \<le> a \<and> a < BOOT_CURRENT (ms_boot s'))"
      if "ms_frames s' = Some fa" "unat a div 4096 \<in> free_frames fa" for fa a
      using free [OF that] free_byte_usable [OF assms(4)] page_inside by blast
    ultimately show ?thesis using top_kind_usable fits unfolding st by blast
  qed
qed

section \<open>A boot on QEMU without a device tree\<close>

definition demo_info :: kernel_phys_info where
  "demo_info = \<lparr>kernel_start = 0x84000, kernel_end = 0x200800, stack_start = 0x100000, stack_end = 0x110000, info_boot_end = 0x84000\<rparr>"

abbreviation demo_raw :: memory_map where
  "demo_raw \<equiv> raw_map Qemu demo_info 0 None mm_new"

lemma demo_raw_live: "mm_live demo_raw =
    [\<lparr>pr_start = 0x80000, pr_end = 0x84000, pr_kind = KernelImage\<rparr>,
     \<lparr>pr_start = 0x84000, pr_end = 0x200800, pr_kind = KernelImage\<rparr>,
     \<lparr>pr_start = 0x100000, pr_end = 0x110000, pr_kind = BootStack\<rparr>,
     \<lparr>pr_start = 0, pr_end = 0x200000000, pr_kind = UsableRam\<rparr>,
     \<lparr>pr_start = 0x3F000000, pr_end = 0x40000000, pr_kind = Mmio\<rparr>]"
  by code_simp

lemma demo_raw_normalized: "nm_live (normalize demo_raw) =
    [\<lparr>pr_start = 0, pr_end = 0x80000, pr_kind = UsableRam\<rparr>,
     \<lparr>pr_start = 0x80000, pr_end = 0x200800, pr_kind = KernelImage\<rparr>,
     \<lparr>pr_start = 0x201000, pr_end = 0x3F000000, pr_kind = UsableRam\<rparr>,
     \<lparr>pr_start = 0x3F000000, pr_end = 0x40000000, pr_kind = Mmio\<rparr>,
     \<lparr>pr_start = 0x40000000, pr_end = 0x200000000, pr_kind = UsableRam\<rparr>]"
  by code_simp

definition demo_mm :: "unit mm_state" where
  "demo_mm = \<lparr>ms_uart = uart_static Qemu, ms_paging = boot_tables, ms_regs = \<lparr>sctlr_el1 = 0, mair_el1 = 0, tcr_el1 = 0, ttbr0_el1 = 0, ttbr1_el1 = 0\<rparr>, ms_boot = boot_static,
     ms_frames = None, ms_heap = (), ms_mem = (\<lambda>_. 0)\<rparr>"

definition demo_heap :: "unit heap_ops" where
  "demo_heap = \<lparr>ll_init = (\<lambda>a n hm. hm), ll_alloc = (\<lambda>l hm. (0, hm)), ll_dealloc = (\<lambda>p l hm. hm), ll_realloc = (\<lambda>p l n hm. (0, hm))\<rparr>"

lemma demo_boot_start: "align_up (kernel_end demo_info) PAGE_SIZE = 0x201000"
  by code_simp

lemma demo_fits: "bitmap_fits (normalize demo_raw) 0x201000"
proof -
  have "usable_max_end (normalize demo_raw) = 0x200000000" by (simp add: usable_max_end_def demo_raw_normalized)
  moreover have "boot_limit (normalize demo_raw) 0x201000 = 0x3F000000"
    by (simp add: boot_limit_def usable_regions_def demo_raw_normalized)
  ultimately show ?thesis by (simp add: bitmap_fits_def bitmap_bytes_def)
qed

theorem mm_init_free_frames_witness:
  "\<exists>s' fa. mm_init Qemu demo_addrs demo_info demo_heap 0 demo_mm = Inr s' \<and> ms_frames s' = Some fa \<and>
     (\<forall>a :: u64. unat a div 4096 \<in> free_frames fa \<longrightarrow>
        \<not> (0x84000 \<le> a \<and> a < 0x200800) \<and> \<not> (0x3F000000 \<le> a \<and> a < 0x40000000))"
proof -
  have "dtb_parse (ms_mem demo_mm) 0 mm_new = Inr (mm_new, None)" and "board_uart Qemu 0 demo_mm = Inr demo_mm"
    and "ms_frames demo_mm = None" by (simp_all add: dtb_parse_def board_uart_def demo_mm_def)
  moreover have "below_top_page (mm_live demo_raw)" by (simp add: below_top_page_def demo_raw_live)
  moreover have "below_512G (normalize demo_raw) (ms_paging demo_mm)"
    by (simp add: below_512G_def demo_raw_normalized demo_mm_def boot_tables_def Let_def)
  ultimately obtain s' where s': "mm_init Qemu demo_addrs demo_info demo_heap 0 demo_mm = Inr s'" "ms_frames s' \<noteq> None"
    and free: "\<forall>fa a. ms_frames s' = Some fa \<and> unat a div 4096 \<in> free_frames fa \<longrightarrow>
       (\<forall>r\<in>set (mm_live demo_raw). covers r a \<longrightarrow> pr_kind r = UsableRam)"
    using mm_init_free_frames [of demo_mm 0 mm_new None Qemu demo_mm demo_raw demo_info demo_addrs demo_heap]
      demo_addrs_ok demo_fits unfolding demo_boot_start by auto
  from s'(2) obtain fa where "ms_frames s' = Some fa" by blast
  with s'(1) free show ?thesis by (simp add: demo_raw_live covers_def)
qed

end
