(* ===== verification/Bootlog.thy ===== *)
theory Bootlog
  imports Mminit
begin

text \<open>
  What \<open>src/mm/mod.rs\<close> reports of the memory map on the serial line: \<open>log_map\<close> and \<open>log_summary\<close> on QEMU,
  through the driver, and \<open>log_map_raw\<close> and \<open>log_summary_raw\<close> on the Raspberry Pi, byte by byte into the data
  register that firmware left enabled, with delay loops in place of a look at the flag register. \<open>{}\<close>
  and \<open>{:#010x}\<close> of the standard library are decimal digits, and hexadecimal digits padded with zeros to a
  width of ten with their prefix. The sums wrap, as in a release build; \<open>boot_summary_exact\<close> shows that they do not.
  A reader of the log, with which the properties are stated, follows the definitions.
\<close>

section \<open>Definitions\<close>

subsection \<open>Numbers as text\<close>

definition HEX :: "u8 list" where
  "HEX = bytes_of ''0123456789abcdef''"

function digits :: "nat \<Rightarrow> nat \<Rightarrow> u8 list" where
  "digits base n = (if base < 2 \<or> n < base then [HEX ! n] else digits base (n div base) @ [HEX ! (n mod base)])"
  by pat_completeness auto
termination
  by (relation "measure snd") auto

declare digits.simps [simp del]

text \<open>\<open>{}\<close> and \<open>{:#010x}\<close> of a \<open>u64\<close>.\<close>

definition fmt_dec :: "u64 \<Rightarrow> u8 list" where
  "fmt_dec v = digits 10 (unat v)"

definition fmt_hex10 :: "u64 \<Rightarrow> u8 list" where
  "fmt_hex10 v = (let ds = digits 16 (unat v) in bytes_of ''0x'' @ replicate (8 - length ds) 0x30 @ ds)"

definition kind_name :: "region_kind \<Rightarrow> u8 list" where
  "kind_name k =
     (case k of
        UsableRam \<Rightarrow> bytes_of ''usable''
      | Reserved \<Rightarrow> bytes_of ''reserved''
      | Mmio \<Rightarrow> bytes_of ''mmio''
      | KernelImage \<Rightarrow> bytes_of ''kernel''
      | BootStack \<Rightarrow> bytes_of ''stack''
      | BootInfo \<Rightarrow> bytes_of ''bootinfo'')"

subsection \<open>Totals\<close>

record tally =
  t_usable :: u64
  t_reserved :: u64
  t_mmio :: u64
  t_kernel :: u64
  t_bootinfo :: u64
  t_stack :: u64

definition tally_zero :: tally where
  "tally_zero = \<lparr>t_usable = 0, t_reserved = 0, t_mmio = 0, t_kernel = 0, t_bootinfo = 0, t_stack = 0\<rparr>"

definition tally_add :: "phys_region \<Rightarrow> tally \<Rightarrow> tally" where
  "tally_add region t =
     (let size = saturating_sub (pr_end region) (pr_start region) in
      case pr_kind region of
        UsableRam \<Rightarrow> t\<lparr>t_usable := t_usable t + size\<rparr>
      | Reserved \<Rightarrow> t\<lparr>t_reserved := t_reserved t + size\<rparr>
      | Mmio \<Rightarrow> t\<lparr>t_mmio := t_mmio t + size\<rparr>
      | KernelImage \<Rightarrow> t\<lparr>t_kernel := t_kernel t + size\<rparr>
      | BootInfo \<Rightarrow> t\<lparr>t_bootinfo := t_bootinfo t + size\<rparr>
      | BootStack \<Rightarrow> t\<lparr>t_stack := t_stack t + size\<rparr>)"

definition tally_map :: "normalized_map \<Rightarrow> tally" where
  "tally_map n = fold tally_add (nm_live n) tally_zero"

subsection \<open>The driver's log, on QEMU\<close>

definition map_line :: "phys_region \<Rightarrow> u8 list" where
  "map_line r = bytes_of ''  '' @ fmt_hex10 (pr_start r) @ bytes_of ''-'' @ fmt_hex10 (pr_end r) @ bytes_of '' '' @ kind_name (pr_kind r) @ [0x0A]"

fun write_lines :: "board \<Rightarrow> 'd device \<Rightarrow> uart_state \<Rightarrow> phys_region list \<Rightarrow> 'd \<Rightarrow> 'd option" where
  "write_lines b dev u [] d = Some d"
| "write_lines b dev u (r # rs) d =
     (case uart_write_str b dev u (map_line r) d of None \<Rightarrow> None | Some d \<Rightarrow> write_lines b dev u rs d)"

definition log_map :: "board \<Rightarrow> 'd device \<Rightarrow> uart_state \<Rightarrow> normalized_map \<Rightarrow> 'd \<Rightarrow> 'd option" where
  "log_map b dev u n d =
     with_uart u (\<lambda>d. case uart_write_str b dev u (bytes_of ''Memory map:'' @ [0x0A]) d of
         None \<Rightarrow> None | Some d \<Rightarrow> write_lines b dev u (nm_live n) d) d"

definition summary_line :: "tally \<Rightarrow> u8 list" where
  "summary_line t =
     bytes_of ''Memory summary: usable='' @ fmt_dec (t_usable t div (1024 * 1024)) @
     bytes_of '' MiB reserved='' @ fmt_dec (t_reserved t div (1024 * 1024)) @
     bytes_of '' MiB mmio='' @ fmt_dec (t_mmio t div (1024 * 1024)) @
     bytes_of '' MiB kernel='' @ fmt_dec (t_kernel t div 1024) @
     bytes_of '' KiB stack='' @ fmt_dec (t_stack t div 1024) @
     bytes_of '' KiB bootinfo='' @ fmt_dec (t_bootinfo t div 1024) @ bytes_of '' KiB'' @ [0x0A]"

definition log_summary :: "board \<Rightarrow> 'd device \<Rightarrow> uart_state \<Rightarrow> normalized_map \<Rightarrow> 'd \<Rightarrow> 'd option" where
  "log_summary b dev u n d = with_uart u (uart_write_str b dev u (summary_line (tally_map n))) d"

subsection \<open>The raw log, on the Raspberry Pi\<close>

definition MM_UART_FALLBACK :: usize where
  "MM_UART_FALLBACK = 0x1c00030000"

definition early_uart_putc :: "'d device \<Rightarrow> u8 \<Rightarrow> 'd \<Rightarrow> 'd" where
  "early_uart_putc dev b d = write32 dev MM_UART_FALLBACK (ucast b) d"

definition early_uart_print :: "'d device \<Rightarrow> u8 list \<Rightarrow> 'd \<Rightarrow> 'd" where
  "early_uart_print dev s d =
     fold (\<lambda>b d. early_uart_putc dev b (if b = 0x0A then early_uart_putc dev 0x0D d else d)) s d"

definition nibble_digit :: "u64 \<Rightarrow> nat \<Rightarrow> u8" where
  "nibble_digit v shift = HEX ! unat (drop_bit shift v AND 0xF)"

definition early_uart_hex_u64 :: "'d device \<Rightarrow> u64 \<Rightarrow> 'd \<Rightarrow> 'd" where
  "early_uart_hex_u64 dev v d =
     fold (\<lambda>i. early_uart_putc dev (nibble_digit v (60 - 4 * i))) [0..<16] (early_uart_print dev (bytes_of ''0x'') d)"

definition log_region_raw :: "'d device \<Rightarrow> phys_region \<Rightarrow> 'd \<Rightarrow> 'd" where
  "log_region_raw dev r d =
     (let d = early_uart_print dev (bytes_of ''  '') d;
          d = early_uart_hex_u64 dev (pr_start r) d;
          d = early_uart_print dev (bytes_of ''-'') d;
          d = early_uart_hex_u64 dev (pr_end r) d;
          d = early_uart_print dev (bytes_of '' '') d;
          d = early_uart_print dev (kind_name (pr_kind r)) d
      in early_uart_print dev [0x0A] d)"

definition log_map_raw :: "'d device \<Rightarrow> normalized_map \<Rightarrow> 'd \<Rightarrow> 'd" where
  "log_map_raw dev n d = fold (log_region_raw dev) (nm_live n) (early_uart_print dev (bytes_of ''Memory map:'' @ [0x0A]) d)"

definition log_summary_raw :: "'d device \<Rightarrow> normalized_map \<Rightarrow> 'd \<Rightarrow> 'd" where
  "log_summary_raw dev n d =
     (let t = tally_map n;
          d = early_uart_hex_u64 dev (t_usable t) (early_uart_print dev (bytes_of ''Memory summary: usable='') d);
          d = early_uart_hex_u64 dev (t_reserved t) (early_uart_print dev (bytes_of '' reserved='') d);
          d = early_uart_hex_u64 dev (t_mmio t) (early_uart_print dev (bytes_of '' mmio='') d);
          d = early_uart_hex_u64 dev (t_kernel t) (early_uart_print dev (bytes_of '' kernel='') d);
          d = early_uart_hex_u64 dev (t_stack t) (early_uart_print dev (bytes_of '' stack='') d);
          d = early_uart_hex_u64 dev (t_bootinfo t) (early_uart_print dev (bytes_of '' bootinfo='') d)
      in early_uart_print dev [0x0A] d)"

section \<open>Reading numbers and lines back\<close>

definition hex_value :: "u8 \<Rightarrow> nat option" where
  "hex_value c =
     (if 0x30 \<le> c \<and> c \<le> 0x39 then Some (unat c - 0x30)
      else if 0x61 \<le> c \<and> c \<le> 0x66 then Some (unat c - 0x61 + 10)
      else None)"

fun read_num :: "nat \<Rightarrow> nat \<Rightarrow> u8 list \<Rightarrow> nat \<times> u8 list" where
  "read_num base acc [] = (acc, [])"
| "read_num base acc (c # cs) =
     (case hex_value c of
        Some x \<Rightarrow> if x < base then read_num base (acc * base + x) cs else (acc, c # cs)
      | None \<Rightarrow> (acc, c # cs))"

lemma hex_value_HEX: "x < 16 \<Longrightarrow> hex_value (HEX ! x) = Some x"
proof -
  have "\<forall>x\<in>set [0..<16]. hex_value (HEX ! x) = Some x" by code_simp
  then show "x < 16 \<Longrightarrow> hex_value (HEX ! x) = Some x" by simp
qed

lemma read_num_digits:
  "2 \<le> base \<Longrightarrow> base \<le> 16 \<Longrightarrow>
    read_num base acc (digits base n @ cs) = read_num base (acc * base ^ length (digits base n) + n) cs"
proof (induction base n arbitrary: acc cs rule: digits.induct)
  case (1 base n)
  show ?case
  proof (cases "n < base")
    case True
    with 1 show ?thesis by (simp add: digits.simps [of base n] hex_value_HEX)
  next
    case False
    with 1 have d: "digits base n = digits base (n div base) @ [HEX ! (n mod base)]" by (subst digits.simps) simp
    have m: "n mod base < base" "n mod base < 16" using 1 mod_less_divisor [of base n] by linarith+
    have "acc * base ^ length (digits base (n div base)) * base + n div base * base + n mod base =
        acc * base ^ Suc (length (digits base (n div base))) + n"
      by simp
    with False 1 m "1.IH" [of acc "HEX ! (n mod base) # cs"] show ?thesis by (simp add: d hex_value_HEX algebra_simps)
  qed
qed

text \<open>
  The reader takes a log apart again: carriage returns are dropped, the heading is skipped, and every line is two
  numbers and the name of a kind.
\<close>

fun skip :: "u8 list \<Rightarrow> u8 list \<Rightarrow> u8 list option" where
  "skip [] cs = Some cs"
| "skip (p # ps) [] = None"
| "skip (p # ps) (c # cs) = (if p = c then skip ps cs else None)"

definition read_u64 :: "u8 list \<Rightarrow> (u64 \<times> u8 list) option" where
  "read_u64 cs = Option.bind (skip (bytes_of ''0x'') cs) (\<lambda>cs. let (n, cs) = read_num 16 0 cs in Some (of_nat n, cs))"

definition all_kinds :: "region_kind list" where
  "all_kinds = [UsableRam, Reserved, Mmio, KernelImage, BootStack, BootInfo]"

definition read_kind :: "u8 list \<Rightarrow> (region_kind \<times> u8 list) option" where
  "read_kind cs =
     map_option (\<lambda>k. (k, drop (length (kind_name k) + 1) cs)) (find (\<lambda>k. skip (kind_name k @ [0x0A]) cs \<noteq> None) all_kinds)"

definition read_line :: "u8 list \<Rightarrow> (phys_region \<times> u8 list) option" where
  "read_line cs =
     Option.bind (skip (bytes_of ''  '') cs) (\<lambda>cs.
     Option.bind (read_u64 cs) (\<lambda>(a, cs).
     Option.bind (skip (bytes_of ''-'') cs) (\<lambda>cs.
     Option.bind (read_u64 cs) (\<lambda>(e, cs).
     Option.bind (skip (bytes_of '' '') cs) (\<lambda>cs.
     Option.bind (read_kind cs) (\<lambda>(k, cs). Some (\<lparr>pr_start = a, pr_end = e, pr_kind = k\<rparr>, cs)))))))"

fun read_lines :: "nat \<Rightarrow> u8 list \<Rightarrow> phys_region list option" where
  "read_lines n [] = Some []"
| "read_lines 0 (c # cs) = None"
| "read_lines (Suc n) (c # cs) =
     Option.bind (read_line (c # cs)) (\<lambda>(r, rest). map_option ((#) r) (read_lines n rest))"

definition read_log :: "u8 list \<Rightarrow> phys_region list option" where
  "read_log sent =
     (let cs = filter (\<lambda>c. c \<noteq> 0x0D) sent in
      Option.bind (skip (bytes_of ''Memory map:'' @ [0x0A]) cs) (\<lambda>cs. read_lines (length cs) cs))"

lemma skip_append [simp]: "skip p (p @ cs) = Some cs"
  by (induction p) simp_all

lemma skip_bytes [simp]: "skip (bytes_of s) (bytes_of s @ cs) = Some cs"
  by (rule skip_append)

lemma read_num_zeros: "read_num 16 0 (replicate k 0x30 @ cs) = read_num 16 0 cs"
  by (induction k) (simp_all add: hex_value_def)

text \<open>A text of hexadecimal digits for a number, with any number of leading zeros.\<close>

definition hex_text :: "u64 \<Rightarrow> u8 list \<Rightarrow> bool" where
  "hex_text v cs \<longleftrightarrow> (\<exists>ds. cs = bytes_of ''0x'' @ ds \<and> set ds \<subseteq> set HEX \<and>
     (\<forall>rest. read_num 16 0 (ds @ rest) = read_num 16 (unat v) rest))"

lemma read_u64_hex_text:
  "hex_text v cs \<Longrightarrow> hex_value c = None \<Longrightarrow> read_u64 (cs @ c # rest) = Some (v, c # rest)"
  by (auto simp: hex_text_def read_u64_def)

lemma read_kind_name: "read_kind (kind_name k @ 0x0A # cs) = Some (k, cs)"
  by (cases k) (simp_all add: read_kind_def all_kinds_def kind_name_def bytes_of_def)

definition line_text :: "phys_region \<Rightarrow> u8 list \<Rightarrow> bool" where
  "line_text r cs \<longleftrightarrow> (\<exists>a e. hex_text (pr_start r) a \<and> hex_text (pr_end r) e \<and>
     cs = bytes_of ''  '' @ a @ bytes_of ''-'' @ e @ bytes_of '' '' @ kind_name (pr_kind r) @ [0x0A])"

lemma read_line_text: "line_text r cs \<Longrightarrow> read_line (cs @ rest) = Some (r, rest)"
proof -
  assume "line_text r cs"
  then obtain a e where ae: "hex_text (pr_start r) a" "hex_text (pr_end r) e"
    and cs: "cs = bytes_of ''  '' @ a @ bytes_of ''-'' @ e @ bytes_of '' '' @ kind_name (pr_kind r) @ [0x0A]"
    unfolding line_text_def by blast
  have "hex_value 0x2D = None" "hex_value 0x20 = None" by (simp_all add: hex_value_def)
  then have u: "read_u64 (a @ bytes_of ''-'' @ t) = Some (pr_start r, bytes_of ''-'' @ t)"
    "read_u64 (e @ bytes_of '' '' @ t) = Some (pr_end r, bytes_of '' '' @ t)" for t
    using read_u64_hex_text ae by (simp_all add: bytes_of_def)
  show ?thesis unfolding cs by (simp add: read_line_def u read_kind_name)
qed

lemma line_text_ne: "line_text r cs \<Longrightarrow> cs \<noteq> []"
  by (auto simp: line_text_def bytes_of_def)

lemma read_lines_text:
  "list_all2 line_text rs ls \<Longrightarrow> length (concat ls) \<le> n \<Longrightarrow> read_lines n (concat ls) = Some rs"
proof (induction n arbitrary: rs ls)
  case 0
  then show ?case using line_text_ne by (cases ls) (auto simp: list_all2_Cons2)
next
  case (Suc n)
  show ?case
  proof (cases ls)
    case Nil
    with Suc show ?thesis by simp
  next
    case (Cons l ls')
    with Suc.prems obtain r rs' where rs: "rs = r # rs'" "line_text r l" "list_all2 line_text rs' ls'"
      by (auto simp: list_all2_Cons2)
    then have "l \<noteq> []" using line_text_ne by blast
    then obtain c cs where c: "l @ concat ls' = c # cs" by (cases l) auto
    have "length (concat ls') \<le> n" using Suc.prems(2) Cons \<open>l \<noteq> []\<close> by (cases l) simp_all
    with Suc.IH [OF rs(3)] have "read_lines n (concat ls') = Some rs'" by blast
    moreover have "read_line (c # cs) = Some (r, concat ls')" using read_line_text [OF rs(2)] c by metis
    ultimately show ?thesis using Cons rs(1) c by simp
  qed
qed

text \<open>Both spellings of a number are such texts.\<close>

lemma HEX_in: "x < 16 \<Longrightarrow> HEX ! x \<in> set HEX"
  by (rule nth_mem) (simp add: HEX_def bytes_of_def)

lemma set_digits: "2 \<le> base \<Longrightarrow> base \<le> 16 \<Longrightarrow> set (digits base n) \<subseteq> set HEX"
proof (induction base n rule: digits.induct)
  case (1 base n)
  moreover have "n mod base < 16" using 1 mod_less_divisor [of base n] by linarith
  ultimately show ?case using HEX_in [of n] HEX_in [of "n mod base"] by (subst digits.simps) auto
qed

lemma zero_in_HEX: "0x30 \<in> set HEX"
  by code_simp

lemma hex_text_fmt: "hex_text v (fmt_hex10 v)"
proof -
  let ?ds = "replicate (8 - length (digits 16 (unat v))) 0x30 @ digits 16 (unat v)"
  have "fmt_hex10 v = bytes_of ''0x'' @ ?ds" by (simp add: fmt_hex10_def Let_def)
  moreover have "set ?ds \<subseteq> set HEX" using set_digits zero_in_HEX by auto
  moreover have "read_num 16 0 (?ds @ rest) = read_num 16 (unat v) rest" for rest
    by (simp add: read_num_zeros read_num_digits)
  ultimately show ?thesis unfolding hex_text_def by blast
qed

lemma nibble_nat: "unat (drop_bit s (v :: u64) AND 0xF) = unat v div 2 ^ s mod 16"
proof -
  have "drop_bit s v AND 0xF = take_bit 4 (drop_bit s v)"
    by (simp only: take_bit_eq_mask mask_eq_exp_minus_1) simp
  then have "unat (drop_bit s v AND 0xF) = take_bit 4 (drop_bit s (unat v))"
    by (simp only: unsigned_take_bit_eq unat_drop_bit_eq)
  then show ?thesis by (simp only: take_bit_eq_mod drop_bit_eq_div) simp
qed

lemma nibble_in: "nibble_digit v s \<in> set HEX"
  unfolding nibble_digit_def by (rule HEX_in) (simp add: nibble_nat)

lemma read_nibbles:
  "j \<le> 16 \<Longrightarrow> read_num 16 0 (map (\<lambda>i. nibble_digit v (60 - 4 * i)) [0..<j] @ rest) = read_num 16 (unat v div 2 ^ (64 - 4 * j)) rest"
proof (induction j arbitrary: rest)
  case 0
  have "unat v div 2 ^ 64 = 0" by (rule div_less) (rule unat_u64_less)
  then show ?case by simp
next
  case (Suc j)
  let ?q = "unat v div 2 ^ (60 - 4 * j)"
  let ?c = "nibble_digit v (60 - 4 * j)"
  have e: "64 - 4 * j = 60 - 4 * j + 4" "64 - 4 * Suc j = 60 - 4 * j" using Suc.prems by simp_all
  have "unat v div 2 ^ (64 - 4 * j) = ?q div 16" unfolding e by (simp add: power_add div_mult2_eq)
  then have q: "unat v div 2 ^ (64 - 4 * j) * 16 + ?q mod 16 = ?q" by simp
  have c: "hex_value ?c = Some (?q mod 16)" unfolding nibble_digit_def nibble_nat by (rule hex_value_HEX) simp
  have "read_num 16 0 (map (\<lambda>i. nibble_digit v (60 - 4 * i)) [0..<Suc j] @ rest) =
    read_num 16 (unat v div 2 ^ (64 - 4 * j)) (?c # rest)"
    using Suc.IH [of "?c # rest"] Suc.prems by simp
  also have "?q mod 16 < 16" by simp
  then have "read_num 16 (unat v div 2 ^ (64 - 4 * j)) (?c # rest) = read_num 16 ?q rest"
    by (simp only: read_num.simps c option.case q if_True)
  finally show ?case unfolding e .
qed

definition raw_hex :: "u64 \<Rightarrow> u8 list" where
  "raw_hex v = bytes_of ''0x'' @ map (\<lambda>i. nibble_digit v (60 - 4 * i)) [0..<16]"

lemma hex_text_raw: "hex_text v (raw_hex v)"
  unfolding hex_text_def raw_hex_def using read_nibbles [of 16 v] nibble_in by fastforce

lemma line_text_map_line: "line_text r (map_line r)"
  using hex_text_fmt by (auto simp: line_text_def map_line_def)

definition raw_line :: "phys_region \<Rightarrow> u8 list" where
  "raw_line r = bytes_of ''  '' @ raw_hex (pr_start r) @ bytes_of ''-'' @ raw_hex (pr_end r) @ bytes_of '' '' @
     kind_name (pr_kind r) @ [0x0A]"

lemma line_text_raw_line: "line_text r (raw_line r)"
  using hex_text_raw by (auto simp: line_text_def raw_line_def)

section \<open>The wire\<close>

lemma no_cr: "0x0D \<notin> set s \<Longrightarrow> filter (\<lambda>c. c \<noteq> 0x0D) (crlf s) = s"
  by (induction s) (simp_all add: crlf_def)

lemma HEX_no_cr: "0x0D \<notin> set HEX"
  by code_simp

lemma line_text_no_cr: "line_text r cs \<Longrightarrow> 0x0D \<notin> set cs"
proof -
  have "hex_text v t \<Longrightarrow> 0x0D \<notin> set t" for v t
    using HEX_no_cr by (auto simp: hex_text_def bytes_of_def)
  moreover have "0x0D \<notin> set (kind_name k)" for k
    by (cases k) (simp_all add: kind_name_def bytes_of_def)
  ultimately show "line_text r cs \<Longrightarrow> 0x0D \<notin> set cs"
    by (auto simp: line_text_def bytes_of_def)
qed

lemma read_log_text:
  assumes "list_all2 line_text rs ls"
  shows "read_log (crlf (bytes_of ''Memory map:'' @ [0x0A] @ concat ls)) = Some rs"
proof -
  have "0x0D \<notin> set (concat ls)" using assms line_text_no_cr by (fastforce simp: list_all2_conv_all_nth in_set_conv_nth)
  then have n: "0x0D \<notin> set (bytes_of ''Memory map:'' @ [0x0A] @ concat ls)" by (auto simp: bytes_of_def)
  have sk: "skip (bytes_of ''Memory map:'' @ [0x0A]) (bytes_of ''Memory map:'' @ [0x0A] @ concat ls) = Some (concat ls)"
    using skip_append [of "bytes_of ''Memory map:'' @ [0x0A]" "concat ls"] by simp
  show ?thesis unfolding read_log_def Let_def no_cr [OF n] sk using read_lines_text [OF assms] by simp
qed

lemma write_lines_tx:
  assumes "port_of u dev rx tx busy"
  shows "\<exists>d'. write_lines b dev u rs d = Some d' \<and> rx d' = rx d \<and> tx d' = tx d @ crlf (concat (map map_line rs))"
proof (induction rs arbitrary: d)
  case Nil
  then show ?case by (simp add: crlf_def)
next
  case (Cons r rs)
  obtain d1 where d1: "uart_write_str b dev u (map_line r) d = Some d1" "rx d1 = rx d" "tx d1 = tx d @ crlf (map_line r)"
    using uart_write_str_tx [OF assms] by blast
  with Cons [of d1] show ?case by (auto simp: crlf_append)
qed

text \<open>
  The raw writes do not look at the flag register: the delay loops, and the depth of the port's queue for the short
  names written without them, are to make sure that every byte written to the data register is sent.
\<close>

definition raw_port :: "'d device \<Rightarrow> ('d \<Rightarrow> u8 list) \<Rightarrow> bool" where
  "raw_port dev tx \<longleftrightarrow> (\<forall>v d. tx (write32 dev MM_UART_FALLBACK v d) = tx d @ [ucast v])"

lemma raw_putc: "raw_port dev tx \<Longrightarrow> tx (early_uart_putc dev c d) = tx d @ [c]"
  by (simp add: raw_port_def early_uart_putc_def)

lemma raw_print: "raw_port dev tx \<Longrightarrow> tx (early_uart_print dev s d) = tx d @ crlf s"
proof (induction s arbitrary: d)
  case (Cons c s)
  then show ?case by (simp add: early_uart_print_def raw_putc crlf_def)
qed (simp add: early_uart_print_def crlf_def)

lemma raw_hex_tx: "raw_port dev tx \<Longrightarrow> tx (early_uart_hex_u64 dev v d) = tx d @ crlf (raw_hex v)"
proof -
  assume raw: "raw_port dev tx"
  have f: "tx (fold (\<lambda>i. early_uart_putc dev (g i)) is d) = tx d @ map g is" for g and "is" :: "nat list" and d
    by (induction "is" arbitrary: d) (simp_all add: raw_putc [OF raw])
  have ne: "c \<in> set HEX \<Longrightarrow> c \<noteq> 10" for c
  proof -
    have "10 \<notin> set HEX" by code_simp
    then show "c \<in> set HEX \<Longrightarrow> c \<noteq> 10" by blast
  qed
  have "crlf (map g is) = map g is" if "\<forall>i. g i \<in> set HEX" for g and "is" :: "nat list"
    using that ne by (induction "is") (simp_all add: crlf_def)
  then show ?thesis unfolding early_uart_hex_u64_def f raw_print [OF raw]
    by (simp only: raw_hex_def crlf_append append_assoc nibble_in simp_thms)
qed

lemma raw_region_tx: "raw_port dev tx \<Longrightarrow> tx (log_region_raw dev r d) = tx d @ crlf (raw_line r)"
  by (simp only: log_region_raw_def Let_def raw_print raw_hex_tx raw_line_def crlf_append append_assoc)

lemma log_map_raw_tx:
  assumes "raw_port dev tx"
  shows "tx (log_map_raw dev n d) = tx d @ crlf (bytes_of ''Memory map:'' @ [0x0A] @ concat (map raw_line (nm_live n)))"
proof -
  have f: "tx (fold (log_region_raw dev) rs d) = tx d @ crlf (concat (map raw_line rs))" for rs d
    by (induction rs arbitrary: d) (simp_all add: raw_region_tx [OF assms] crlf_append, simp add: crlf_def)
  show ?thesis by (simp only: log_map_raw_def f raw_print [OF assms] crlf_append append_assoc)
qed

section \<open>The totals\<close>

definition total :: "region_kind \<Rightarrow> tally \<Rightarrow> u64" where
  "total k t =
     (case k of
        UsableRam \<Rightarrow> t_usable t
      | Reserved \<Rightarrow> t_reserved t
      | Mmio \<Rightarrow> t_mmio t
      | KernelImage \<Rightarrow> t_kernel t
      | BootStack \<Rightarrow> t_stack t
      | BootInfo \<Rightarrow> t_bootinfo t)"

definition bytes_at :: "phys_region list \<Rightarrow> region_kind \<Rightarrow> nat" where
  "bytes_at rs k = card {a. kind_at rs a k}"

definition spanned :: "region_kind \<Rightarrow> phys_region list \<Rightarrow> nat" where
  "spanned k rs = sum_list (map (\<lambda>r. unat (pr_end r) - unat (pr_start r)) (filter (\<lambda>r. pr_kind r = k) rs))"

lemma total_tally_add:
  "total k (tally_add r t) = total k t + (if pr_kind r = k then saturating_sub (pr_end r) (pr_start r) else 0)"
  by (cases "pr_kind r"; cases k) (simp_all add: total_def tally_add_def Let_def)

lemma saturating_sub_of_nat: "saturating_sub a b = of_nat (unat a - unat b)"
proof (rule word_unat_eq_iff [THEN iffD2])
  have "unat a - unat b < 2 ^ 64" using unat_u64_less [of a] by linarith
  then show "unat (saturating_sub a b) = unat (of_nat (unat a - unat b) :: u64)"
    by (simp add: unat_saturating_sub unat_of_nat take_bit_nat_eq_self)
qed

lemma total_fold: "total k (fold tally_add rs t) = total k t + of_nat (spanned k rs)"
  by (induction rs arbitrary: t) (simp_all add: spanned_def total_tally_add saturating_sub_of_nat)

lemma total_tally_map: "total k (tally_map n) = of_nat (spanned k (nm_live n))"
proof -
  have "total k tally_zero = 0" by (cases k) (simp_all add: total_def tally_zero_def)
  then show ?thesis by (simp add: tally_map_def total_fold)
qed

lemma card_covers: "card {a. covers r a} = unat (pr_end r) - unat (pr_start r)"
proof -
  have "unat ` {a. covers r a} = {unat (pr_start r)..<unat (pr_end r)}"
  proof (intro equalityI subsetI)
    fix n
    assume n: "n \<in> {unat (pr_start r)..<unat (pr_end r)}"
    then have "n < 2 ^ 64" using unat_u64_less [of "pr_end r"] by simp
    then have "unat (of_nat n :: u64) = n" by (simp add: unat_of_nat take_bit_nat_eq_self)
    with n show "n \<in> unat ` {a. covers r a}"
      by (intro image_eqI [of _ _ "of_nat n"]) (simp_all add: covers_def word_le_nat_alt word_less_nat_alt)
  qed (auto simp: covers_def word_le_nat_alt word_less_nat_alt)
  moreover have "card (unat ` {a. covers r a}) = card {a. covers r a}" by (rule card_image) (auto intro!: inj_onI simp: word_unat_eq_iff)
  ultimately show ?thesis by simp
qed

lemma spanned_bytes_at:
  "ordered (filter (\<lambda>r. pr_start r < pr_end r) rs) \<Longrightarrow> spanned k rs = bytes_at rs k"
proof (induction rs)
  case Nil
  show ?case by (simp add: spanned_def bytes_at_def kind_at_def)
next
  case (Cons r rs)
  have IH: "spanned k rs = card {a. kind_at rs a k}"
    using Cons ordered_tl by (auto simp: bytes_at_def split: if_splits)
  show ?case
  proof (cases "pr_kind r = k")
    case False
    with IH show ?thesis by (simp add: spanned_def bytes_at_def kind_at_def)
  next
    case True
    have "pr_end r \<le> pr_start s" if "pr_start r < pr_end r" "s \<in> set rs" "pr_start s < pr_end s" for s
      using Cons.prems that by (simp add: ordered_def)
    then have "{a. covers r a} \<inter> {a. kind_at rs a k} = {}"
      by (fastforce simp: kind_at_def covers_def)
    moreover have "{a. kind_at (r # rs) a k} = {a. covers r a} \<union> {a. kind_at rs a k}"
      using True by (auto simp: kind_at_def)
    ultimately have "bytes_at (r # rs) k = card {a. covers r a} + card {a. kind_at rs a k}"
      unfolding bytes_at_def by (simp add: card_Un_disjoint)
    with True IH show ?thesis by (simp add: spanned_def card_covers)
  qed
qed

lemma bytes_at_less: "bytes_at rs k < 2 ^ 64"
proof -
  have "u64_max \<notin> {a. kind_at rs a k}" by (auto simp: kind_at_def covers_def not_less)
  then have "{a. kind_at rs a k} \<subset> (UNIV :: u64 set)" by blast
  from psubset_card_mono [OF finite this] show ?thesis by (simp add: bytes_at_def card_word)
qed

lemma total_normalize:
  assumes "below_top_page (mm_live m)"
  shows "unat (total k (tally_map (normalize m))) = bytes_at (nm_live (normalize m)) k"
proof -
  have "ordered (filter (\<lambda>r. pr_start r < pr_end r) (nm_live (normalize m)))"
    unfolding nm_live_normalize using ordered_align merged_raw(1) merged_usable_start [OF assms] by blast
  then show ?thesis
    using bytes_at_less by (simp add: total_tally_map spanned_bytes_at unat_of_nat take_bit_nat_eq_self)
qed

text \<open>The numbers of a summary are those that follow an equals sign.\<close>

fun numbers :: "(u8 list \<Rightarrow> nat) \<Rightarrow> u8 list \<Rightarrow> nat list" where
  "numbers rd [] = []"
| "numbers rd (c # cs) = (if c = 0x3D then [rd cs] else []) @ numbers rd cs"

definition read_dec :: "u8 list \<Rightarrow> nat" where
  "read_dec cs = fst (read_num 10 0 cs)"

definition read_bytes :: "u8 list \<Rightarrow> nat" where
  "read_bytes cs = (case read_u64 cs of Some (v, cs) \<Rightarrow> unat v | None \<Rightarrow> 0)"

lemma numbers_skip [simp]: "0x3D \<notin> set cs \<Longrightarrow> numbers rd (cs @ ds) = numbers rd ds"
  by (induction cs) auto

lemma numbers_eq [simp]: "numbers rd (0x3D # cs) = rd cs # numbers rd cs"
  by simp

lemma HEX_no_eq: "0x3D \<notin> set HEX"
  by code_simp

lemma fmt_dec_no_eq [simp]: "0x3D \<notin> set (fmt_dec v)"
  using set_digits [of 10] HEX_no_eq by (auto simp: fmt_dec_def)

lemma read_dec_fmt [simp]: "read_dec (fmt_dec v @ 0x20 # cs) = unat v"
  by (simp add: read_dec_def fmt_dec_def read_num_digits hex_value_def)

lemma raw_hex_no_eq [simp]: "0x3D \<notin> set (raw_hex v)"
proof -
  have "nibble_digit v s \<noteq> 0x3D" for s using nibble_in [of v s] HEX_no_eq by metis
  then show ?thesis by (auto simp: raw_hex_def bytes_of_def)
qed

lemma read_bytes_raw [simp]: "hex_value c = None \<Longrightarrow> read_bytes (raw_hex v @ c # cs) = unat v"
  by (simp add: read_bytes_def read_u64_hex_text [OF hex_text_raw])

lemma numbers_summary_line:
  "numbers read_dec (summary_line t) =
    [unat (t_usable t) div 2 ^ 20, unat (t_reserved t) div 2 ^ 20, unat (t_mmio t) div 2 ^ 20,
     unat (t_kernel t) div 2 ^ 10, unat (t_stack t) div 2 ^ 10, unat (t_bootinfo t) div 2 ^ 10]"
  by (simp add: summary_line_def bytes_of_def unat_div)

definition raw_summary :: "tally \<Rightarrow> u8 list" where
  "raw_summary t =
     bytes_of ''Memory summary: usable='' @ raw_hex (t_usable t) @ bytes_of '' reserved='' @ raw_hex (t_reserved t) @
     bytes_of '' mmio='' @ raw_hex (t_mmio t) @ bytes_of '' kernel='' @ raw_hex (t_kernel t) @
     bytes_of '' stack='' @ raw_hex (t_stack t) @ bytes_of '' bootinfo='' @ raw_hex (t_bootinfo t) @ [0x0A]"

lemma numbers_raw_summary:
  "numbers read_bytes (raw_summary t) =
    [unat (t_usable t), unat (t_reserved t), unat (t_mmio t), unat (t_kernel t), unat (t_stack t), unat (t_bootinfo t)]"
proof -
  have "hex_value 0x20 = None" "hex_value 0x0A = None" by (simp_all add: hex_value_def)
  then show ?thesis by (simp add: raw_summary_def bytes_of_def)
qed

lemma log_summary_raw_tx: "raw_port dev tx \<Longrightarrow> tx (log_summary_raw dev n d) = tx d @ crlf (raw_summary (tally_map n))"
  by (simp only: log_summary_raw_def Let_def raw_print raw_hex_tx raw_summary_def crlf_append append_assoc)

text \<open>A port that keeps what is written to the data register, to evaluate the raw log on.\<close>

definition demo_raw_port :: "u8 list device" where
  "demo_raw_port = \<lparr>dev_read = (\<lambda>a d. (0, d)), dev_write = (\<lambda>a v d. if a = MM_UART_FALLBACK then d @ [ucast v] else d)\<rparr>"

lemma demo_raw_port: "raw_port demo_raw_port id"
  by (simp add: raw_port_def demo_raw_port_def write32_def)

section \<open>Properties\<close>

text \<open>
  C22. The printed memory map can be read back. What \<open>log_map\<close> puts on the wire through the driver, and what
  \<open>log_map_raw\<close> puts on it without the driver, parses to exactly the regions of the map, in their order, with
  their bounds and kinds; \<open>log_map\<close> returns and takes nothing from the input.
\<close>

theorem boot_log_roundtrip:
  assumes "port_of u dev rx tx busy" and "raw_port rdev rtx"
  shows "(\<exists>d' sent. log_map b dev u n d = Some d' \<and> rx d' = rx d \<and> tx d' = tx d @ sent \<and> read_log sent = Some (nm_live n)) \<and>
    (\<exists>sent. rtx (log_map_raw rdev n e) = rtx e @ sent \<and> read_log sent = Some (nm_live n))"
proof
  have lines: "list_all2 line_text rs (map map_line rs)" "list_all2 line_text rs (map raw_line rs)" for rs
    by (simp_all add: list_all2_conv_all_nth line_text_map_line line_text_raw_line)
  obtain d1 where d1: "uart_write_str b dev u (bytes_of ''Memory map:'' @ [0x0A]) d = Some d1" "rx d1 = rx d"
    "tx d1 = tx d @ crlf (bytes_of ''Memory map:'' @ [0x0A])"
    using uart_write_str_tx [OF assms(1)] by blast
  obtain d2 where d2: "write_lines b dev u (nm_live n) d1 = Some d2" "rx d2 = rx d1"
    "tx d2 = tx d1 @ crlf (concat (map map_line (nm_live n)))"
    using write_lines_tx [OF assms(1)] by blast
  have "log_map b dev u n d = Some d2" using d1(1) d2(1) assms(1) by (simp add: log_map_def with_uart_def port_of_def)
  moreover have "tx d2 = tx d @ crlf (bytes_of ''Memory map:'' @ [0x0A] @ concat (map map_line (nm_live n)))"
    by (simp only: d1(3) d2(3) crlf_append append_assoc)
  ultimately show "\<exists>d' sent. log_map b dev u n d = Some d' \<and> rx d' = rx d \<and> tx d' = tx d @ sent \<and> read_log sent = Some (nm_live n)"
    using d1(2) d2(2) read_log_text [OF lines(1)] by auto
  show "\<exists>sent. rtx (log_map_raw rdev n e) = rtx e @ sent \<and> read_log sent = Some (nm_live n)"
    using log_map_raw_tx [OF assms(2)] read_log_text [OF lines(2)] by auto
qed

theorem boot_log_roundtrip_witness:
  "\<exists>d' sent. log_map Qemu demo_port demo_uart (normalize demo_map) ([], [], 5) = Some d' \<and> fst (snd d') = sent \<and>
     read_log sent = Some
       [\<lparr>pr_start = 0, pr_end = 0x80000, pr_kind = UsableRam\<rparr>,
        \<lparr>pr_start = 0x80000, pr_end = 0x83800, pr_kind = KernelImage\<rparr>,
        \<lparr>pr_start = 0x84000, pr_end = 0x40000000, pr_kind = UsableRam\<rparr>]"
  using boot_log_roundtrip [OF demo_port_of demo_raw_port, of Qemu "normalize demo_map" "([], [], 5)" "[]"]
  by (auto simp: demo_map_normalized)

text \<open>
  C28. The printed totals are exact: for every kind of region, the number in the summary is the number of addresses
  of that kind in the normalized map, in MiB or KiB through the driver and in bytes in the raw log; the sums do
  not overflow. The one condition is that of the normalization, that no usable RAM reaches into the last page.
\<close>

theorem boot_summary_exact:
  assumes "port_of u dev rx tx busy" and "raw_port rdev rtx" and "below_top_page (mm_live m)"
  defines "amount \<equiv> bytes_at (nm_live (normalize m))"
  shows "(\<exists>d' sent. log_summary b dev u (normalize m) d = Some d' \<and> tx d' = tx d @ crlf sent \<and>
      numbers read_dec sent = [amount UsableRam div 2 ^ 20, amount Reserved div 2 ^ 20, amount Mmio div 2 ^ 20,
        amount KernelImage div 2 ^ 10, amount BootStack div 2 ^ 10, amount BootInfo div 2 ^ 10]) \<and>
    (\<exists>sent. rtx (log_summary_raw rdev (normalize m) e) = rtx e @ crlf sent \<and>
      numbers read_bytes sent = map amount [UsableRam, Reserved, Mmio, KernelImage, BootStack, BootInfo])"
proof
  note t = total_normalize [OF assms(3), folded amount_def, symmetric]
  have amount: "amount UsableRam = unat (t_usable (tally_map (normalize m)))" "amount Reserved = unat (t_reserved (tally_map (normalize m)))"
    "amount Mmio = unat (t_mmio (tally_map (normalize m)))" "amount KernelImage = unat (t_kernel (tally_map (normalize m)))"
    "amount BootStack = unat (t_stack (tally_map (normalize m)))" "amount BootInfo = unat (t_bootinfo (tally_map (normalize m)))"
    by (simp_all add: t total_def)
  obtain d' where "uart_write_str b dev u (summary_line (tally_map (normalize m))) d = Some d'"
    "tx d' = tx d @ crlf (summary_line (tally_map (normalize m)))"
    using uart_write_str_tx [OF assms(1)] by blast
  moreover have "UART_READY u" using assms(1) by (simp add: port_of_def)
  ultimately show "\<exists>d' sent. log_summary b dev u (normalize m) d = Some d' \<and> tx d' = tx d @ crlf sent \<and>
      numbers read_dec sent = [amount UsableRam div 2 ^ 20, amount Reserved div 2 ^ 20, amount Mmio div 2 ^ 20,
        amount KernelImage div 2 ^ 10, amount BootStack div 2 ^ 10, amount BootInfo div 2 ^ 10]"
    using numbers_summary_line [of "tally_map (normalize m)", folded amount] unfolding log_summary_def with_uart_def by auto
  show "\<exists>sent. rtx (log_summary_raw rdev (normalize m) e) = rtx e @ crlf sent \<and>
      numbers read_bytes sent = map amount [UsableRam, Reserved, Mmio, KernelImage, BootStack, BootInfo]"
    using log_summary_raw_tx [OF assms(2)] numbers_raw_summary [of "tally_map (normalize m)", folded amount] by fastforce
qed

theorem boot_summary_exact_witness:
  "\<exists>sent. log_summary_raw demo_raw_port (normalize demo_map) [] = crlf sent \<and>
     numbers read_bytes sent = [0x3FFFC000, 0, 0, 0x3800, 0, 0]"
proof -
  let ?rs = "nm_live (normalize demo_map)"
  have "ordered (filter (\<lambda>r. pr_start r < pr_end r) ?rs)" by (simp add: demo_map_normalized ordered_def)
  then have "bytes_at ?rs = (\<lambda>k. spanned k ?rs)" using spanned_bytes_at by auto
  then show ?thesis
    using boot_summary_exact [OF demo_port_of demo_raw_port demo_map_below, of Qemu "([], [], 5)" "[]"]
    by (simp add: demo_map_normalized spanned_def)
qed

end
