(* ===== verification/Memtypes.thy ===== *)
theory Memtypes
  imports Paging
begin

text \<open>
  The registers of \<open>src/arch/aarch64/mmu.rs\<close> and the descriptors of \<open>src/mm/paging.rs\<close> as the architecture reads
  them: the translation regime in \<open>TCR_EL1\<close>, the memory type that \<open>MAIR_EL1\<close> gives a descriptor, and its
  permissions. \<open>translate\<close> of \<open>Paging\<close> assumes the regime; here it is proved to be the one \<open>enable_mmu\<close> selects.
  What a block of the Raspberry Pi's address spaces is mapped as follows from the order of the calls in \<open>map_mmio\<close>
  and \<open>map_regions\<close>: a later call overwrites the blocks it shares with an earlier one.
\<close>

section \<open>Reading registers and descriptors\<close>

definition T0SZ :: "mmu_regs \<Rightarrow> u64" where "T0SZ regs = tcr_el1 regs AND 0x3F"
definition T1SZ :: "mmu_regs \<Rightarrow> u64" where "T1SZ regs = drop_bit 16 (tcr_el1 regs) AND 0x3F"
definition TG0 :: "mmu_regs \<Rightarrow> u64" where "TG0 regs = drop_bit 14 (tcr_el1 regs) AND 0b11"
definition TG1 :: "mmu_regs \<Rightarrow> u64" where "TG1 regs = drop_bit 30 (tcr_el1 regs) AND 0b11"

text \<open>48-bit addresses in both halves, 4 KiB granules (\<open>TG0\<close> and \<open>TG1\<close> encode them differently), the MMU on.\<close>

definition four_level_4k :: "mmu_regs \<Rightarrow> bool" where
  "four_level_4k regs \<longleftrightarrow> T0SZ regs = 64 - 48 \<and> T1SZ regs = 64 - 48 \<and> TG0 regs = 0b00 \<and> TG1 regs = 0b10 \<and> bit (sctlr_el1 regs) 0"

lemmas tcr_fields = T0SZ_def T1SZ_def TG0_def TG1_def

text \<open>The attribute byte of a descriptor: 0x00 is Device-nGnRnE, 0xFF normal memory, write-back cacheable.\<close>

definition mem_attr :: "mmu_regs \<Rightarrow> u64 \<Rightarrow> u64" where
  "mem_attr regs d = drop_bit (8 * unat (drop_bit 2 d AND 0b111)) (mair_el1 regs) AND 0xFF"

definition device_block :: "mmu_regs \<Rightarrow> u64 \<Rightarrow> bool" where
  "device_block regs d \<longleftrightarrow> mem_attr regs d = 0x00 \<and> \<not> bit d 6 \<and> bit d 53 \<and> bit d 54"

definition normal_block :: "mmu_regs \<Rightarrow> bool \<Rightarrow> u64 \<Rightarrow> bool" where
  "normal_block regs el0 d \<longleftrightarrow> mem_attr regs d = 0xFF \<and> (bit d 6 \<longleftrightarrow> el0) \<and> \<not> bit d 7 \<and> \<not> bit d 53 \<and> \<not> bit d 54"

section \<open>Lemmas\<close>

lemma enable_mmu_regime: "four_level_4k (enable_mmu t0 t1 regs)"
  by (simp add: four_level_4k_def tcr_fields enable_mmu_def VADDR_BITS_def IPS_def Let_def bit_simps)

lemma enable_mmu_mair: "mair_el1 (enable_mmu t0 t1 regs) = 0xFF00"
  by (simp add: enable_mmu_def Let_def)

lemmas desc_bits = block_desc_def DESC_BLOCK_def AF_BIT_def UXN_BIT_def PXN_BIT_def ATTR_DEVICE_def ATTR_NORMAL_def
  AP_EL1_RW_def AP_EL0_RW_def SH_NONE_def SH_INNER_def

text \<open>Fields of a descriptor: bits 2 to 4, 6 and 7, 53 and 54. The address is elsewhere.\<close>

lemma block_desc_attr: "block_desc pa attr ap sh xn AND 0x1C = push_bit 2 attr AND 0x1C"
  by (simp add: block_desc_def DESC_BLOCK_def AF_BIT_def UXN_BIT_def PXN_BIT_def Let_def
      and_or_distrib push_bit_and and.assoc)

lemma attr_index: "drop_bit 2 (block_desc pa attr ap sh xn) AND 0b111 = drop_bit 2 (push_bit 2 attr AND 0x1C)"
proof -
  have "drop_bit 2 (block_desc pa attr ap sh xn) AND 0b111 = drop_bit 2 (block_desc pa attr ap sh xn AND 0x1C)"
    by (simp add: drop_bit_and)
  then show ?thesis by (simp only: block_desc_attr)
qed

lemma device_block_desc: "device_block (enable_mmu t0 t1 regs) (block_desc pa ATTR_DEVICE AP_EL1_RW sh True)"
  unfolding device_block_def mem_attr_def attr_index enable_mmu_mair
  by (simp add: desc_bits Let_def bit_simps)

lemma normal_block_desc:
  "normal_block (enable_mmu t0 t1 regs) False (block_desc pa ATTR_NORMAL AP_EL1_RW sh False)"
  "normal_block (enable_mmu t0 t1 regs) True (block_desc pa ATTR_NORMAL AP_EL0_RW sh False)"
  unfolding normal_block_def mem_attr_def attr_index enable_mmu_mair
  by (simp_all add: desc_bits Let_def bit_simps)

section \<open>The blocks the calls leave behind\<close>

lemma writes_none: "tables_wf addrs st \<Longrightarrow> writes addrs {} kd ud st (Inr st)"
  by (simp add: writes_def same_roots_def)

lemma writes_and_then:
  assumes "writes addrs A kd ud st r"
    and "\<And>s. tables_wf addrs s \<Longrightarrow> same_roots st s \<Longrightarrow> writes addrs B kd ud s (f s)"
  shows "writes addrs (A \<union> B) kd ud st (and_then r f)"
proof -
  obtain s where s: "r = Inr s" "tables_wf addrs s" "same_roots st s"
    "\<forall>n<2 ^ 18. k_entry addrs s n = (if n \<in> A then kd n else k_entry addrs st n)"
    "\<forall>n<2 ^ 18. u_entry addrs s n = (if n \<in> A then ud n else u_entry addrs st n)"
    using assms(1) unfolding writes_def by blast
  obtain t where t: "f s = Inr t" "tables_wf addrs t" "same_roots s t"
    "\<forall>n<2 ^ 18. k_entry addrs t n = (if n \<in> B then kd n else k_entry addrs s n)"
    "\<forall>n<2 ^ 18. u_entry addrs t n = (if n \<in> B then ud n else u_entry addrs s n)"
    using assms(2) [OF s(2,3)] unfolding writes_def by blast
  show ?thesis
    unfolding writes_def using s t same_roots_trans [OF s(3) t(3)] by (intro exI [of _ t]) auto
qed

abbreviation device_desc :: "nat \<Rightarrow> u64" where
  "device_desc n \<equiv> block_desc (of_nat n * BLOCK_SIZE) ATTR_DEVICE AP_EL1_RW SH_NONE True"

abbreviation kernel_desc :: "nat \<Rightarrow> u64" where
  "kernel_desc n \<equiv> block_desc (of_nat n * BLOCK_SIZE) ATTR_NORMAL AP_EL1_RW SH_INNER False"

abbreviation user_desc :: "nat \<Rightarrow> u64" where
  "user_desc n \<equiv> block_desc (of_nat n * BLOCK_SIZE) ATTR_NORMAL AP_EL0_RW SH_INNER False"

lemma map_regions_writes:
  assumes "addrs_ok addrs" and "tables_wf addrs st"
    and "\<forall>r\<in>set rs. region_size b r \<noteq> 0 \<longrightarrow> unat (pr_start r) + unat (region_size b r) \<le> 2 ^ 39"
  shows "writes addrs (\<Union>r\<in>set rs. region_blocks b r) kernel_desc user_desc st (map_regions b addrs rs st)"
  using assms(2,3)
proof (induction rs arbitrary: st)
  case Nil
  then show ?case by (simp add: writes_none)
next
  case (Cons r rs)
  have "writes addrs (region_blocks b r) kernel_desc user_desc st (map_region b addrs r st)"
    using map_region_writes [OF assms(1) Cons.prems(1), of b r] Cons.prems(2) by (simp add: region_blocks_def)
  from writes_and_then [OF this, of "\<Union>r\<in>set rs. region_blocks b r"] Cons show ?case by simp
qed

lemma device_window_writes:
  assumes "addrs_ok addrs" and "tables_wf addrs st" and "unat base + unat sz \<le> 2 ^ 39" and "sz \<noteq> 0"
  shows "writes addrs (blocks base sz) device_desc device_desc st (map_window addrs base sz ATTR_DEVICE SH_NONE st)"
  using map_window_writes [OF assms] .

lemma rpi5_mmio_writes:
  assumes ok: "addrs_ok addrs" and wf: "tables_wf addrs st" and extra: "unat (EXTRA_MMIO_BASE st) + unat (EXTRA_MMIO_SIZE st) \<le> 2 ^ 39"
  shows "writes addrs (window_blocks (board_windows Rpi5 @ extra_windows st)) device_desc device_desc st (map_mmio Rpi5 addrs st)"
proof -
  have win: "writes addrs (blocks base sz) device_desc device_desc s (map_window addrs base sz ATTR_DEVICE SH_NONE s)"
    if "(base, sz) \<in> set (board_windows Rpi5)" "tables_wf addrs s" for base sz s
    using device_window_writes [OF ok that(2)] window_bounds [OF that(1)] by blast
  have board: "writes addrs (blocks SOC_BASE SOC_MMIO_SIZE \<union> blocks RP1_BASE RP1_SIZE) device_desc device_desc st
      (and_then (map_window addrs SOC_BASE SOC_MMIO_SIZE ATTR_DEVICE SH_NONE st) (\<lambda>st. map_window addrs RP1_BASE RP1_SIZE ATTR_DEVICE SH_NONE st))"
    by (rule writes_and_then) (use win wf in simp_all)
  have last: "writes addrs (window_blocks (extra_windows st)) device_desc device_desc s
      (if EXTRA_MMIO_SIZE s \<noteq> 0 then map_window addrs (EXTRA_MMIO_BASE s) (EXTRA_MMIO_SIZE s) ATTR_DEVICE SH_NONE s else Inr s)"
    if "tables_wf addrs s" "same_roots st s" for s
    using device_window_writes [OF ok that(1)] writes_none [OF that(1)] that(2) extra
    by (simp add: extra_windows_def window_blocks_def same_roots_def)
  have "window_blocks (board_windows Rpi5 @ extra_windows st) =
      blocks SOC_BASE SOC_MMIO_SIZE \<union> blocks RP1_BASE RP1_SIZE \<union> window_blocks (extra_windows st)"
    by (auto simp: window_blocks_def)
  with writes_and_then [OF board last] show ?thesis by (simp add: map_mmio_def)
qed

definition device_blocks :: "paging_state \<Rightarrow> nat set" where
  "device_blocks st = window_blocks (board_windows Rpi5 @ extra_windows st)"

definition ram_blocks :: "normalized_map \<Rightarrow> nat set" where
  "ram_blocks nmap = (\<Union>r\<in>set (nm_live nmap). region_blocks Rpi5 r)"

text \<open>Every block of the Raspberry Pi's tables after \<open>paging_init\<close>: the windows win over the regions.\<close>

lemma rpi5_entries:
  assumes ok: "addrs_ok addrs" and fits: "below_512G nmap st"
  shows "\<exists>ps. paging_init Rpi5 addrs nmap (st, regs) =
      Inr (ps, enable_mmu (virt_to_phys (U_L0_addr addrs)) (virt_to_phys (K_L0_addr addrs)) regs) \<and>
    (\<forall>n<2 ^ 18. n \<in> device_blocks st \<longrightarrow> k_entry addrs ps n = device_desc n \<and> u_entry addrs ps n = device_desc n) \<and>
    (\<forall>n<2 ^ 18. n \<notin> device_blocks st \<and> n \<in> ram_blocks nmap \<longrightarrow>
       k_entry addrs ps n = kernel_desc n \<and> u_entry addrs ps n = user_desc n)"
proof -
  let ?s0 = "reset_tables addrs st" and ?R = "ram_blocks nmap"
  have wf: "tables_wf addrs ?s0" using reset_direct [of addrs st] by (simp add: direct_def)
  have "\<forall>r\<in>set (nm_live nmap). region_size Rpi5 r \<noteq> 0 \<longrightarrow> unat (pr_start r) + unat (region_size Rpi5 r) \<le> 2 ^ 39"
    using fits region_size_fits by (simp add: below_512G_def)
  from map_regions_writes [OF ok wf this, folded ram_blocks_def] obtain s where s: "map_regions Rpi5 addrs (nm_live nmap) ?s0 = Inr s" "tables_wf addrs s"
    "same_roots ?s0 s" "\<forall>n<2 ^ 18. n \<in> ?R \<longrightarrow> k_entry addrs s n = kernel_desc n \<and> u_entry addrs s n = user_desc n"
    unfolding writes_def by auto
  have ex: "EXTRA_MMIO_BASE s = EXTRA_MMIO_BASE st" "EXTRA_MMIO_SIZE s = EXTRA_MMIO_SIZE st"
    using s(3) by (simp_all add: same_roots_def reset_tables_def)
  then have "window_blocks (board_windows Rpi5 @ extra_windows s) = device_blocks st" by (simp add: extra_windows_def device_blocks_def)
  with rpi5_mmio_writes [OF ok s(2)] ex fits obtain t where t: "map_mmio Rpi5 addrs s = Inr t"
    "\<forall>n<2 ^ 18. k_entry addrs t n = (if n \<in> device_blocks st then device_desc n else k_entry addrs s n)"
    "\<forall>n<2 ^ 18. u_entry addrs t n = (if n \<in> device_blocks st then device_desc n else u_entry addrs s n)"
    by (auto simp: writes_def below_512G_def)
  let ?ps = "t\<lparr>KERNEL_ROOT_PA := virt_to_phys (K_L0_addr addrs), USER_ROOT_PA := virt_to_phys (U_L0_addr addrs)\<rparr>"
  have "k_entry addrs ?ps = k_entry addrs t" "u_entry addrs ?ps = u_entry addrs t" by (simp_all add: k_entry_def u_entry_def fun_eq_iff)
  with s(4) t show ?thesis using s(1) by (intro exI [of _ ?ps]) (simp add: paging_init_def Let_def)
qed

section \<open>Property\<close>

definition device_range :: "paging_state \<Rightarrow> u64 \<Rightarrow> bool" where
  "device_range st pa \<longleftrightarrow> (\<exists>w\<in>set (board_windows Rpi5 @ extra_windows st). in_range pa (fst w) (snd w))"

definition ram_range :: "normalized_map \<Rightarrow> u64 \<Rightarrow> bool" where
  "ram_range nmap pa \<longleftrightarrow> (\<exists>r\<in>set (nm_live nmap). in_range pa (pr_start r) (region_size Rpi5 r))"

lemma device_range_block:
  "device_range st pa \<Longrightarrow> block_no pa \<in> device_blocks st"
  using in_range_block by (fastforce simp: device_range_def device_blocks_def window_blocks_def)

lemma ram_range_block: "ram_range nmap pa \<Longrightarrow> block_no pa \<in> ram_blocks nmap"
proof -
  assume "ram_range nmap pa"
  then obtain r where r: "r \<in> set (nm_live nmap)" "in_range pa (pr_start r) (region_size Rpi5 r)" by (auto simp: ram_range_def)
  then have "region_size Rpi5 r \<noteq> 0" by (auto simp: in_range_def)
  with r in_range_block [OF r(2)] show ?thesis by (auto simp: ram_blocks_def region_blocks_def)
qed

lemma block_no_range:
  assumes "device_range st pa \<or> ram_range nmap pa" and "below_512G nmap st"
  shows "block_no pa < 2 ^ 18"
proof -
  have "to_map Rpi5 nmap st pa" using assms(1) by (auto simp: to_map_def device_range_def ram_range_def)
  with to_map_block [OF this assms(2)] show ?thesis by (simp add: block_no_def less_mult_imp_div_less)
qed

text \<open>
  C9. On the Raspberry Pi the memory types are right. \<open>paging::init\<close> turns the MMU on with 48-bit addresses and
  4 KiB granules in both halves, as the table walk expects; afterwards every byte of a device window is
  Device-nGnRnE, closed to EL0 and never executable in both address spaces, even where a region of the map covers it;
  and every other byte of a mapped region is normal cacheable memory, writable and executable by the kernel, and
  by EL0 through the user tables.
\<close>

theorem rpi5_memory_types:
  assumes "addrs_ok addrs" and "below_512G nmap st"
  shows "\<exists>ps regs'. paging_init Rpi5 addrs nmap (st, regs) = Inr (ps, regs') \<and> four_level_4k regs' \<and>
    ttbr0_el1 regs' = USER_ROOT_PA ps \<and> ttbr1_el1 regs' = KERNEL_ROOT_PA ps \<and>
    (\<forall>pa. device_range st pa \<longrightarrow>
       device_block regs' (u_entry addrs ps (block_no pa)) \<and> device_block regs' (k_entry addrs ps (block_no pa))) \<and>
    (\<forall>pa. ram_range nmap pa \<and> block_no pa \<notin> device_blocks st \<longrightarrow>
       normal_block regs' True (u_entry addrs ps (block_no pa)) \<and> normal_block regs' False (k_entry addrs ps (block_no pa)))"
proof -
  from rpi5_entries [OF assms, of regs] obtain ps where
    ps: "paging_init Rpi5 addrs nmap (st, regs) = Inr (ps, enable_mmu (virt_to_phys (U_L0_addr addrs)) (virt_to_phys (K_L0_addr addrs)) regs)"
    and win: "\<And>n. n < 2 ^ 18 \<Longrightarrow> n \<in> device_blocks st \<Longrightarrow>
      k_entry addrs ps n = device_desc n \<and> u_entry addrs ps n = device_desc n"
    and reg: "\<And>n. n < 2 ^ 18 \<Longrightarrow> n \<notin> device_blocks st \<Longrightarrow>
      n \<in> ram_blocks nmap \<Longrightarrow> k_entry addrs ps n = kernel_desc n \<and> u_entry addrs ps n = user_desc n"
    by blast
  have roots: "USER_ROOT_PA ps = virt_to_phys (U_L0_addr addrs)" "KERNEL_ROOT_PA ps = virt_to_phys (K_L0_addr addrs)"
    using ps by (auto simp: paging_init_def Let_def and_then_eq_Inr)
  let ?regs = "enable_mmu (virt_to_phys (U_L0_addr addrs)) (virt_to_phys (K_L0_addr addrs)) regs"
  have "ttbr0_el1 ?regs = USER_ROOT_PA ps \<and> ttbr1_el1 ?regs = KERNEL_ROOT_PA ps" by (simp add: enable_mmu_def Let_def roots)
  moreover have "device_block ?regs (u_entry addrs ps (block_no pa)) \<and> device_block ?regs (k_entry addrs ps (block_no pa))"
    if "device_range st pa" for pa
    using win [OF block_no_range [OF disjI1 [OF that] assms(2)] device_range_block [OF that]] device_block_desc by simp
  moreover have "normal_block ?regs True (u_entry addrs ps (block_no pa)) \<and> normal_block ?regs False (k_entry addrs ps (block_no pa))"
    if "ram_range nmap pa" "block_no pa \<notin> device_blocks st" for pa
    using reg [OF block_no_range [OF disjI2 [OF that(1)] assms(2)] that(2) ram_range_block [OF that(1)]] normal_block_desc by simp
  ultimately show ?thesis using ps enable_mmu_regime by blast
qed

theorem rpi5_memory_types_witness:
  "\<forall>regs. \<exists>ps regs'. paging_init Rpi5 demo_addrs demo_normalized (boot_tables, regs) = Inr (ps, regs') \<and>
     device_block regs' (k_entry demo_addrs ps (block_no GICC_BASE)) \<and> normal_block regs' True (u_entry demo_addrs ps (block_no 0x100000))"
proof
  fix regs
  have dev: "device_range boot_tables GICC_BASE"
    by (simp add: device_range_def in_range_def GICC_BASE_def SOC_BASE_def SOC_MMIO_SIZE_def)
  have ram: "ram_range demo_normalized 0x100000"
    by (simp add: ram_range_def demo_normalized_live in_range_def region_size_def unat_saturating_sub saturating_add_def u64_max_def)
  have "block_no 0x100000 \<notin> device_blocks boot_tables"
    by (simp add: device_blocks_def window_blocks_def extra_windows_def boot_tables_def Let_def blocks_def block_no_def SOC_BASE_def SOC_MMIO_SIZE_def RP1_BASE_def RP1_SIZE_def)
  with rpi5_memory_types [OF demo_addrs_ok demo_below, of regs] dev ram
  show "\<exists>ps regs'. paging_init Rpi5 demo_addrs demo_normalized (boot_tables, regs) = Inr (ps, regs') \<and>
     device_block regs' (k_entry demo_addrs ps (block_no GICC_BASE)) \<and> normal_block regs' True (u_entry demo_addrs ps (block_no 0x100000))"
    by blast
qed

end
