(* ===== verification/Fbinit.thy ===== *)
theory Fbinit
  imports Console Dtbfind Uart
begin

text \<open>
  Bringing up the framebuffer: the mailbox of \<open>src/drivers/mailbox.rs\<close>, the two constructors and the
  console set-up of \<open>src/drivers/framebuffer.rs\<close>, and \<open>try_init_console\<close> of \<open>src/main.rs\<close>. The VideoCore side
  of the mailbox is a parameter: its registers are a \<open>device\<close>, and the property buffer, which the firmware
  rewrites in place, is read and filled through the functions of the record \<open>gpu\<close>. Serial diagnostics are
  left out.
\<close>

section \<open>The mailbox\<close>

definition MBOX_READ :: usize where "MBOX_READ = 0x00"
definition MBOX_STATUS :: usize where "MBOX_STATUS = 0x18"
definition MBOX_WRITE :: usize where "MBOX_WRITE = 0x20"
definition MBOX_STATUS_FULL :: u32 where "MBOX_STATUS_FULL = push_bit 31 1"
definition MBOX_STATUS_EMPTY :: u32 where "MBOX_STATUS_EMPTY = push_bit 30 1"
definition MBOX_CH_PROPERTY :: u32 where "MBOX_CH_PROPERTY = 8"
definition MBOX_RESPONSE_OK :: u32 where "MBOX_RESPONSE_OK = 0x80000000"
definition SPIN_LIMIT :: nat where "SPIN_LIMIT = 1000000"

record 'd gpu =
  gp_dev :: "'d device"
  gp_word :: "'d \<Rightarrow> nat \<Rightarrow> u32"
  gp_fill :: "u32 list \<Rightarrow> 'd \<Rightarrow> 'd"

definition vc_to_arm :: "board \<Rightarrow> u32 \<Rightarrow> usize" where
  "vc_to_arm b addr = ucast (addr AND VC_MEM_MASK b)"

definition arm_to_vc :: "board \<Rightarrow> usize \<Rightarrow> u32" where
  "arm_to_vc b addr = (ucast addr AND VC_MEM_MASK b) OR VC_MEM_BASE b"

text \<open>
  The two polling loops, on the status bit they wait for; \<open>None\<close> is \<open>return false\<close>. The counter \<open>spins\<close> is
  shared by all of them, so it is part of the result.
\<close>

function mbox_poll :: "board \<Rightarrow> 'd device \<Rightarrow> u32 \<Rightarrow> nat \<Rightarrow> 'd \<Rightarrow> nat option \<times> 'd" where
  "mbox_poll b dev flag spins d =
     (case read32 dev (MBOX_BASE b + MBOX_STATUS) d of (st, d') \<Rightarrow>
        if st AND flag \<noteq> 0
        then if spins + 1 \<ge> SPIN_LIMIT then (None, d') else mbox_poll b dev flag (spins + 1) d'
        else (Some spins, d'))"
  by pat_completeness auto
termination
  by (relation "measure (\<lambda>(b, dev, flag, spins, d). SPIN_LIMIT - spins)") auto

declare mbox_poll.simps [simp del]

function mbox_receive :: "board \<Rightarrow> 'd gpu \<Rightarrow> u32 \<Rightarrow> nat \<Rightarrow> nat \<Rightarrow> 'd \<Rightarrow> bool \<times> 'd" where
  "mbox_receive b g bus_addr spins loops d =
     (case mbox_poll b (gp_dev g) MBOX_STATUS_EMPTY spins d of
        (None, d1) \<Rightarrow> (False, d1)
      | (Some spins', d1) \<Rightarrow>
          (case read32 (gp_dev g) (MBOX_BASE b + MBOX_READ) d1 of (resp, d2) \<Rightarrow>
             if resp AND 0xF = MBOX_CH_PROPERTY \<and> resp AND NOT 0xF = bus_addr AND NOT 0xF
             then (gp_word g d2 1 = MBOX_RESPONSE_OK, d2)
             else if loops + 1 \<ge> SPIN_LIMIT then (False, d2)
             else mbox_receive b g bus_addr spins' (loops + 1) d2))"
  by pat_completeness auto
termination
  by (relation "measure (\<lambda>(b, g, bus_addr, spins, loops, d). SPIN_LIMIT - loops)") auto

declare mbox_receive.simps [simp del]

definition mbox_call :: "board \<Rightarrow> 'd gpu \<Rightarrow> usize \<Rightarrow> 'd \<Rightarrow> bool \<times> 'd" where
  "mbox_call b g buffer d =
     (if buffer AND 0xF \<noteq> 0 then (False, d)
      else
        let bus_addr = arm_to_vc b buffer OR MBOX_CH_PROPERTY in
        case mbox_poll b (gp_dev g) MBOX_STATUS_FULL 0 d of
          (None, d1) \<Rightarrow> (False, d1)
        | (Some spins, d1) \<Rightarrow> mbox_receive b g bus_addr spins 0 (write32 (gp_dev g) (MBOX_BASE b + MBOX_WRITE) bus_addr d1))"

section \<open>Framebuffers\<close>

datatype init_error = MailboxCallFailed | NoFramebuffer | NoPitch | InvalidSimpleFb

definition TAG_SET_PHYS_WH :: u32 where "TAG_SET_PHYS_WH = 0x00048003"
definition TAG_SET_VIRT_WH :: u32 where "TAG_SET_VIRT_WH = 0x00048004"
definition TAG_SET_VIRT_OFFSET :: u32 where "TAG_SET_VIRT_OFFSET = 0x00048009"
definition TAG_SET_DEPTH :: u32 where "TAG_SET_DEPTH = 0x00048005"
definition TAG_SET_PIXEL_ORDER :: u32 where "TAG_SET_PIXEL_ORDER = 0x00048006"
definition TAG_ALLOCATE_BUFFER :: u32 where "TAG_ALLOCATE_BUFFER = 0x00040001"
definition TAG_GET_PITCH :: u32 where "TAG_GET_PITCH = 0x00040008"
definition REQUEST :: u32 where "REQUEST = 0x00000000"

definition mbox_request :: "u32 \<Rightarrow> u32 \<Rightarrow> u32 list" where
  "mbox_request width height =
     [35 * 4, REQUEST,
      TAG_SET_PHYS_WH, 8, 8, width, height,
      TAG_SET_VIRT_WH, 8, 8, width, height,
      TAG_SET_VIRT_OFFSET, 8, 8, 0, 0,
      TAG_SET_DEPTH, 4, 4, 32,
      TAG_SET_PIXEL_ORDER, 4, 4, 1,
      TAG_ALLOCATE_BUFFER, 8, 8, 4096, 0,
      TAG_GET_PITCH, 4, 4, 0,
      0]"

text \<open>\<open>mbox\<close> is the address of the static property buffer.\<close>

definition init_with_mode :: "board \<Rightarrow> 'd gpu \<Rightarrow> usize \<Rightarrow> u32 \<Rightarrow> u32 \<Rightarrow> 'd \<Rightarrow> (init_error + framebuffer) \<times> 'd" where
  "init_with_mode b g mbox width height d =
     (case mbox_call b g mbox (gp_fill g (mbox_request width height) d) of (ok, d1) \<Rightarrow>
        if \<not> ok then (Inl MailboxCallFailed, d1)
        else
          let buf = gp_word g d1; fb_bus = buf 28; pitch = buf 33 in
          if fb_bus = 0 then (Inl NoFramebuffer, d1)
          else if pitch = 0 then (Inl NoPitch, d1)
          else (Inr \<lparr>fb_ptr = phys_to_virt (vc_to_arm b fb_bus),
                     fb_width = (if buf 10 \<noteq> 0 then buf 10 else width),
                     fb_height = (if buf 11 \<noteq> 0 then buf 11 else height),
                     fb_pitch = pitch\<rparr>, d1))"

definition init_from_simplefb :: "simple_fb_info \<Rightarrow> init_error + framebuffer" where
  "init_from_simplefb info =
     (if sfb_addr info = 0 \<or> sfb_width info = 0 \<or> sfb_height info = 0 \<or> sfb_stride info = 0 then Inl InvalidSimpleFb
      else Inr \<lparr>fb_ptr = phys_to_virt (sfb_addr info), fb_width = sfb_width info, fb_height = sfb_height info,
                fb_pitch = sfb_stride info\<rparr>)"

record 'd display =
  dp_console :: "console option"
  dp_mem :: memory
  dp_gpu :: 'd

definition install_console :: "framebuffer \<Rightarrow> u32 \<Rightarrow> u32 \<Rightarrow> 'd display \<Rightarrow> 'd display \<times> u32 \<times> u32" where
  "install_console fb fg bg s =
     (s\<lparr>dp_mem := clear_fb fb bg (dp_mem s), dp_console := Some (console_new fb fg bg)\<rparr>, fb_width fb, fb_height fb)"

definition init_console_with_mode ::
  "board \<Rightarrow> 'd gpu \<Rightarrow> usize \<Rightarrow> u32 \<Rightarrow> u32 \<Rightarrow> u32 \<Rightarrow> u32 \<Rightarrow> 'd display \<Rightarrow> 'd display \<times> (init_error + u32 \<times> u32)" where
  "init_console_with_mode b g mbox width height fg bg s =
     (case init_with_mode b g mbox width height (dp_gpu s) of
        (Inl e, d) \<Rightarrow> (s\<lparr>dp_gpu := d\<rparr>, Inl e)
      | (Inr fb, d) \<Rightarrow> (case install_console fb fg bg (s\<lparr>dp_gpu := d\<rparr>) of (s', wh) \<Rightarrow> (s', Inr wh)))"

definition init_console_from_simplefb ::
  "simple_fb_info \<Rightarrow> u32 \<Rightarrow> u32 \<Rightarrow> 'd display \<Rightarrow> 'd display \<times> (init_error + u32 \<times> u32)" where
  "init_console_from_simplefb info fg bg s =
     (case init_from_simplefb info of
        Inl e \<Rightarrow> (s, Inl e)
      | Inr fb \<Rightarrow> (case install_console fb fg bg s of (s', wh) \<Rightarrow> (s', Inr wh)))"

fun try_modes :: "board \<Rightarrow> 'd gpu \<Rightarrow> usize \<Rightarrow> (u32 \<times> u32) list \<Rightarrow> 'd display \<Rightarrow> 'd display \<times> bool" where
  "try_modes b g mbox [] s = (s, False)"
| "try_modes b g mbox ((w, h) # modes) s =
     (case init_console_with_mode b g mbox w h 0x00FFFFFF 0x00000000 s of
        (s', Inr wh) \<Rightarrow> (s', True)
      | (s', Inl e) \<Rightarrow> try_modes b g mbox modes s')"

definition try_init_console :: "board \<Rightarrow> 'd gpu \<Rightarrow> usize \<Rightarrow> u64 \<Rightarrow> 'd display \<Rightarrow> ('d display \<times> bool) res" where
  "try_init_console b g mbox dtb_pa s =
     and_then (find_simplefb (dp_mem s) dtb_pa) (\<lambda>r.
       let rest = (\<lambda>s. Inr (try_modes b g mbox [(1280, 1024), (1024, 768), (1920, 1080)] s)) in
       case r of
         Some info \<Rightarrow>
           (case init_console_from_simplefb info 0x00FFFFFF 0x00000000 s of
              (s', Inr wh) \<Rightarrow> Inr (s', True)
            | (s', Inl e) \<Rightarrow> rest s')
       | None \<Rightarrow> rest s)"

section \<open>Lemmas\<close>

lemma simplefb_event_ret:
  "simplefb_event ev s = Inr (Ret info) \<Longrightarrow>
    sfb_addr info \<noteq> 0 \<and> sfb_width info \<noteq> 0 \<and> sfb_height info \<noteq> 0 \<and> sfb_stride info \<noteq> 0"
  by (cases ev) (auto simp: simplefb_done_def res_simps Let_def split: if_splits option.splits)

lemma find_simplefb_complete:
  assumes "find_simplefb mem pa = Inr (Some info)"
  shows "sfb_addr info \<noteq> 0 \<and> sfb_width info \<noteq> 0 \<and> sfb_height info \<noteq> 0 \<and> sfb_stride info \<noteq> 0"
proof -
  from assms have "fdt_scan simplefb_event \<lparr>ss_stack = replicate DTB_DEPTH root_context,
      ss_fb_stack = replicate DTB_DEPTH no_simplefb, ss_depth = 0\<rparr> mem pa = Inr (Some info)"
    by (simp add: find_simplefb_def split: if_splits)
  then show ?thesis by (rule fdt_scan_ret) (rule simplefb_event_ret)
qed

lemma mbox_receive_ok: "mbox_receive b g bus spins loops d = (True, d') \<Longrightarrow> gp_word g d' 1 = MBOX_RESPONSE_OK"
proof (induction b g bus spins loops d rule: mbox_receive.induct)
  case (1 b g bus spins loops d)
  obtain r d1 where p: "mbox_poll b (gp_dev g) MBOX_STATUS_EMPTY spins d = (r, d1)" by (metis surj_pair)
  obtain resp d2 where rd: "read32 (gp_dev g) (MBOX_BASE b + MBOX_READ) d1 = (resp, d2)" by (metis surj_pair)
  from "1.prems" p obtain spins' where r: "r = Some spins'" by (subst (asm) mbox_receive.simps) (cases r; simp)
  show ?case
  proof (cases "resp AND 0xF = MBOX_CH_PROPERTY \<and> resp AND NOT 0xF = bus AND NOT 0xF")
    case True
    then show ?thesis using "1.prems" p r rd by (subst (asm) mbox_receive.simps) auto
  next
    case False
    moreover from this "1.prems" p r rd have "\<not> loops + 1 \<ge> SPIN_LIMIT" "mbox_receive b g bus spins' (loops + 1) d2 = (True, d')"
      by (subst (asm) mbox_receive.simps, auto split: if_splits)+
    ultimately show ?thesis using "1.IH" [of r d1 spins' resp d2] p r rd by simp
  qed
qed

lemma mbox_call_ok: "mbox_call b g buffer d = (True, d') \<Longrightarrow> buffer AND 0xF = 0 \<and> gp_word g d' 1 = MBOX_RESPONSE_OK"
  by (auto simp: mbox_call_def Let_def split: if_splits prod.splits option.splits dest: mbox_receive_ok)

text \<open>A firmware that answers every request with a framebuffer at bus address \<open>0xC0000000\<close>.\<close>

definition demo_gpu :: "u32 list gpu" where
  "demo_gpu = \<lparr>gp_dev = \<lparr>dev_read = (\<lambda>a d. if a = MBOX_BASE Qemu + MBOX_READ then (arm_to_vc Qemu 0x80000 OR MBOX_CH_PROPERTY, d) else (0, d)),
     dev_write = (\<lambda>a v d. d[1 := MBOX_RESPONSE_OK, 28 := 0xC0000000, 33 := 5120])\<rparr>,
     gp_word = (\<lambda>d i. d ! i), gp_fill = (\<lambda>ws d. ws)\<rparr>"

section \<open>Properties\<close>

text \<open>
  A framebuffer found in the device tree is always used: what \<open>find_simplefb\<close> returns is complete, so
  \<open>init_from_simplefb\<close> accepts it, \<open>try_init_console\<close> clears it and installs a console on it, and the mailbox is
  not touched.
\<close>

theorem simplefb_always_accepted:
  assumes "find_simplefb (dp_mem s) pa = Inr (Some info)"
  shows "\<exists>fb. init_from_simplefb info = Inr fb \<and> fb_ptr fb = phys_to_virt (sfb_addr info) \<and>
    fb_width fb = sfb_width info \<and> fb_height fb = sfb_height info \<and> fb_pitch fb = sfb_stride info \<and>
    try_init_console b g mbox pa s =
      Inr (s\<lparr>dp_mem := clear_fb fb 0 (dp_mem s), dp_console := Some (console_new fb 0x00FFFFFF 0)\<rparr>, True)"
  using find_simplefb_complete [OF assms] assms
  by (simp add: init_from_simplefb_def try_init_console_def init_console_from_simplefb_def install_console_def)

text \<open>A simple framebuffer as firmware describes it.\<close>

definition fb_events :: "fdt_event list" where
  "fb_events = [Begin_Node [], Begin_Node (bytes_of ''framebuffer@3e000000''),
     Prop (bytes_of ''compatible'') (bytes_of ''simple-framebuffer'' @ [0]), Prop (bytes_of ''reg'') (enc_cells 2 0x3e000000 @ enc_cells 2 0x80),
     Prop (bytes_of ''width'') (be32 4), Prop (bytes_of ''height'') (be32 8), Prop (bytes_of ''stride'') (be32 16),
     Prop (bytes_of ''format'') (bytes_of ''x8r8g8b8'' @ [0]), End_Node, End_Node]"

definition fb_mem :: memory where
  "fb_mem = place 0x1000 (fdt_blob demo_nameoff demo_strings fb_events)"

lemma fb_events_ok: "list_all (event_ok demo_nameoff demo_strings) fb_events"
  by (simp add: fb_events_def demo_name demo_names_def enc_cells_def) (simp add: bytes_of_def)

lemma fb_blob_length: "length (fdt_blob demo_nameoff demo_strings fb_events) \<le> 1000"
  by code_simp

definition fb_info :: simple_fb_info where
  "fb_info = \<lparr>sfb_addr = 0x3e000000, sfb_size = 0x80, sfb_width = 4, sfb_height = 8, sfb_stride = 16, sfb_format = X8R8G8B8\<rparr>"

lemma fb_run: "run_events simplefb_event fb_events \<lparr>ss_stack = replicate DTB_DEPTH root_context,
    ss_fb_stack = replicate DTB_DEPTH no_simplefb, ss_depth = 0\<rparr> = Inr (Ret fb_info)"
  by code_simp

theorem simplefb_always_accepted_witness:
  "\<exists>(s :: u32 list display) s' fb. find_simplefb (dp_mem s) 0x1000 = Inr (Some fb_info) \<and>
    try_init_console Qemu demo_gpu 0x80000 0x1000 s = Inr (s', True) \<and> dp_console s' = Some (console_new fb 0x00FFFFFF 0) \<and> fb_width fb = 4"
proof -
  let ?s = "\<lparr>dp_console = None, dp_mem = fb_mem, dp_gpu = []\<rparr>"
  have f: "find_simplefb (dp_mem ?s) 0x1000 = Inr (Some fb_info)"
    using fb_blob_length fb_events_ok
    by (simp add: fb_mem_def find_simplefb_def fdt_scan_events [OF in_memory_place] fb_run flow_ret_def)
  from simplefb_always_accepted [OF this, of Qemu demo_gpu "0x80000"] f show ?thesis by (force simp: fb_info_def)
qed



end
