(* ===== verification/Timer.thy ===== *)
theory Timer
  imports Board
begin

text \<open>
  \<open>src/arch/aarch64/timer.rs\<close>. The generic timer is a parameter: the frequency register and a counter that
  may move between any two reads. The per-CPU timer registers and the static tick length are the record
  \<open>timer_regs\<close>.
\<close>

section \<open>Definitions\<close>

record 'd clock =
  cntfrq_el0 :: u64
  cntpct_el0 :: "'d \<Rightarrow> u64 \<times> 'd"

record timer_regs =
  TICK_TICKS :: u64
  cntp_tval :: u64
  cntp_ctl :: u64

definition set_timer :: "u64 \<Rightarrow> timer_regs \<Rightarrow> timer_regs" where
  "set_timer ticks t = t\<lparr>cntp_tval := ticks, cntp_ctl := 1\<rparr>"

definition init_tick :: "'d clock \<Rightarrow> u64 \<Rightarrow> timer_regs \<Rightarrow> timer_regs" where
  "init_tick clk ms t =
     (let ticks = (cntfrq_el0 clk * ms) div 1000;
          t = t\<lparr>TICK_TICKS := max ticks 1\<rparr>
      in set_timer (TICK_TICKS t) t)"

definition timer_tick :: "timer_regs \<Rightarrow> timer_regs" where
  "timer_tick t = (if TICK_TICKS t \<noteq> 0 then set_timer (TICK_TICKS t) t else t)"

partial_function (option) delay_loop :: "'d clock \<Rightarrow> u64 \<Rightarrow> u64 \<Rightarrow> 'd \<Rightarrow> 'd option" where
  "delay_loop clk start ticks d =
     (case cntpct_el0 clk d of (now, d') \<Rightarrow> if now - start < ticks then delay_loop clk start ticks d' else Some d')"

definition delay_ms :: "'d clock \<Rightarrow> u64 \<Rightarrow> 'd \<Rightarrow> 'd option" where
  "delay_ms clk ms d =
     (let ticks = (cntfrq_el0 clk * ms) div 1000 in
      case cntpct_el0 clk d of (start, d') \<Rightarrow> delay_loop clk start ticks d')"

section \<open>Properties\<close>

text \<open>
  A counter that runs: the value read is the time \<open>now\<close> modulo \<open>2 ^ 64\<close>, and between two reads the time
  moves on by at least one and at most \<open>gap\<close> ticks.
\<close>

definition running_clock :: "'d clock \<Rightarrow> ('d \<Rightarrow> nat) \<Rightarrow> nat \<Rightarrow> bool" where
  "running_clock clk now gap \<longleftrightarrow>
     (\<forall>d. \<exists>d'. cntpct_el0 clk d = (of_nat (now d), d') \<and> now d < now d' \<and> now d' \<le> now d + gap)"

lemma running_clockD:
  assumes "running_clock clk now gap"
  obtains d' where "cntpct_el0 clk d = (of_nat (now d), d')" "now d < now d'" "now d' \<le> now d + gap"
  using assms unfolding running_clock_def by blast

lemma elapsed:
  assumes "t0 \<le> t" and "t - t0 < 2 ^ 64"
  shows "unat (of_nat t - of_nat t0 :: u64) = t - t0"
proof -
  have "(of_nat t - of_nat t0 :: u64) = of_nat (t - t0)" using assms(1) by (rule of_nat_diff [symmetric])
  moreover have "unat (of_nat (t - t0) :: u64) = t - t0" using assms(2) by (simp only: unat_of_nat) simp
  ultimately show ?thesis by (simp only:)
qed

lemma delay_loop_returns:
  assumes clk: "running_clock clk now gap" and fits: "unat ticks + gap < 2 ^ 64"
    and "t0 \<le> now d" and "now d - t0 < unat ticks + gap"
  shows "\<exists>d'. delay_loop clk (of_nat t0) ticks d = Some d' \<and> t0 + unat ticks \<le> now d'"
  using assms(3,4)
proof (induction "unat ticks + gap - (now d - t0)" arbitrary: d rule: less_induct)
  case less
  obtain d1 where d1: "cntpct_el0 clk d = (of_nat (now d), d1)" "now d < now d1" "now d1 \<le> now d + gap"
    using clk by (rule running_clockD)
  have e: "unat (of_nat (now d) - of_nat t0 :: u64) = now d - t0" using less.prems fits by (intro elapsed) linarith+
  show ?case
  proof (cases "(of_nat (now d) - of_nat t0 :: u64) < ticks")
    case True
    then have "now d - t0 < unat ticks" using e by (simp add: word_less_nat_alt)
    then have "now d1 - t0 < unat ticks + gap" using d1 less.prems by linarith
    moreover have "unat ticks + gap - (now d1 - t0) < unat ticks + gap - (now d - t0)" using d1 less.prems by linarith
    ultimately have "\<exists>d'. delay_loop clk (of_nat t0) ticks d1 = Some d' \<and> t0 + unat ticks \<le> now d'"
      using d1 less.prems by (intro less.hyps) linarith+
    then show ?thesis using d1 True by (subst delay_loop.simps) simp
  next
    case False
    then have "unat ticks \<le> now d - t0" using e by (simp add: word_less_nat_alt)
    then show ?thesis using d1 False less.prems by (subst delay_loop.simps) auto
  qed
qed

text \<open>
  C24. \<open>delay_ms\<close> ends and does not end early: with a running counter, also when the counter wraps around in
  between, the busy-wait returns, and at least the requested number of timer ticks have passed by then.
\<close>

theorem delay_ms_waits:
  assumes "running_clock clk now gap" and "unat (cntfrq_el0 clk * ms div 1000) + gap < 2 ^ 64" and "0 < cntfrq_el0 clk * ms div 1000"
  shows "\<exists>d'. delay_ms clk ms d = Some d' \<and> now d + unat (cntfrq_el0 clk * ms div 1000) \<le> now d'"
proof -
  obtain d1 where d1: "cntpct_el0 clk d = (of_nat (now d), d1)" "now d < now d1" "now d1 \<le> now d + gap"
    using assms(1) by (rule running_clockD)
  have "0 < unat (cntfrq_el0 clk * ms div 1000)" using assms(3) by (simp add: word_less_nat_alt)
  then have "now d1 - now d < unat (cntfrq_el0 clk * ms div 1000) + gap" using d1 by linarith
  from delay_loop_returns [OF assms(1,2) _ this] d1 show ?thesis by (simp add: delay_ms_def Let_def)
qed

text \<open>A 54 MHz counter that advances by 10 with each read, started close to the end of its range.\<close>

definition demo_clock :: "nat clock" where
  "demo_clock = \<lparr>cntfrq_el0 = 54000000, cntpct_el0 = (\<lambda>t. (of_nat t, t + 10))\<rparr>"

lemma demo_clock_runs: "running_clock demo_clock (\<lambda>t. t) 10"
  by (simp add: running_clock_def demo_clock_def)

theorem delay_ms_waits_witness: "\<exists>t'. delay_ms demo_clock 2 (2 ^ 64 - 5) = Some t' \<and> 2 ^ 64 - 5 + 108000 \<le> t'"
proof -
  have t: "cntfrq_el0 demo_clock * 2 div 1000 = 108000" by (simp add: demo_clock_def)
  from delay_ms_waits [OF demo_clock_runs, of 2 "2 ^ 64 - 5"] show ?thesis unfolding t by simp
qed

end
