(* ===== verification/Interrupts.thy ===== *)
theory Interrupts
  imports Scheduler Timer
begin

text \<open>
  The interrupt path: the GIC driver \<open>src/drivers/gic.rs\<close> (Raspberry Pi), the local interrupt controller
  \<open>src/drivers/local_intc.rs\<close> (QEMU) and \<open>irq_handler\<close> and \<open>init_per_cpu\<close> of \<open>src/kernel/interrupts.rs\<close>. The
  controllers are devices behind memory-mapped registers, like the serial port; the trace output that the
  constant \<open>LOG_IRQ\<close> disables and the serial message of \<open>init_per_cpu\<close> are left out. The CPU number is an
  argument, below \<open>MAX_CPUS\<close> because \<open>smp::cpu_id\<close> masks it.
\<close>

section \<open>The GIC\<close>

definition GICD_CTLR :: usize where "GICD_CTLR = 0x000"
definition GICD_IGROUPR0 :: usize where "GICD_IGROUPR0 = 0x080"
definition GICD_ISENABLER0 :: usize where "GICD_ISENABLER0 = 0x100"
definition GICD_ICENABLER0 :: usize where "GICD_ICENABLER0 = 0x180"
definition GICD_IPRIORITYR :: usize where "GICD_IPRIORITYR = 0x400"
definition GICC_CTLR :: usize where "GICC_CTLR = 0x000"
definition GICC_PMR :: usize where "GICC_PMR = 0x004"
definition GICC_BPR :: usize where "GICC_BPR = 0x008"
definition GICC_IAR :: usize where "GICC_IAR = 0x00C"
definition GICC_EOIR :: usize where "GICC_EOIR = 0x010"
definition SPURIOUS_IRQ :: u32 where "SPURIOUS_IRQ = 1023"
definition TIMER_PPI :: u32 where "TIMER_PPI = 30"

definition set_priority :: "'d device \<Rightarrow> u32 \<Rightarrow> u8 \<Rightarrow> 'd \<Rightarrow> 'd" where
  "set_priority dev irq prio d =
     (let reg = GICD_BASE + GICD_IPRIORITYR + ucast (irq AND NOT 3);
          shift = unat ((irq AND 3) * 8)
      in case read32 dev reg d of (v, d1) \<Rightarrow>
           let v = v AND NOT (push_bit shift 0xFF); v = v OR push_bit shift (ucast prio) in write32 dev reg v d1)"

definition enable_timer_ppi :: "'d device \<Rightarrow> 'd \<Rightarrow> 'd" where
  "enable_timer_ppi dev d = write32 dev (GICD_BASE + GICD_ISENABLER0) (push_bit (unat TIMER_PPI) 1) d"

definition init_dist :: "'d device \<Rightarrow> 'd \<Rightarrow> 'd" where
  "init_dist dev d =
     (let d = write32 dev (GICD_BASE + GICD_CTLR) 0 d;
          d = write32 dev (GICD_BASE + GICD_IGROUPR0) 0xFFFFFFFF d;
          d = write32 dev (GICD_BASE + GICD_ICENABLER0) 0xFFFFFFFF d;
          d = set_priority dev TIMER_PPI 0x80 d
      in write32 dev (GICD_BASE + GICD_CTLR) 0x3 d)"

definition init_cpu :: "'d device \<Rightarrow> 'd \<Rightarrow> 'd" where
  "init_cpu dev d =
     (let d = write32 dev (GICC_BASE + GICC_CTLR) 0 d;
          d = write32 dev (GICC_BASE + GICC_PMR) 0xFF d;
          d = write32 dev (GICC_BASE + GICC_BPR) 0 d;
          d = write32 dev (GICC_BASE + GICC_CTLR) 0x3 d;
          d = write32 dev (GICD_BASE + GICD_IGROUPR0) 0xFFFFFFFF d;
          d = set_priority dev TIMER_PPI 0x80 d
      in enable_timer_ppi dev d)"

definition ack_irq :: "'d device \<Rightarrow> 'd \<Rightarrow> u32 option \<times> 'd" where
  "ack_irq dev d =
     (case read32 dev (GICC_BASE + GICC_IAR) d of (iar, d1) \<Rightarrow>
        let irq = iar AND 0x3ff in (if irq = SPURIOUS_IRQ then None else Some irq, d1))"

definition end_irq :: "'d device \<Rightarrow> u32 \<Rightarrow> 'd \<Rightarrow> 'd" where
  "end_irq dev irq d = write32 dev (GICC_BASE + GICC_EOIR) irq d"

definition timer_irq_id :: u32 where
  "timer_irq_id = TIMER_PPI"

section \<open>The local interrupt controller\<close>

definition LOCAL_BASE :: usize where "LOCAL_BASE = 0x40000000"
definition TIMER_INT_CTRL_OFFSET :: usize where "TIMER_INT_CTRL_OFFSET = 0x40"
definition IRQ_SOURCE_OFFSET :: usize where "IRQ_SOURCE_OFFSET = 0x60"
definition CORE_STRIDE :: usize where "CORE_STRIDE = 0x4"
definition CNTP_IRQ_BIT :: u32 where "CNTP_IRQ_BIT = push_bit 1 1"

definition enable_generic_timer_irq :: "'d device \<Rightarrow> nat \<Rightarrow> 'd \<Rightarrow> 'd" where
  "enable_generic_timer_irq dev core d =
     write32 dev (LOCAL_BASE + TIMER_INT_CTRL_OFFSET + of_nat core * CORE_STRIDE) CNTP_IRQ_BIT d"

definition generic_timer_pending :: "'d device \<Rightarrow> nat \<Rightarrow> 'd \<Rightarrow> bool \<times> 'd" where
  "generic_timer_pending dev core d =
     (case read32 dev (LOCAL_BASE + IRQ_SOURCE_OFFSET + of_nat core * CORE_STRIDE) d of (v, d1) \<Rightarrow>
        (v AND CNTP_IRQ_BIT \<noteq> 0, d1))"

section \<open>Handling an interrupt\<close>

text \<open>What the handler works on: the processes, the registers of its CPU, the keyboard buffer and the devices.\<close>

record 'd cpu_state =
  cs_procs :: procs
  cs_regs :: mmu_regs
  cs_timer :: timer_regs
  cs_irq_masked :: bool
  cs_kbd :: ring_buffer
  cs_dev :: 'd

definition init_per_cpu :: "board \<Rightarrow> 'd device \<Rightarrow> 'd clock \<Rightarrow> nat \<Rightarrow> u64 \<Rightarrow> 'd cpu_state \<Rightarrow> 'd cpu_state" where
  "init_per_cpu b dev clk cpu tick_ms s =
     (let s = s\<lparr>cs_timer := init_tick clk tick_ms (cs_timer s)\<rparr>;
          s = (case b of
                 Qemu \<Rightarrow> s\<lparr>cs_dev := enable_generic_timer_irq dev cpu (cs_dev s)\<rparr>
               | Rpi5 \<Rightarrow> let s = (if cpu = 0 then s\<lparr>cs_dev := init_dist dev (cs_dev s)\<rparr> else s)
                         in s\<lparr>cs_dev := init_cpu dev (cs_dev s)\<rparr>)
      in s\<lparr>cs_irq_masked := False\<rparr>)"

text \<open>The timer interrupt proper: input, the next tick, and a scheduling decision.\<close>

definition timer_irq ::
  "'d device \<Rightarrow> uart_state \<Rightarrow> bool \<Rightarrow> nat \<Rightarrow> usize \<Rightarrow> 'd cpu_state \<Rightarrow> ('d cpu_state \<times> usize) res" where
  "timer_irq dev u kbd_free cpu frame s =
     (case poll kbd_free dev u (cs_kbd s) (cs_dev s) of (kbd, d) \<Rightarrow>
        let s = s\<lparr>cs_kbd := kbd, cs_dev := d, cs_timer := timer_tick (cs_timer s)\<rparr>
        in and_then (schedule_from_irq cpu frame (cs_procs s, cs_regs s)) (\<lambda>((procs, regs), nxt).
             Inr (s\<lparr>cs_procs := procs, cs_regs := regs\<rparr>, nxt)))"

definition irq_handler ::
  "board \<Rightarrow> 'd device \<Rightarrow> uart_state \<Rightarrow> bool \<Rightarrow> nat \<Rightarrow> usize \<Rightarrow> 'd cpu_state \<Rightarrow> ('d cpu_state \<times> usize) res" where
  "irq_handler b dev u kbd_free cpu frame s =
     (case b of
        Rpi5 \<Rightarrow>
          (case ack_irq dev (cs_dev s) of (irq_id, d) \<Rightarrow>
             let s = s\<lparr>cs_dev := d\<rparr> in
             case irq_id of
               None \<Rightarrow> Inr (s, frame)
             | Some irq \<Rightarrow>
                 if irq \<noteq> timer_irq_id then Inr (s\<lparr>cs_dev := end_irq dev irq (cs_dev s)\<rparr>, frame)
                 else and_then (timer_irq dev u kbd_free cpu frame s) (\<lambda>(s, nxt).
                   Inr (s\<lparr>cs_dev := end_irq dev irq (cs_dev s)\<rparr>, nxt)))
      | Qemu \<Rightarrow>
          (case generic_timer_pending dev cpu (cs_dev s) of (pending, d) \<Rightarrow>
             let s = s\<lparr>cs_dev := d\<rparr> in
             if \<not> pending then Inr (s, frame) else timer_irq dev u kbd_free cpu frame s))"

section \<open>Properties\<close>

lemma timer_irq_ok:
  assumes "sched_inv (cs_procs s)" and "cpu < MAX_CPUS"
  shows "\<exists>s' nxt procs regs. timer_irq dev u kbd_free cpu frame s = Inr (s', nxt) \<and>
    schedule_from_irq cpu frame (cs_procs s, cs_regs s) = Inr ((procs, regs), nxt) \<and>
    cs_procs s' = procs \<and> cs_regs s' = regs \<and> sched_inv procs \<and>
    cs_timer s' = timer_tick (cs_timer s) \<and> (cs_kbd s', cs_dev s') = poll kbd_free dev u (cs_kbd s) (cs_dev s)"
proof -
  obtain kbd d where p: "poll kbd_free dev u (cs_kbd s) (cs_dev s) = (kbd, d)" by (metis surj_pair)
  from tick_ok [OF assms, of frame "cs_regs s"] obtain procs regs nxt where
    "schedule_from_irq cpu frame (cs_procs s, cs_regs s) = Inr ((procs, regs), nxt)" "sched_inv procs" by blast
  then show ?thesis by (simp add: timer_irq_def p)
qed

text \<open>
  C17. Interrupts on the Raspberry Pi are acknowledged and completed in pairs. In every reachable process
  state and on every CPU \<open>irq_handler\<close> returns; a spurious interrupt changes nothing and is not completed;
  every other one ends with the completion of exactly the interrupt that was acknowledged; one that is not
  the timer's leaves processes, timer and input alone and returns to the interrupted frame; and the timer's
  polls the keyboard, arms the next tick and switches as \<open>schedule_from_irq\<close> decides.
\<close>

theorem irq_acknowledged_and_completed:
  assumes "reachable (\<lambda>s. \<exists>s0. s = proc_init s0) (proc_step env) (cs_procs s)" and "cpu < MAX_CPUS"
    and "ack_irq dev (cs_dev s) = (acked, d)"
  shows "\<exists>s' nxt. irq_handler Rpi5 dev u kbd_free cpu frame s = Inr (s', nxt) \<and>
    (case acked of
       None \<Rightarrow> s' = s\<lparr>cs_dev := d\<rparr> \<and> nxt = frame
     | Some irq \<Rightarrow>
         if irq \<noteq> timer_irq_id then s' = s\<lparr>cs_dev := end_irq dev irq d\<rparr> \<and> nxt = frame
         else \<exists>d2. poll kbd_free dev u (cs_kbd s) d = (cs_kbd s', d2) \<and> cs_dev s' = end_irq dev irq d2 \<and>
           cs_timer s' = timer_tick (cs_timer s) \<and>
           schedule_from_irq cpu frame (cs_procs s, cs_regs s) = Inr ((cs_procs s', cs_regs s'), nxt))"
proof -
  have inv: "sched_inv (cs_procs (s\<lparr>cs_dev := d\<rparr>))" using assms(1) by (simp add: sched.reachable_inv)
  from timer_irq_ok [OF this assms(2), of dev u kbd_free frame] obtain s' nxt where
    t: "timer_irq dev u kbd_free cpu frame (s\<lparr>cs_dev := d\<rparr>) = Inr (s', nxt)"
      "schedule_from_irq cpu frame (cs_procs s, cs_regs s) = Inr ((cs_procs s', cs_regs s'), nxt)"
      "cs_timer s' = timer_tick (cs_timer s)" "(cs_kbd s', cs_dev s') = poll kbd_free dev u (cs_kbd s) d" by auto
  show ?thesis
  proof (cases acked)
    case None
    then show ?thesis using assms(3) by (simp add: irq_handler_def)
  next
    case (Some irq)
    then show ?thesis using assms(3) t by (cases "irq = timer_irq_id") (auto simp: irq_handler_def t(4) [symmetric])
  qed
qed

text \<open>An interrupt controller that reports the timer interrupt and records what is written to it.\<close>

definition demo_gic :: "u32 list device" where
  "demo_gic = \<lparr>dev_read = (\<lambda>a d. (30, d)), dev_write = (\<lambda>a v d. d @ [v])\<rparr>"

theorem irq_acknowledged_and_completed_witness:
  "\<exists>s nxt. irq_handler Rpi5 demo_gic (uart_static Rpi5) True 0 0x9000
      \<lparr>cs_procs = one_proc, cs_regs = cold_regs, cs_timer = \<lparr>TICK_TICKS = 5, cntp_tval = 0, cntp_ctl = 0\<rparr>, cs_irq_masked = True,
       cs_kbd = rb_new, cs_dev = []\<rparr> = Inr (s, nxt) \<and> cs_dev s = [30] \<and> cntp_tval (cs_timer s) = 5 \<and> CURRENT (cs_procs s) ! 0 = 0"
proof -
  let ?s = "\<lparr>cs_procs = one_proc, cs_regs = cold_regs, cs_timer = \<lparr>TICK_TICKS = 5, cntp_tval = 0, cntp_ctl = 0\<rparr>, cs_irq_masked = True,
       cs_kbd = rb_new, cs_dev = []\<rparr> :: u32 list cpu_state"
  have ack: "ack_irq demo_gic (cs_dev ?s) = (Some 30, [])" by (simp add: ack_irq_def read32_def demo_gic_def SPURIOUS_IRQ_def)
  have p: "poll True demo_gic (uart_static Rpi5) rb_new [] = (rb_new, [])"
    by (simp add: poll_def poll_loop.simps read_byte_nonblocking_def uart_static_def)
  have sw: "CURRENT s' ! 0 = 0" if "schedule_from_irq 0 0x9000 (one_proc, cold_regs) = Inr ((s', regs), nxt)" for s' regs nxt
    using that schedule_switched [OF one_proc_inv _ _ refl, of 0 0 "0x9000" cold_regs] one_proc_queue
    by (auto simp: MAX_CPUS_def switched_def Let_def)
  from irq_acknowledged_and_completed [OF _ _ ack, of demo_env 0 "uart_static Rpi5" True "0x9000"] one_proc_reachable p sw
  show ?thesis
    by (fastforce simp: MAX_CPUS_def timer_irq_id_def TIMER_PPI_def end_irq_def write32_def demo_gic_def timer_tick_def set_timer_def)
qed

end
