(* ===== verification/Syscall.thy ===== *)
theory Syscall
  imports Scheduler Timer Heap
begin

text \<open>
  \<open>src/kernel/syscall.rs\<close>: \<open>sync_handler\<close>, one definition per system call, and \<open>write_current_fd\<close> and its
  wrappers from \<open>src/kernel/process.rs\<close>. User buffers are read and written in the one memory the kernel's
  pointers see. A call returns the new system state and the value for \<open>x0\<close>; \<open>None\<close> is a call that does not
  return, because the serial port never drains or the counter never advances. The trap frame is passed by
  value: a user buffer that overlaps the caller's own trap frame is outside the model. The outcomes of
  \<open>try_lock\<close> on the console and the keyboard buffer are fields of \<open>sys_env\<close>.
\<close>

section \<open>Definitions\<close>

definition SYSCALL_OPEN :: u64 where "SYSCALL_OPEN = 1"
definition SYSCALL_READ :: u64 where "SYSCALL_READ = 2"
definition SYSCALL_WRITE :: u64 where "SYSCALL_WRITE = 3"
definition SYSCALL_CLOSE :: u64 where "SYSCALL_CLOSE = 4"
definition SYSCALL_SLEEP_MS :: u64 where "SYSCALL_SLEEP_MS = 5"
definition SYSCALL_ALLOC :: u64 where "SYSCALL_ALLOC = 6"
definition SYSCALL_REALLOC :: u64 where "SYSCALL_REALLOC = 7"
definition SYSCALL_FREE :: u64 where "SYSCALL_FREE = 8"

lemmas syscall_numbers = SYSCALL_OPEN_def SYSCALL_READ_def SYSCALL_WRITE_def SYSCALL_CLOSE_def
  SYSCALL_SLEEP_MS_def SYSCALL_ALLOC_def SYSCALL_REALLOC_def SYSCALL_FREE_def

record ('d, 'h) sys_env =
  se_board :: board
  se_dev :: "'d device"
  se_clock :: "'d clock"
  se_heap :: "'h heap_ops"
  se_user :: "'h user_calls"
  se_el :: u64
  se_console_free :: bool
  se_kbd_free :: bool

record ('d, 'h) sys =
  sy_procs :: procs
  sy_io :: "'d io"
  sy_heap :: 'h

type_synonym ('d, 'h) outcome = "(('d, 'h) sys \<times> u64) res option"

text \<open>A user buffer written back to memory.\<close>

definition store_slice :: "memory \<Rightarrow> usize \<Rightarrow> u8 list \<Rightarrow> memory" where
  "store_slice m a bs = (\<lambda>x. if unat (x - a) < length bs then bs ! unat (x - a) else m x)"

definition with_heap ::
  "('h \<times> memory \<Rightarrow> 'r \<times> 'h \<times> memory) \<Rightarrow> ('d, 'h) sys \<Rightarrow> ('d, 'h) sys \<times> 'r" where
  "with_heap f s =
     (case f (sy_heap s, io_mem (sy_io s)) of (r, h, m) \<Rightarrow>
        (s\<lparr>sy_heap := h, sy_io := (sy_io s)\<lparr>io_mem := m\<rparr>\<rparr>, r))"

definition write_current_fd ::
  "('d, 'h) sys_env \<Rightarrow> nat \<Rightarrow> nat \<Rightarrow> u8 list \<Rightarrow> ('d, 'h) sys \<Rightarrow> (('d, 'h) sys \<times> nat) res option" where
  "write_current_fd env cpu fd buf s =
     (case get_fd_current cpu fd (sy_procs s) of
        Inl e \<Rightarrow> Some (Inl e)
      | Inr None \<Rightarrow> Some (Inr (s, 0))
      | Inr (Some desc) \<Rightarrow>
          (case vfs_write (se_board env) (se_dev env) (se_console_free env) desc buf (sy_io s) of
             None \<Rightarrow> None
           | Some (io, n) \<Rightarrow> Some (Inr (s\<lparr>sy_io := io\<rparr>, n))))"

definition write_stdout ::
  "('d, 'h) sys_env \<Rightarrow> nat \<Rightarrow> u8 list \<Rightarrow> ('d, 'h) sys \<Rightarrow> (('d, 'h) sys \<times> nat) res option" where
  "write_stdout env cpu buf s = write_current_fd env cpu FD_STDOUT buf s"

definition write_stderr ::
  "('d, 'h) sys_env \<Rightarrow> nat \<Rightarrow> u8 list \<Rightarrow> ('d, 'h) sys \<Rightarrow> (('d, 'h) sys \<times> nat) res option" where
  "write_stderr env cpu buf s = write_current_fd env cpu FD_STDERR buf s"

text \<open>\<open>write_str\<close> of \<open>FdWriter\<close>, which drops the count and reports success.\<close>

definition fd_writer_write_str ::
  "('d, 'h) sys_env \<Rightarrow> nat \<Rightarrow> nat \<Rightarrow> u8 list \<Rightarrow> ('d, 'h) sys \<Rightarrow> ('d, 'h) sys res option" where
  "fd_writer_write_str env cpu fd s st = map_option (\<lambda>r. and_then r (\<lambda>(st, n). Inr st)) (write_current_fd env cpu fd s st)"

definition sys_open :: "nat \<Rightarrow> u64 \<Rightarrow> u64 \<Rightarrow> u64 \<Rightarrow> ('d, 'h) sys \<Rightarrow> ('d, 'h) outcome" where
  "sys_open cpu ptr len bits s =
     (if ptr = 0 \<or> len = 0 then Some (Inr (s, u64_max))
      else case open_bytes (raw_slice (io_mem (sy_io s)) ptr (unat len)) (from_bits bits) of
             None \<Rightarrow> Some (Inr (s, u64_max))
           | Some desc \<Rightarrow> Some (and_then (alloc_fd_current cpu desc (sy_procs s)) (\<lambda>(procs, r).
               Inr (s\<lparr>sy_procs := procs\<rparr>, case r of Some fd \<Rightarrow> of_nat fd | None \<Rightarrow> u64_max))))"

definition sys_read :: "('d, 'h) sys_env \<Rightarrow> nat \<Rightarrow> u64 \<Rightarrow> u64 \<Rightarrow> u64 \<Rightarrow> ('d, 'h) sys \<Rightarrow> ('d, 'h) outcome" where
  "sys_read env cpu fd ptr len s =
     (if ptr = 0 \<or> len = 0 then Some (Inr (s, 0))
      else case get_fd_current cpu (unat fd) (sy_procs s) of
             Inl e \<Rightarrow> Some (Inl e)
           | Inr None \<Rightarrow> Some (Inr (s, u64_max))
           | Inr (Some desc) \<Rightarrow>
               (case vfs_read (se_dev env) (se_kbd_free env) desc (raw_slice (io_mem (sy_io s)) ptr (unat len)) (sy_io s) of
                  (io, buf, n) \<Rightarrow> Some (Inr (s\<lparr>sy_io := io\<lparr>io_mem := store_slice (io_mem io) ptr buf\<rparr>\<rparr>, of_nat n))))"

definition sys_write :: "('d, 'h) sys_env \<Rightarrow> nat \<Rightarrow> u64 \<Rightarrow> u64 \<Rightarrow> u64 \<Rightarrow> ('d, 'h) sys \<Rightarrow> ('d, 'h) outcome" where
  "sys_write env cpu fd ptr len s =
     (if ptr = 0 \<or> len = 0 then Some (Inr (s, 0))
      else case get_fd_current cpu (unat fd) (sy_procs s) of
             Inl e \<Rightarrow> Some (Inl e)
           | Inr None \<Rightarrow> Some (Inr (s, u64_max))
           | Inr (Some desc) \<Rightarrow>
               (case vfs_write (se_board env) (se_dev env) (se_console_free env) desc
                       (raw_slice (io_mem (sy_io s)) ptr (unat len)) (sy_io s) of
                  None \<Rightarrow> None
                | Some (io, n) \<Rightarrow> Some (Inr (s\<lparr>sy_io := io\<rparr>, of_nat n))))"

definition sys_close :: "nat \<Rightarrow> u64 \<Rightarrow> ('d, 'h) sys \<Rightarrow> ('d, 'h) outcome" where
  "sys_close cpu fd s =
     Some (and_then (close_fd_current cpu (unat fd) (sy_procs s)) (\<lambda>(procs, ok).
       Inr (s\<lparr>sy_procs := procs\<rparr>, if ok then 0 else u64_max)))"

definition sys_sleep_ms :: "('d, 'h) sys_env \<Rightarrow> u64 \<Rightarrow> ('d, 'h) sys \<Rightarrow> ('d, 'h) outcome" where
  "sys_sleep_ms env ms s =
     (case delay_ms (se_clock env) ms (io_dev (sy_io s)) of
        None \<Rightarrow> None
      | Some d \<Rightarrow> Some (Inr (s\<lparr>sy_io := (sy_io s)\<lparr>io_dev := d\<rparr>\<rparr>, 0)))"

text \<open>The pointer of an allocation as a result: a null pointer is \<open>u64::MAX\<close>.\<close>

definition ptr_result :: "('d, 'h) sys \<times> usize \<Rightarrow> ('d, 'h) outcome" where
  "ptr_result r = (case r of (s, p) \<Rightarrow> Some (Inr (s, if p = 0 then u64_max else p)))"

definition sys_alloc :: "('d, 'h) sys_env \<Rightarrow> u64 \<Rightarrow> u64 \<Rightarrow> ('d, 'h) sys \<Rightarrow> ('d, 'h) outcome" where
  "sys_alloc env sz align s =
     (if sz = 0 then Some (Inr (s, 0))
      else case from_size_align sz (max align 1) of
             None \<Rightarrow> Some (Inr (s, u64_max))
           | Some ly \<Rightarrow> ptr_result (with_heap (heap_alloc (se_heap env) (se_user env) (se_el env) ly) s))"

definition free_at :: "('d, 'h) sys_env \<Rightarrow> usize \<Rightarrow> layout \<Rightarrow> ('d, 'h) sys \<Rightarrow> ('d, 'h) outcome" where
  "free_at env ptr ly s =
     (case with_heap (\<lambda>hm. ((), heap_dealloc (se_heap env) (se_user env) (se_el env) ptr ly hm)) s of
        (s', u) \<Rightarrow> Some (Inr (s', 0)))"

definition sys_realloc :: "('d, 'h) sys_env \<Rightarrow> u64 \<Rightarrow> u64 \<Rightarrow> u64 \<Rightarrow> u64 \<Rightarrow> ('d, 'h) sys \<Rightarrow> ('d, 'h) outcome" where
  "sys_realloc env ptr old_size new_size align s =
     (case from_size_align (max old_size 1) (max align 1) of
        None \<Rightarrow> Some (Inr (s, u64_max))
      | Some ly \<Rightarrow>
          if ptr = 0 then
            if new_size = 0 then Some (Inr (s, 0))
            else case from_size_align new_size (max align 1) of
                   None \<Rightarrow> Some (Inr (s, u64_max))
                 | Some new_ly \<Rightarrow> ptr_result (with_heap (heap_alloc (se_heap env) (se_user env) (se_el env) new_ly) s)
          else if new_size = 0 then free_at env ptr ly s
          else ptr_result (with_heap (heap_realloc (se_heap env) (se_user env) (se_el env) ptr ly new_size) s))"

definition sys_free :: "('d, 'h) sys_env \<Rightarrow> u64 \<Rightarrow> u64 \<Rightarrow> u64 \<Rightarrow> ('d, 'h) sys \<Rightarrow> ('d, 'h) outcome" where
  "sys_free env ptr sz align s =
     (if ptr = 0 \<or> sz = 0 then Some (Inr (s, 0))
      else case from_size_align sz (max align 1) of
             None \<Rightarrow> Some (Inr (s, u64_max))
           | Some ly \<Rightarrow> free_at env ptr ly s)"

definition dispatch_syscall ::
  "('d, 'h) sys_env \<Rightarrow> nat \<Rightarrow> u64 list \<Rightarrow> ('d, 'h) sys \<Rightarrow> ('d, 'h) outcome" where
  "dispatch_syscall env cpu x s =
     (let syscall = x ! 8 in
      if syscall = SYSCALL_OPEN then sys_open cpu (x ! 0) (x ! 1) (x ! 2) s
      else if syscall = SYSCALL_READ then sys_read env cpu (x ! 0) (x ! 1) (x ! 2) s
      else if syscall = SYSCALL_WRITE then sys_write env cpu (x ! 0) (x ! 1) (x ! 2) s
      else if syscall = SYSCALL_CLOSE then sys_close cpu (x ! 0) s
      else if syscall = SYSCALL_SLEEP_MS then sys_sleep_ms env (x ! 0) s
      else if syscall = SYSCALL_ALLOC then sys_alloc env (x ! 0) (x ! 1) s
      else if syscall = SYSCALL_REALLOC then sys_realloc env (x ! 0) (x ! 1) (x ! 2) (x ! 3) s
      else if syscall = SYSCALL_FREE then sys_free env (x ! 0) (x ! 1) (x ! 2) s
      else Some (Inr (s, u64_max)))"

text \<open>
  The exception class is bits 26 to 31 of \<open>ESR_EL1\<close>; anything but \<open>SVC\<close> is reported on the serial port (left
  out here) and stops the CPU.
\<close>

definition sync_handler ::
  "('d, 'h) sys_env \<Rightarrow> nat \<Rightarrow> u64 \<Rightarrow> trap_frame \<Rightarrow> ('d, 'h) sys \<Rightarrow> (('d, 'h) sys \<times> trap_frame) res option" where
  "sync_handler env cpu esr tf s =
     (let ec = drop_bit 26 esr AND 0x3f in
      if ec \<noteq> 0x15 then Some (Inl Halt_Loop)
      else case dispatch_syscall env cpu (tf_x tf) s of
             None \<Rightarrow> None
           | Some r \<Rightarrow> Some (and_then r (\<lambda>(s', v). Inr (s', tf\<lparr>tf_x := (tf_x tf)[0 := v]\<rparr>))))"

section \<open>Descriptors of the current process\<close>

lemma with_current_mut_ok:
  assumes "sched_inv s" and "cpu < MAX_CPUS"
  shows "\<exists>s' r. with_current_mut cpu f s = Inr (s', r)"
proof (cases "CURRENT s ! cpu = INVALID_IDX")
  case True
  then show ?thesis using assms sched_inv_lengths [OF assms(1)] by (simp add: with_current_mut_def)
next
  case False
  with assms obtain p where "CURRENT s ! cpu < MAX_PROCS" "slots (table s) ! (CURRENT s ! cpu) = Some p"
    by (rule sched_inv_current)
  then show ?thesis using assms sched_inv_lengths [OF assms(1)] by (simp add: with_current_mut_def split: prod.splits)
qed

lemma with_current_ok:
  assumes "sched_inv s" and "cpu < MAX_CPUS"
  shows "\<exists>r. with_current cpu f s = Inr r"
proof (cases "CURRENT s ! cpu = INVALID_IDX")
  case True
  then show ?thesis using assms sched_inv_lengths [OF assms(1)] by (simp add: with_current_def)
next
  case False
  with assms obtain p where "CURRENT s ! cpu < MAX_PROCS" "slots (table s) ! (CURRENT s ! cpu) = Some p"
    by (rule sched_inv_current)
  then show ?thesis using assms sched_inv_lengths [OF assms(1)] by (simp add: with_current_def)
qed

lemma alloc_fd_ok:
  assumes "sched_inv s" and "cpu < MAX_CPUS"
  shows "\<exists>s' r. alloc_fd_current cpu desc s = Inr (s', r)"
proof -
  let ?f = "\<lambda>p. case first_none (p_fds p) of Some fd \<Rightarrow> (p\<lparr>p_fds := (p_fds p)[fd := Some desc]\<rparr>, Some fd) | None \<Rightarrow> (p, None)"
  obtain s' r where "with_current_mut cpu ?f s = Inr (s', r)" using with_current_mut_ok [OF assms] by blast
  then show ?thesis by (simp add: alloc_fd_current_def)
qed

lemma close_fd_ok:
  assumes "sched_inv s" and "cpu < MAX_CPUS"
  shows "\<exists>s' r. close_fd_current cpu fd s = Inr (s', r)"
proof -
  obtain s' r where "with_current_mut cpu (\<lambda>p. (p\<lparr>p_fds := (p_fds p)[fd := None]\<rparr>, True)) s = Inr (s', r)"
    using with_current_mut_ok [OF assms] by blast
  then show ?thesis by (auto simp: close_fd_current_def)
qed

lemma get_fd_ok:
  assumes "sched_inv s" and "cpu < MAX_CPUS"
  shows "\<exists>r. get_fd_current cpu fd s = Inr r"
proof -
  obtain r where "with_current cpu (\<lambda>p. p_fds p ! fd) s = Inr r" using with_current_ok [OF assms] by blast
  then show ?thesis by (simp add: get_fd_current_def)
qed

text \<open>What a system call may do to the processes: nothing, or one descriptor step of the caller.\<close>

definition proc_effect :: "proc_env \<Rightarrow> procs \<Rightarrow> procs \<Rightarrow> bool" where
  "proc_effect penv s s' \<longleftrightarrow> s' = s \<or> proc_step penv s s'"

text \<open>A call that returns normally whenever it returns.\<close>

definition returns_ok :: "proc_env \<Rightarrow> ('d, 'h) sys \<Rightarrow> ('d, 'h) outcome \<Rightarrow> bool" where
  "returns_ok penv s r \<longleftrightarrow>
     (case r of None \<Rightarrow> True | Some (Inl e) \<Rightarrow> False | Some (Inr (s', v)) \<Rightarrow> proc_effect penv (sy_procs s) (sy_procs s'))"

lemma with_heap_procs: "with_heap f s = (s', r) \<Longrightarrow> sy_procs s' = sy_procs s"
  by (auto simp: with_heap_def split: prod.splits)

lemma ptr_result_ok: "returns_ok penv s (ptr_result (with_heap f s)) \<and> ptr_result (with_heap f s) \<noteq> None"
  by (auto simp: ptr_result_def returns_ok_def proc_effect_def dest: with_heap_procs split: prod.splits)

lemma free_at_ok: "returns_ok penv s (free_at env ptr ly s) \<and> free_at env ptr ly s \<noteq> None"
  by (auto simp: free_at_def returns_ok_def proc_effect_def dest: with_heap_procs split: prod.splits)

lemma sys_open_ok:
  assumes "sched_inv (sy_procs s)" and "cpu < MAX_CPUS"
  shows "returns_ok penv s (sys_open cpu ptr len bits s) \<and> sys_open cpu ptr len bits s \<noteq> None"
proof (cases "ptr = 0 \<or> len = 0 \<or> open_bytes (raw_slice (io_mem (sy_io s)) ptr (unat len)) (from_bits bits) = None")
  case True
  then show ?thesis by (auto simp: sys_open_def returns_ok_def proc_effect_def)
next
  case False
  then obtain desc where d: "open_bytes (raw_slice (io_mem (sy_io s)) ptr (unat len)) (from_bits bits) = Some desc" by auto
  obtain procs r where a: "alloc_fd_current cpu desc (sy_procs s) = Inr (procs, r)" using alloc_fd_ok [OF assms] by blast
  then have "proc_step penv (sy_procs s) procs" by (rule ps_alloc_fd)
  then show ?thesis using False d a by (simp add: sys_open_def returns_ok_def proc_effect_def)
qed

lemma sys_close_ok:
  assumes "sched_inv (sy_procs s)" and "cpu < MAX_CPUS"
  shows "returns_ok penv s (sys_close cpu fd s) \<and> sys_close cpu fd s \<noteq> None"
proof -
  obtain procs r where a: "close_fd_current cpu (unat fd) (sy_procs s) = Inr (procs, r)" using close_fd_ok [OF assms] by blast
  then have "proc_step penv (sy_procs s) procs" by (rule ps_close_fd)
  then show ?thesis using a by (simp add: sys_close_def returns_ok_def proc_effect_def)
qed

lemma sys_read_ok:
  assumes "sched_inv (sy_procs s)" and "cpu < MAX_CPUS"
  shows "returns_ok penv s (sys_read env cpu fd ptr len s) \<and> sys_read env cpu fd ptr len s \<noteq> None"
proof -
  obtain r where "get_fd_current cpu (unat fd) (sy_procs s) = Inr r" using get_fd_ok [OF assms] by blast
  then show ?thesis
    by (cases r) (auto simp: sys_read_def returns_ok_def proc_effect_def split: prod.splits)
qed

lemma sys_write_ok:
  assumes "sched_inv (sy_procs s)" and "cpu < MAX_CPUS"
  shows "returns_ok penv s (sys_write env cpu fd ptr len s)"
proof -
  obtain r where "get_fd_current cpu (unat fd) (sy_procs s) = Inr r" using get_fd_ok [OF assms] by blast
  then show ?thesis
    by (cases r) (auto simp: sys_write_def returns_ok_def proc_effect_def split: prod.splits option.splits)
qed

lemma sys_sleep_ok: "returns_ok penv s (sys_sleep_ms env ms s)"
  by (auto simp: sys_sleep_ms_def returns_ok_def proc_effect_def split: option.splits)

lemma no_change_ok: "returns_ok penv s (Some (Inr (s, v)))"
  by (simp add: returns_ok_def proc_effect_def)

lemma sys_alloc_ok: "returns_ok penv s (sys_alloc env sz align s) \<and> sys_alloc env sz align s \<noteq> None"
  using ptr_result_ok [where penv = penv and s = s] by (auto simp: sys_alloc_def no_change_ok split: option.splits)

lemma sys_free_ok: "returns_ok penv s (sys_free env ptr sz align s) \<and> sys_free env ptr sz align s \<noteq> None"
  using free_at_ok [where penv = penv and s = s] by (auto simp: sys_free_def no_change_ok split: option.splits)

lemma sys_realloc_ok:
  "returns_ok penv s (sys_realloc env ptr old_size new_size align s) \<and> sys_realloc env ptr old_size new_size align s \<noteq> None"
  using free_at_ok [where penv = penv and s = s] ptr_result_ok [where penv = penv and s = s]
  by (auto simp: sys_realloc_def no_change_ok split: option.splits)

lemmas sys_ok = sys_open_ok sys_read_ok sys_write_ok sys_close_ok sys_sleep_ok sys_alloc_ok sys_realloc_ok sys_free_ok

lemma dispatch_ok:
  assumes "sched_inv (sy_procs s)" and "cpu < MAX_CPUS"
  shows "returns_ok penv s (dispatch_syscall env cpu x s)"
  by (simp add: dispatch_syscall_def Let_def sys_ok assms no_change_ok)

lemma dispatch_none:
  assumes inv: "sched_inv (sy_procs s)" and "cpu < MAX_CPUS" and "dispatch_syscall env cpu x s = None"
  shows "x ! 8 \<in> {SYSCALL_WRITE, SYSCALL_SLEEP_MS}"
  using assms(3)
  by (simp add: dispatch_syscall_def Let_def sys_open_ok [OF inv assms(2), THEN conjunct2] sys_read_ok [OF inv assms(2), THEN conjunct2]
      sys_close_ok [OF inv assms(2), THEN conjunct2] sys_alloc_ok [THEN conjunct2] sys_realloc_ok [THEN conjunct2]
      sys_free_ok [THEN conjunct2] del: not_None_eq split: if_splits)

text \<open>What a supervisor call does: return with a changed \<open>x0\<close>, or not return.\<close>

lemma sync_handler_ok:
  assumes inv: "sched_inv (sy_procs s)" "cpu < MAX_CPUS" and "drop_bit 26 esr AND 0x3f = 0x15"
  shows "(\<exists>s' v. dispatch_syscall env cpu (tf_x tf) s = Some (Inr (s', v)) \<and>
      sync_handler env cpu esr tf s = Some (Inr (s', tf\<lparr>tf_x := (tf_x tf)[0 := v]\<rparr>)) \<and> proc_effect penv (sy_procs s) (sy_procs s')) \<or>
    sync_handler env cpu esr tf s = None \<and> dispatch_syscall env cpu (tf_x tf) s = None"
proof (cases "dispatch_syscall env cpu (tf_x tf) s")
  case None
  then show ?thesis using assms(3) by (simp add: sync_handler_def)
next
  case (Some r)
  then obtain s' v where r: "r = Inr (s', v)" and "proc_effect penv (sy_procs s) (sy_procs s')"
    using dispatch_ok [OF inv, of penv env "tf_x tf"] by (auto simp: returns_ok_def split: sum.splits)
  with Some assms(3) show ?thesis by (simp add: sync_handler_def)
qed

section \<open>Properties\<close>


text \<open>A system without devices, whose only process runs on CPU 0.\<close>

definition null_dev :: "unit device" where
  "null_dev = \<lparr>dev_read = (\<lambda>a d. (0, d)), dev_write = (\<lambda>a v d. d)\<rparr>"

definition demo_sys_env :: "(unit, unit) sys_env" where
  "demo_sys_env = \<lparr>se_board = Qemu, se_dev = null_dev, se_clock = \<lparr>cntfrq_el0 = 0, cntpct_el0 = (\<lambda>d. (0, d))\<rparr>,
     se_heap = \<lparr>ll_init = (\<lambda>a n hm. hm), ll_alloc = (\<lambda>l hm. (0, hm)), ll_dealloc = (\<lambda>p l hm. hm), ll_realloc = (\<lambda>p l n hm. (0, hm))\<rparr>,
     se_user = \<lparr>uc_alloc = (\<lambda>s a hm. (0, hm)), uc_realloc = (\<lambda>p k n a hm. (0, hm)), uc_free = (\<lambda>p s a hm. (0, hm))\<rparr>,
     se_el = 4, se_console_free = True, se_kbd_free = True\<rparr>"

definition demo_sys :: "procs \<Rightarrow> memory \<Rightarrow> (unit, unit) sys" where
  "demo_sys p m = \<lparr>sy_procs = p, sy_io = \<lparr>io_console = None, io_mem = m, io_uart = uart_static Qemu, io_dev = (), io_kbd = rb_new\<rparr>, sy_heap = ()\<rparr>"


section \<open>Opening and closing\<close>

lemma with_current_mut_some:
  assumes "sched_inv s" "cpu < MAX_CPUS" "CURRENT s ! cpu = i" "i < MAX_PROCS" "slots (table s) ! i = Some p"
  shows "with_current_mut cpu f s =
    Inr (s\<lparr>table := (table s)\<lparr>slots := (slots (table s))[i := Some (fst (f p))]\<rparr>\<rparr>, Some (snd (f p)))"
  using assms sched_inv_lengths [OF assms(1)] INVALID_IDX_ge [OF assms(4)]
  by (simp add: with_current_mut_def split: prod.splits)

text \<open>
  C19. Opening and closing are inverse. If the current process of a CPU has a free descriptor, \<open>open\<close> of an
  existing device returns the lowest free one, which then refers to that device with the requested
  access; \<open>close\<close> of it returns 0 and restores the system state exactly.
\<close>

theorem open_close_roundtrip:
  assumes "reachable (\<lambda>s. \<exists>s0. s = proc_init s0) (proc_step penv) (sy_procs s)" and "cpu < MAX_CPUS"
    and "CURRENT (sy_procs s) ! cpu = i" and "i < MAX_PROCS" and "slots (table (sy_procs s)) ! i = Some p"
    and "length (p_fds p) = MAX_FDS" and "None \<in> set (p_fds p)" and "ptr \<noteq> 0" and "len \<noteq> 0"
    and "open_bytes (raw_slice (io_mem (sy_io s)) ptr (unat len)) (from_bits bits) = Some desc"
  shows "\<exists>s' fd. fd < MAX_FDS \<and> p_fds p ! fd = None \<and> (\<forall>k<fd. p_fds p ! k \<noteq> None) \<and>
    sys_open cpu ptr len bits s = Some (Inr (s', of_nat fd)) \<and> get_fd_current cpu fd (sy_procs s') = Inr (Some desc) \<and>
    sys_close cpu (of_nat fd) s' = Some (Inr (s, 0))"
proof -
  have inv: "sched_inv (sy_procs s)" using assms(1) by (rule sched.reachable_inv)
  obtain fd where fd: "first_none (p_fds p) = Some fd" using assms(7) first_none_none [of "p_fds p"] by (cases "first_none (p_fds p)") auto
  note free = first_none_some [OF fd]
  then have lt: "fd < MAX_FDS" using assms(6) by simp
  let ?p = "p\<lparr>p_fds := (p_fds p)[fd := Some desc]\<rparr>"
  let ?ps = "(sy_procs s)\<lparr>table := (table (sy_procs s))\<lparr>slots := (slots (table (sy_procs s)))[i := Some ?p]\<rparr>\<rparr>"
  have "alloc_fd_current cpu desc (sy_procs s) = Inr (?ps, Some fd)"
    by (simp add: alloc_fd_current_def with_current_mut_some [OF inv assms(2-5)] fd)
  then have op: "sys_open cpu ptr len bits s = Some (Inr (s\<lparr>sy_procs := ?ps\<rparr>, of_nat fd))"
    using assms(8-10) by (simp add: sys_open_def)
  have inv': "sched_inv ?ps"
    using alloc_fd_inv [OF inv] \<open>alloc_fd_current cpu desc (sy_procs s) = Inr (?ps, Some fd)\<close> by blast
  have len: "length (slots (table (sy_procs s))) = MAX_PROCS" using sched_inv_lengths [OF inv] by simp
  have u: "unat (of_nat fd :: u64) = fd" using lt by (simp add: unat_of_nat MAX_FDS_def)
  have cur: "CURRENT ?ps ! cpu = i" "slots (table ?ps) ! i = Some ?p" using assms(3,4) len by simp_all
  have "(slots (table (sy_procs s)))[i := Some p] = slots (table (sy_procs s))" using assms(5) by (metis list_update_id)
  moreover have "p\<lparr>p_fds := (p_fds p)[fd := None]\<rparr> = p" using free by (metis list_update_id process.surjective process.update_convs(11))
  ultimately have "close_fd_current cpu fd ?ps = Inr (sy_procs s, True)"
    using lt by (simp add: close_fd_current_def with_current_mut_some [OF inv' assms(2) cur(1) assms(4) cur(2)])
  then have cl: "sys_close cpu (of_nat fd) (s\<lparr>sy_procs := ?ps\<rparr>) = Some (Inr (s, 0))" by (simp add: sys_close_def u)
  have "get_fd_current cpu fd ?ps = Inr (Some desc)"
    using lt cur assms(2,4) len sched_inv_lengths [OF inv'] INVALID_IDX_ge [OF assms(4)] free
    by (simp add: get_fd_current_def with_current_def)
  then show ?thesis using op cl lt free by (intro exI [of _ "s\<lparr>sy_procs := ?ps\<rparr>"] exI [of _ fd]) simp
qed

lemma one_proc_fds: "\<exists>p. slots (table one_proc) ! 0 = Some p \<and> p_fds p = replicate MAX_FDS None"
proof -
  have "first_none (slots (table (proc_init no_procs))) = Some 0"
    by (simp add: proc_init_def table_new_def MAX_PROCS_def numeral_eq_Suc)
  then show ?thesis
    by (simp add: one_proc_def create_with_mode_def proc_init_def table_new_def alloc_pid_def init_context_def Let_def
        inherited_fds_def MAX_PROCS_def)
qed

text \<open>The process of \<open>one_proc\<close>, running on CPU 0.\<close>

lemma running_shell:
  obtains s p where "reachable (\<lambda>s. \<exists>s0. s = proc_init s0) (proc_step demo_env) s" "CURRENT s ! 0 = 0"
    "slots (table s) ! 0 = Some p" "p_fds p = replicate MAX_FDS None"
proof -
  have cpu: "0 < MAX_CPUS" by (simp add: MAX_CPUS_def)
  obtain p0 where p0: "slots (table one_proc) ! 0 = Some p0" "p_fds p0 = replicate MAX_FDS None" using one_proc_fds by blast
  obtain s regs r where st: "start_on_cpu 0 (one_proc, cold_regs) = Inr ((s, regs), r)"
    and s: "CURRENT s = (CURRENT one_proc)[0 := 0]" "slots (table s) = (slots (table one_proc))[0 := Some (dispatched 0 p0)]"
    using start_spec [OF one_proc_inv cpu, of 0 0 cold_regs] one_proc_queue p0(1) by auto
  have "reachable (\<lambda>s. \<exists>s0. s = proc_init s0) (proc_step demo_env) s"
    using one_proc_reachable ps_start [OF cpu st] by (rule reachable_step)
  moreover have "CURRENT s ! 0 = 0" "slots (table s) ! 0 = Some (dispatched 0 p0)"
    using s sched_inv_lengths [OF one_proc_inv] by (simp_all add: MAX_CPUS_def MAX_PROCS_def)
  moreover have "p_fds (dispatched 0 p0) = replicate MAX_FDS None" using p0(2) by (simp add: dispatched_def)
  ultimately show ?thesis by (rule that)
qed

text \<open>The path of the framebuffer device at address \<open>0x2000\<close>.\<close>

definition path_mem :: memory where
  "path_mem = store_slice (\<lambda>a. 0) 0x2000 (bytes_of ''/dev/fb0'')"

lemma path_mem_slice: "raw_slice path_mem 0x2000 8 = bytes_of ''/dev/fb0''"
  by code_simp

theorem open_close_roundtrip_witness:
  "\<exists>ps s'. sys_open 0 0x2000 8 2 (demo_sys ps path_mem) = Some (Inr (s', 0)) \<and>
     get_fd_current 0 0 (sy_procs s') = Inr (Some \<lparr>fd_handle = DevFb0, fd_flags = from_bits 2\<rparr>) \<and>
     sys_close 0 0 s' = Some (Inr (demo_sys ps path_mem, 0))"
proof -
  obtain s p where s: "reachable (\<lambda>s. \<exists>s0. s = proc_init s0) (proc_step demo_env) s" "CURRENT s ! 0 = 0"
    "slots (table s) ! 0 = Some p" "p_fds p = replicate MAX_FDS None" by (rule running_shell)
  let ?s = "demo_sys s path_mem"
  have o: "open_bytes (raw_slice (io_mem (sy_io ?s)) 0x2000 (unat (8 :: u64))) (from_bits 2) = Some \<lparr>fd_handle = DevFb0, fd_flags = from_bits 2\<rparr>"
    by (simp add: demo_sys_def path_mem_slice open_bytes_def lookup_def bytes_of_def)
  have "reachable (\<lambda>s. \<exists>s0. s = proc_init s0) (proc_step demo_env) (sy_procs ?s)" using s(1) by (simp add: demo_sys_def)
  from open_close_roundtrip [OF this _ _ _ _ _ _ _ _ o, of 0 0 p] s obtain s' fd where
    r: "p_fds p ! fd = None" "fd < MAX_FDS" "\<forall>k<fd. p_fds p ! k \<noteq> None" "sys_open 0 0x2000 8 2 ?s = Some (Inr (s', of_nat fd))"
      "get_fd_current 0 fd (sy_procs s') = Inr (Some \<lparr>fd_handle = DevFb0, fd_flags = from_bits 2\<rparr>)" "sys_close 0 (of_nat fd) s' = Some (Inr (?s, 0))"
    by (auto simp: demo_sys_def MAX_CPUS_def MAX_PROCS_def MAX_FDS_def)
  have "fd = 0" using r(2,3) s(4) by (cases fd) auto
  with r show ?thesis by auto
qed

end
