(* ===== verification/User.thy ===== *)
theory User
  imports Syscall
begin

text \<open>
  \<open>src/kernel/user.rs\<close>: the statics that \<open>user_start\<close> enters user code with, and the user side of the system
  calls. A wrapper puts its number and arguments in registers and executes \<open>svc #0\<close>; the remaining registers
  keep whatever the program had in them, the argument \<open>tf\<close>. \<open>svc\<close> is the exception as the architecture takes
  it: \<open>sync_handler\<close> runs with exception class 0x15 in \<open>ESR_EL1\<close> and the caller resumes with the \<open>x0\<close> of the
  trap frame.
\<close>

section \<open>Definitions\<close>

record user_statics =
  USER_ENTRY :: "usize option"
  USER_STACK_TOP :: usize

definition USER_SYSCALL_OPEN :: u64 where "USER_SYSCALL_OPEN = 1"
definition USER_SYSCALL_READ :: u64 where "USER_SYSCALL_READ = 2"
definition USER_SYSCALL_WRITE :: u64 where "USER_SYSCALL_WRITE = 3"
definition USER_SYSCALL_CLOSE :: u64 where "USER_SYSCALL_CLOSE = 4"
definition USER_SYSCALL_SLEEP_MS :: u64 where "USER_SYSCALL_SLEEP_MS = 5"
definition USER_SYSCALL_ALLOC :: u64 where "USER_SYSCALL_ALLOC = 6"
definition USER_SYSCALL_REALLOC :: u64 where "USER_SYSCALL_REALLOC = 7"
definition USER_SYSCALL_FREE :: u64 where "USER_SYSCALL_FREE = 8"

definition USER_O_READ :: u64 where "USER_O_READ = push_bit 0 1"
definition USER_O_WRITE :: u64 where "USER_O_WRITE = push_bit 1 1"
definition USER_O_APPEND :: u64 where "USER_O_APPEND = push_bit 2 1"

lemmas user_numbers = USER_SYSCALL_OPEN_def USER_SYSCALL_READ_def USER_SYSCALL_WRITE_def USER_SYSCALL_CLOSE_def
  USER_SYSCALL_SLEEP_MS_def USER_SYSCALL_ALLOC_def USER_SYSCALL_REALLOC_def USER_SYSCALL_FREE_def

definition user_init :: "usize \<Rightarrow> usize \<Rightarrow> user_statics \<Rightarrow> user_statics" where
  "user_init entry stack_top u = u\<lparr>USER_ENTRY := Some entry, USER_STACK_TOP := stack_top AND NOT 0xF\<rparr>"

text \<open>The registers \<open>eret\<close> starts from.\<close>

record eret_regs =
  er_sp_el0 :: u64
  er_elr :: u64
  er_spsr :: u64

definition user_start :: "user_statics \<Rightarrow> eret_regs res" where
  "user_start u =
     (case USER_ENTRY u of
        None \<Rightarrow> Inl Expect_Panic
      | Some entry \<Rightarrow> Inr \<lparr>er_sp_el0 = USER_STACK_TOP u, er_elr = entry, er_spsr = 0x5\<rparr>)"

definition svc :: "('d, 'h) sys_env \<Rightarrow> nat \<Rightarrow> trap_frame \<Rightarrow> ('d, 'h) sys \<Rightarrow> ('d, 'h) outcome" where
  "svc env cpu tf s =
     (case sync_handler env cpu 0x56000000 tf s of
        None \<Rightarrow> None
      | Some r \<Rightarrow> Some (and_then r (\<lambda>(s', tf'). Inr (s', tf_x tf' ! 0))))"

definition syscall_open ::
  "('d, 'h) sys_env \<Rightarrow> nat \<Rightarrow> trap_frame \<Rightarrow> usize \<Rightarrow> usize \<Rightarrow> u64 \<Rightarrow> ('d, 'h) sys \<Rightarrow> ('d, 'h) outcome" where
  "syscall_open env cpu tf ptr len flags =
     svc env cpu (tf\<lparr>tf_x := (tf_x tf)[8 := USER_SYSCALL_OPEN, 0 := ptr, 1 := len, 2 := flags]\<rparr>)"

definition syscall_read ::
  "('d, 'h) sys_env \<Rightarrow> nat \<Rightarrow> trap_frame \<Rightarrow> u64 \<Rightarrow> usize \<Rightarrow> usize \<Rightarrow> ('d, 'h) sys \<Rightarrow> ('d, 'h) outcome" where
  "syscall_read env cpu tf fd ptr len =
     svc env cpu (tf\<lparr>tf_x := (tf_x tf)[8 := USER_SYSCALL_READ, 0 := fd, 1 := ptr, 2 := len]\<rparr>)"

definition syscall_write ::
  "('d, 'h) sys_env \<Rightarrow> nat \<Rightarrow> trap_frame \<Rightarrow> u64 \<Rightarrow> usize \<Rightarrow> usize \<Rightarrow> ('d, 'h) sys \<Rightarrow> ('d, 'h) outcome" where
  "syscall_write env cpu tf fd ptr len =
     svc env cpu (tf\<lparr>tf_x := (tf_x tf)[8 := USER_SYSCALL_WRITE, 0 := fd, 1 := ptr, 2 := len]\<rparr>)"

definition syscall_close ::
  "('d, 'h) sys_env \<Rightarrow> nat \<Rightarrow> trap_frame \<Rightarrow> u64 \<Rightarrow> ('d, 'h) sys \<Rightarrow> ('d, 'h) outcome" where
  "syscall_close env cpu tf fd = svc env cpu (tf\<lparr>tf_x := (tf_x tf)[8 := USER_SYSCALL_CLOSE, 0 := fd]\<rparr>)"

definition syscall_sleep_ms ::
  "('d, 'h) sys_env \<Rightarrow> nat \<Rightarrow> trap_frame \<Rightarrow> u64 \<Rightarrow> ('d, 'h) sys \<Rightarrow> ('d, 'h) outcome" where
  "syscall_sleep_ms env cpu tf ms = svc env cpu (tf\<lparr>tf_x := (tf_x tf)[8 := USER_SYSCALL_SLEEP_MS, 0 := ms]\<rparr>)"

definition syscall_alloc ::
  "('d, 'h) sys_env \<Rightarrow> nat \<Rightarrow> trap_frame \<Rightarrow> u64 \<Rightarrow> u64 \<Rightarrow> ('d, 'h) sys \<Rightarrow> ('d, 'h) outcome" where
  "syscall_alloc env cpu tf sz align =
     svc env cpu (tf\<lparr>tf_x := (tf_x tf)[8 := USER_SYSCALL_ALLOC, 0 := sz, 1 := align]\<rparr>)"

definition syscall_realloc ::
  "('d, 'h) sys_env \<Rightarrow> nat \<Rightarrow> trap_frame \<Rightarrow> u64 \<Rightarrow> u64 \<Rightarrow> u64 \<Rightarrow> u64 \<Rightarrow> ('d, 'h) sys \<Rightarrow> ('d, 'h) outcome" where
  "syscall_realloc env cpu tf ptr old_size new_size align =
     svc env cpu (tf\<lparr>tf_x := (tf_x tf)[8 := USER_SYSCALL_REALLOC, 0 := ptr, 1 := old_size, 2 := new_size, 3 := align]\<rparr>)"

definition syscall_free ::
  "('d, 'h) sys_env \<Rightarrow> nat \<Rightarrow> trap_frame \<Rightarrow> u64 \<Rightarrow> u64 \<Rightarrow> u64 \<Rightarrow> ('d, 'h) sys \<Rightarrow> ('d, 'h) outcome" where
  "syscall_free env cpu tf ptr sz align =
     svc env cpu (tf\<lparr>tf_x := (tf_x tf)[8 := USER_SYSCALL_FREE, 0 := ptr, 1 := sz, 2 := align]\<rparr>)"

text \<open>The public wrappers; a string or slice argument is its address and length, \<open>(ptr, len)\<close>.\<close>

definition user_open where
  "user_open env cpu tf path flags s = syscall_open env cpu tf (fst path) (snd path) flags s"

definition user_read where
  "user_read env cpu tf fd buf s = syscall_read env cpu tf fd (fst buf) (snd buf) s"

definition user_write where
  "user_write env cpu tf fd str s = syscall_write env cpu tf fd (fst str) (snd str) s"

definition user_write_bytes where
  "user_write_bytes env cpu tf fd buf s = syscall_write env cpu tf fd (fst buf) (snd buf) s"

definition user_close where
  "user_close env cpu tf fd s = syscall_close env cpu tf fd s"

definition user_sleep_ms where
  "user_sleep_ms env cpu tf ms s = syscall_sleep_ms env cpu tf ms s"

definition user_alloc where
  "user_alloc env cpu tf sz align s = syscall_alloc env cpu tf sz align s"

definition user_realloc where
  "user_realloc env cpu tf ptr old_size new_size align s = syscall_realloc env cpu tf ptr old_size new_size align s"

definition user_free where
  "user_free env cpu tf ptr sz align s = syscall_free env cpu tf ptr sz align s"

lemmas user_wrapper_defs = user_open_def user_read_def user_write_def user_write_bytes_def user_close_def
  user_sleep_ms_def user_alloc_def user_realloc_def user_free_def
  syscall_open_def syscall_read_def syscall_write_def syscall_close_def syscall_sleep_ms_def
  syscall_alloc_def syscall_realloc_def syscall_free_def

section \<open>Lemmas\<close>

text \<open>A supervisor call returns what the dispatched system call returns.\<close>

lemma svc_dispatch:
  assumes "tf_x tf \<noteq> []"
  shows "svc env cpu tf s = dispatch_syscall env cpu (tf_x tf) s"
proof -
  have ec: "drop_bit 26 (0x56000000 :: u64) AND 0x3f = 0x15" by code_simp
  have x0: "((tf_x tf)[0 := v]) ! 0 = v" for v using assms by simp
  consider "dispatch_syscall env cpu (tf_x tf) s = None" | e where "dispatch_syscall env cpu (tf_x tf) s = Some (Inl e)"
    | s' v where "dispatch_syscall env cpu (tf_x tf) s = Some (Inr (s', v))"
    by (metis not_None_eq obj_sumE surj_pair)
  then show ?thesis by cases (simp_all add: svc_def sync_handler_def Let_def ec x0)
qed

section \<open>Property\<close>

text \<open>
  C18. User programs and the kernel agree on the system call interface: whatever the other registers
  hold, each wrapper of \<open>user.rs\<close> runs the kernel function it is named after, on its own arguments in
  order, and returns that function's result; and the three open flags mean read, write and append.
\<close>

theorem user_calls_reach_kernel:
  assumes "length (tf_x tf) = 31"
  shows "user_open env cpu tf (ptr, len) flags s = sys_open cpu ptr len flags s \<and>
    user_read env cpu tf fd (ptr, len) s = sys_read env cpu fd ptr len s \<and>
    user_write env cpu tf fd (ptr, len) s = sys_write env cpu fd ptr len s \<and>
    user_write_bytes env cpu tf fd (ptr, len) s = sys_write env cpu fd ptr len s \<and>
    user_close env cpu tf fd s = sys_close cpu fd s \<and>
    user_sleep_ms env cpu tf ms s = sys_sleep_ms env ms s \<and>
    user_alloc env cpu tf sz align s = sys_alloc env sz align s \<and>
    user_realloc env cpu tf ptr old_size new_size align s = sys_realloc env ptr old_size new_size align s \<and>
    user_free env cpu tf ptr sz align s = sys_free env ptr sz align s \<and>
    from_bits (USER_O_READ OR USER_O_APPEND) = \<lparr>of_read = True, of_write = False, of_append = True\<rparr> \<and>
    from_bits USER_O_WRITE = \<lparr>of_read = False, of_write = True, of_append = False\<rparr>"
proof (intro conjI)
  have nz: "tf_x tf \<noteq> []" using assms by auto
  note calls = svc_dispatch nz user_wrapper_defs dispatch_syscall_def Let_def user_numbers syscall_numbers assms fst_conv snd_conv
  show "user_open env cpu tf (ptr, len) flags s = sys_open cpu ptr len flags s" by (simp add: calls)
  show "user_read env cpu tf fd (ptr, len) s = sys_read env cpu fd ptr len s" by (simp add: calls)
  show "user_write env cpu tf fd (ptr, len) s = sys_write env cpu fd ptr len s" by (simp add: calls)
  show "user_write_bytes env cpu tf fd (ptr, len) s = sys_write env cpu fd ptr len s" by (simp add: calls)
  show "user_close env cpu tf fd s = sys_close cpu fd s" by (simp add: calls)
  show "user_sleep_ms env cpu tf ms s = sys_sleep_ms env ms s" by (simp add: calls)
  show "user_alloc env cpu tf sz align s = sys_alloc env sz align s" by (simp add: calls)
  show "user_realloc env cpu tf ptr old_size new_size align s = sys_realloc env ptr old_size new_size align s" by (simp add: calls)
  show "user_free env cpu tf ptr sz align s = sys_free env ptr sz align s" by (simp add: calls)
  show "from_bits (USER_O_READ OR USER_O_APPEND) = \<lparr>of_read = True, of_write = False, of_append = True\<rparr>" by code_simp
  show "from_bits USER_O_WRITE = \<lparr>of_read = False, of_write = True, of_append = False\<rparr>" by code_simp
qed

theorem user_calls_reach_kernel_witness:
  "\<forall>s. user_open demo_sys_env 0 (trap_frame_new 0) (0x5000, 8) USER_O_WRITE s = sys_open 0 0x5000 8 USER_O_WRITE s"
  using user_calls_reach_kernel [of "trap_frame_new 0" demo_sys_env 0 "0x5000" 8 USER_O_WRITE] by (simp add: trap_frame_new_def)

end
