(* ===== verification/Shell.thy ===== *)
theory Shell
  imports User
begin

text \<open>
  \<open>src/user/shell.rs\<close>: the line editor. The program's calls to the outside are values of \<open>shell_call\<close>, in the
  order it makes them; a read is what \<open>user::read\<close> returned together with the byte it left in the buffer. One
  \<open>shell_iter\<close> is one turn of the inner loop; a turn that ends a line also starts the next turn of the outer
  loop, which prints the prompt and makes a new \<open>saw_cr\<close>. The \<open>String\<close> is the list of its characters, all
  below U+0100 because each is pushed as \<open>b as char\<close>; \<open>as_str\<close> is its UTF-8 text.
\<close>

section \<open>Definitions\<close>

datatype shell_call = Write "u8 list" | Sleep u64

record shell =
  sh_line :: "u8 list"
  sh_saw_cr :: bool

definition utf8 :: "u8 \<Rightarrow> u8 list" where
  "utf8 c = (if c < 0x80 then [c] else [0xC0 OR drop_bit 6 c, 0x80 OR (c AND 0x3F)])"

definition as_str :: "u8 list \<Rightarrow> u8 list" where
  "as_str cs = concat (map utf8 cs)"

definition shell_prompt :: "u8 list \<Rightarrow> shell \<times> shell_call list" where
  "shell_prompt line = (\<lparr>sh_line = line, sh_saw_cr = False\<rparr>, [Write (bytes_of ''$ '')])"

definition end_line :: "shell \<Rightarrow> shell \<times> shell_call list" where
  "end_line sh =
     (case shell_prompt [] of (sh', prompt) \<Rightarrow>
        (sh', [Write [0x0A], Write (bytes_of ''String: ''), Write (as_str (sh_line sh)), Write [0x0A]] @ prompt))"

definition edit_line :: "u8 \<Rightarrow> shell \<Rightarrow> shell \<times> shell_call list" where
  "edit_line b sh =
     (if b = 0x08 \<or> b = 0x7F then
        if sh_line sh \<noteq> [] then (sh\<lparr>sh_line := butlast (sh_line sh)\<rparr>, [Write [0x08, 0x20, 0x08]]) else (sh, [])
      else if length (as_str (sh_line sh)) < 128 then (sh\<lparr>sh_line := sh_line sh @ [b]\<rparr>, [Write [b]])
      else (sh, []))"

definition shell_byte :: "u8 \<Rightarrow> shell \<Rightarrow> shell \<times> shell_call list" where
  "shell_byte b sh = (if b = 0x0A \<or> b = 0x0D then end_line sh else edit_line b sh)"

definition shell_iter :: "u64 \<times> u8 \<Rightarrow> shell \<Rightarrow> shell \<times> shell_call list" where
  "shell_iter r sh =
     (case r of (read, b) \<Rightarrow>
        if read = 0 \<or> read = u64_max then (sh, [Sleep 10])
        else if b = 0x0D then shell_byte 0x0A (sh\<lparr>sh_saw_cr := True\<rparr>)
        else if b = 0x0A then
          if sh_saw_cr sh then (sh\<lparr>sh_saw_cr := False\<rparr>, []) else shell_byte b sh
        else shell_byte b (sh\<lparr>sh_saw_cr := False\<rparr>))"

fun shell_loop :: "(u64 \<times> u8) list \<Rightarrow> shell \<Rightarrow> shell \<times> shell_call list" where
  "shell_loop [] sh = (sh, [])"
| "shell_loop (r # rs) sh =
     (case shell_iter r sh of (sh', cs) \<Rightarrow> case shell_loop rs sh' of (sh'', ds) \<Rightarrow> (sh'', cs @ ds))"

definition user_shell :: "(u64 \<times> u8) list \<Rightarrow> shell \<times> shell_call list" where
  "user_shell reads =
     (case shell_prompt [] of (sh, prompt) \<Rightarrow> case shell_loop reads sh of (sh', cs) \<Rightarrow> (sh', prompt @ cs))"

section \<open>Lemmas\<close>

fun text_of :: "shell_call list \<Rightarrow> u8 list" where
  "text_of [] = []"
| "text_of (Write bs # cs) = bs @ text_of cs"
| "text_of (Sleep ms # cs) = text_of cs"

text \<open>The bytes of the successful reads.\<close>

definition typed :: "(u64 \<times> u8) list \<Rightarrow> u8 list" where
  "typed reads = map snd (filter (\<lambda>r. fst r \<noteq> 0 \<and> fst r \<noteq> u64_max) reads)"

abbreviation fresh :: "u8 list \<Rightarrow> shell" where
  "fresh line \<equiv> \<lparr>sh_line = line, sh_saw_cr = False\<rparr>"

definition plain :: "u8 \<Rightarrow> bool" where
  "plain b \<longleftrightarrow> b < 0x80 \<and> b \<notin> {0x08, 0x0A, 0x0D, 0x7F}"

definition report :: "u8 list \<Rightarrow> u8 list" where
  "report line = 0x0A # bytes_of ''String: '' @ line @ 0x0A # bytes_of ''$ ''"

lemma text_of_append [simp]: "text_of (cs @ ds) = text_of cs @ text_of ds"
  by (induction cs rule: text_of.induct) simp_all

lemma typed_simps [simp]:
  "typed [] = []" "typed ((n, b) # rs) = (if n = 0 \<or> n = u64_max then typed rs else b # typed rs)"
  by (simp_all add: typed_def)

lemma as_str_Nil [simp]: "as_str [] = []"
  by (simp add: as_str_def)

lemma as_str_snoc [simp]: "as_str (cs @ [b]) = as_str cs @ utf8 b"
  by (simp add: as_str_def)

lemma as_str_plain: "\<forall>b\<in>set cs. plain b \<Longrightarrow> as_str cs = cs"
  by (induction cs) (simp_all add: as_str_def plain_def utf8_def)

lemma shell_loop_append:
  "shell_loop (rs @ qs) sh = (case shell_loop rs sh of (sh', cs) \<Rightarrow> case shell_loop qs sh' of (sh'', ds) \<Rightarrow> (sh'', cs @ ds))"
  by (induction rs arbitrary: sh) (auto split: prod.splits)

text \<open>\<open>saw_cr\<close> never survives a turn of the inner loop.\<close>

lemma shell_iter_fresh: "\<not> sh_saw_cr sh \<Longrightarrow> shell_iter r sh = (sh', cs) \<Longrightarrow> \<not> sh_saw_cr sh'"
  by (auto simp: shell_iter_def shell_byte_def end_line_def edit_line_def shell_prompt_def split: prod.splits if_splits)

lemma shell_loop_fresh: "\<not> sh_saw_cr sh \<Longrightarrow> shell_loop rs sh = (sh', cs) \<Longrightarrow> \<not> sh_saw_cr sh'"
proof (induction rs arbitrary: sh cs)
  case (Cons r rs)
  obtain s c where i: "shell_iter r sh = (s, c)" by (metis surj_pair)
  then have "\<not> sh_saw_cr s" using shell_iter_fresh Cons.prems(1) by blast
  with i Cons.IH [of s] Cons.prems(2) show ?case by (auto split: prod.splits)
qed simp

lemma shell_loop_plain:
  assumes "\<forall>b\<in>set (typed reads). plain b" and "length line + length (typed reads) \<le> 128" and "\<forall>b\<in>set line. plain b"
  shows "fst (shell_loop reads (fresh line)) = fresh (line @ typed reads) \<and> text_of (snd (shell_loop reads (fresh line))) = typed reads"
  using assms
proof (induction reads arbitrary: line)
  case (Cons r reads)
  obtain n b where r: "r = (n, b)" by (cases r)
  show ?case
  proof (cases "n = 0 \<or> n = u64_max")
    case True
    with Cons.IH [of line] Cons.prems r show ?thesis by (auto simp: shell_iter_def split: prod.splits)
  next
    case False
    then have b: "plain b" and len: "length (as_str line) < 128" using Cons.prems r as_str_plain [of line] by auto
    from b len False r have "shell_iter r (fresh line) = (fresh (line @ [b]), [Write [b]])"
      by (simp add: shell_iter_def shell_byte_def edit_line_def plain_def)
    with Cons.IH [of "line @ [b]"] Cons.prems False r b show ?thesis by (auto split: prod.splits)
  qed
qed simp

lemma shell_iter_end:
  assumes "n \<noteq> 0" "n \<noteq> u64_max" and "e = 0x0A \<or> e = 0x0D" and "\<not> sh_saw_cr sh"
  shows "fst (shell_iter (n, e) sh) = fresh [] \<and> text_of (snd (shell_iter (n, e) sh)) = report (as_str (sh_line sh))"
  using assms by (auto simp: shell_iter_def shell_byte_def end_line_def shell_prompt_def report_def)

lemma shell_iter_bounded:
  assumes "length (as_str (sh_line sh)) \<le> 129" and "shell_iter r sh = (sh', cs)"
  shows "length (as_str (sh_line sh')) \<le> 129"
proof -
  have pop: "length (as_str (butlast cs)) \<le> length (as_str cs)" for cs :: "u8 list"
    by (cases cs rule: rev_cases) simp_all
  have two: "length (utf8 b) \<le> 2" for b by (simp add: utf8_def)
  have push: "length (as_str cs) < 128 \<Longrightarrow> length (as_str cs) + length (utf8 b) \<le> 129" for cs b
    using two [of b] by linarith
  show ?thesis using assms pop [of "sh_line sh"] push [of "sh_line sh"]
    by (auto simp: shell_iter_def shell_byte_def end_line_def edit_line_def shell_prompt_def split: prod.splits if_splits)
qed

text \<open>The line buffer never exceeds 129 bytes: the check for 128 comes before a character of up to two bytes.\<close>

lemma shell_line_bounded:
  "length (as_str (sh_line sh)) \<le> 129 \<Longrightarrow> shell_loop reads sh = (sh', cs) \<Longrightarrow> length (as_str (sh_line sh')) \<le> 129"
proof (induction reads arbitrary: sh cs)
  case (Cons r rs)
  obtain s c where i: "shell_iter r sh = (s, c)" by (metis surj_pair)
  with shell_iter_bounded [OF Cons.prems(1) i] Cons.IH [of s] Cons.prems(2) show ?case by (auto split: prod.splits)
qed simp

section \<open>Properties\<close>

text \<open>
  C20. The shell echoes and reports a typed line. Up to 128 ordinary characters, read with any number of
  empty or failing reads between them and ended by a carriage return or a newline, are echoed one by one
  and then printed after \<open>String:\<close>, followed by the next prompt; and the shell is back where it started.
\<close>

theorem shell_reports_line:
  assumes "\<forall>b\<in>set (typed reads). plain b" and "length (typed reads) \<le> 128"
    and "n \<noteq> 0" and "n \<noteq> u64_max" and "e = 0x0A \<or> e = 0x0D"
  shows "fst (user_shell (reads @ [(n, e)])) = fst (user_shell []) \<and>
    text_of (snd (user_shell (reads @ [(n, e)]))) = bytes_of ''$ '' @ typed reads @ report (typed reads)"
proof -
  note loop = shell_loop_plain [OF assms(1), of "[]"]
  note last = shell_iter_end [OF assms(3-5), of "fresh (typed reads)"]
  show ?thesis using loop last assms(2) as_str_plain [OF assms(1)]
    by (auto simp: user_shell_def shell_prompt_def shell_loop_append split: prod.splits)
qed

theorem shell_reports_line_witness:
  "text_of (snd (user_shell [(0, 0), (1, 0x68), (1, 0x69), (1, 0x0D)])) = bytes_of ''$ hi'' @ report (bytes_of ''hi'')"
proof -
  have "typed [(0, 0), (1, 0x68), (1, 0x69)] = bytes_of ''hi''" by (simp add: bytes_of_def u64_max_def)
  moreover have "\<forall>b\<in>set (bytes_of ''hi''). plain b" by (simp add: bytes_of_def plain_def)
  ultimately show ?thesis
    using shell_reports_line [of "[(0, 0), (1, 0x68), (1, 0x69)]" 1 "0x0D"] by (simp add: bytes_of_def u64_max_def)
qed

text \<open>
  C40. A line sent with a carriage return and a newline is taken as two lines. \<open>saw_cr\<close> is meant to swallow
  the newline of such a pair, but it is a new variable for every line and the carriage return has just
  ended one: after any input the shell reports the line and then reports an empty line.
\<close>

theorem shell_crlf_two_lines:
  "\<exists>before. text_of (snd (user_shell (reads @ [(1, 0x0D), (1, 0x0A)]))) =
     before @ report (as_str (sh_line (fst (user_shell reads)))) @ report []"
proof -
  obtain sh cs where l: "shell_loop reads (fresh []) = (sh, cs)" by (metis surj_pair)
  then have "\<not> sh_saw_cr sh" using shell_loop_fresh [of "fresh []"] by simp
  from shell_iter_end [of 1 "0x0D", OF _ _ _ this] shell_iter_end [of 1 "0x0A" "fresh []"] l
  show ?thesis by (auto simp: user_shell_def shell_prompt_def shell_loop_append u64_max_def as_str_def split: prod.splits)
qed

end
