(* ===== verification/Boot.thy ===== *)
theory Boot
  imports Fairness Mminit Fbinit Interrupts Shell
begin

text \<open>
  \<open>kernel_main\<close> of \<open>src/main.rs\<close> and the bring-up of the other CPUs of \<open>src/kernel/smp.rs\<close>: the components put
  together in the order in which the boot CPU starts them, up to the first process of each CPU. What the kernel
  keeps is the record \<open>kernel\<close>; what the linker, the boot code and the hardware provide is \<open>kernel_env\<close>.
  Messages on the serial port are left out. On QEMU the framebuffer is tried until it comes up, a loop that
  may not end: \<open>None\<close> is a boot that never leaves it.
\<close>

section \<open>Definitions\<close>

record ('d, 'h) kernel_env =
  ke_board :: board
  ke_dev :: "'d device"
  ke_clock :: "'d clock"
  ke_gpu :: "'d gpu"
  ke_heap :: "'h heap_ops"
  ke_addrs :: table_addrs
  ke_info :: kernel_phys_info
  ke_mbox :: usize
  ke_stacks :: usize
  ke_user_stack :: usize
  ke_user_shell :: usize
  ke_user_start :: usize
  ke_idle_loop :: usize
  ke_secondary_start :: u64

record ('d, 'h) kernel =
  k_mm :: "'h mm_state"
  k_procs :: procs
  k_console :: "console option"
  k_kbd :: ring_buffer
  k_timer :: timer_regs
  k_irq_masked :: bool
  k_user :: user_statics
  k_secondary_table :: "u64 list"
  k_dev :: 'd

subsection \<open>CPUs\<close>

definition cpu_id :: "u64 \<Rightarrow> nat" where
  "cpu_id mpidr = unat (mpidr AND 3)"

definition le64 :: "u64 \<Rightarrow> u8 list" where
  "le64 w = map (\<lambda>i. ucast (drop_bit (8 * i) w)) [0..<8]"

definition SPIN_TABLE_BASE :: usize where
  "SPIN_TABLE_BASE = 0xD8"

definition start_secondary_cores :: "board \<Rightarrow> u64 \<Rightarrow> u64 list \<times> memory \<Rightarrow> (u64 list \<times> memory) res" where
  "start_secondary_cores b start st =
     (case st of (tbl, mem) \<Rightarrow>
        and_then (arr_set tbl 1 start) (\<lambda>tbl. and_then (arr_set tbl 2 start) (\<lambda>tbl. and_then (arr_set tbl 3 start) (\<lambda>tbl.
          Inr (tbl, case b of
                      Qemu \<Rightarrow> fold (\<lambda>core m. store_slice m (SPIN_TABLE_BASE + of_nat core * 8) (le64 start)) [1..<MAX_CPUS] mem
                    | Rpi5 \<Rightarrow> mem)))))"

text \<open>A secondary CPU, after \<open>boot.S\<close>: the final page tables, its timer, and its first process.\<close>

definition secondary_rust_entry ::
  "board \<Rightarrow> 'd device \<Rightarrow> 'd clock \<Rightarrow> u64 \<Rightarrow> paging_state \<Rightarrow> 'd cpu_state \<Rightarrow> ('d cpu_state \<times> usize \<times> usize) res" where
  "secondary_rust_entry b dev clk mpidr ps s =
     (let core_id = cpu_id mpidr;
          s = s\<lparr>cs_regs := set_ttbr0 (USER_ROOT_PA ps) (set_ttbr1 (KERNEL_ROOT_PA ps) (cs_regs s))\<rparr>;
          s = init_per_cpu b dev clk core_id 10 s
      in and_then (start_on_cpu core_id (cs_procs s, cs_regs s)) (\<lambda>((procs, regs), start).
           Inr (s\<lparr>cs_procs := procs, cs_regs := regs\<rparr>, start)))"

subsection \<open>The boot CPU\<close>

definition RP1_UART_FALLBACK :: usize where
  "RP1_UART_FALLBACK = 0x1c00030000"

definition USER_STACK_SIZE :: usize where
  "USER_STACK_SIZE = 512 * 1024"

definition bring_up_uart :: "('d, 'h) kernel_env \<Rightarrow> uart_state \<Rightarrow> ('d, 'h) kernel \<Rightarrow> ('d, 'h) kernel" where
  "bring_up_uart env u k =
     (case uart_init (ke_board env) (ke_dev env) u (k_dev k) of (u', d) \<Rightarrow>
        k\<lparr>k_mm := (k_mm k)\<lparr>ms_uart := u'\<rparr>, k_dev := d\<rparr>)"

definition early_uart :: "('d, 'h) kernel_env \<Rightarrow> u64 \<Rightarrow> ('d, 'h) kernel \<Rightarrow> ('d, 'h) kernel res" where
  "early_uart env dtb_pa k =
     (case ke_board env of
        Qemu \<Rightarrow> Inr (bring_up_uart env (ms_uart (k_mm k)) k)
      | Rpi5 \<Rightarrow> and_then (find_uart (ms_mem (k_mm k)) dtb_pa) (\<lambda>found.
          let u = ms_uart (k_mm k);
              u = (case found of
                     Some info \<Rightarrow> apply_uart_info info u
                   | None \<Rightarrow> set_skip_init True (set_reg_io_width 4 (set_reg_shift 0 (set_base RP1_UART_FALLBACK u))))
          in Inr (bring_up_uart env u k)))"

definition late_uart :: "('d, 'h) kernel_env \<Rightarrow> ('d, 'h) kernel \<Rightarrow> ('d, 'h) kernel" where
  "late_uart env k =
     (case ke_board env of
        Qemu \<Rightarrow> k
      | Rpi5 \<Rightarrow> if \<not> UART_READY (ms_uart (k_mm k)) then bring_up_uart env (ms_uart (k_mm k)) k else k)"

definition try_console :: "('d, 'h) kernel_env \<Rightarrow> u64 \<Rightarrow> ('d, 'h) kernel \<Rightarrow> (('d, 'h) kernel \<times> bool) res" where
  "try_console env dtb_pa k =
     and_then (try_init_console (ke_board env) (ke_gpu env) (ke_mbox env) dtb_pa
         \<lparr>dp_console = k_console k, dp_mem = ms_mem (k_mm k), dp_gpu = k_dev k\<rparr>) (\<lambda>(dp, ok).
       Inr (k\<lparr>k_console := dp_console dp, k_mm := (k_mm k)\<lparr>ms_mem := dp_mem dp\<rparr>, k_dev := dp_gpu dp\<rparr>, ok))"

partial_function (option) console_loop :: "('d, 'h) kernel_env \<Rightarrow> u64 \<Rightarrow> ('d, 'h) kernel \<Rightarrow> ('d, 'h) kernel res option" where
  "console_loop env dtb_pa k =
     (case try_console env dtb_pa k of
        Inl e \<Rightarrow> Some (Inl e)
      | Inr (k', ok) \<Rightarrow>
          if ok then Some (Inr k')
          else case delay_ms (ke_clock env) 500 (k_dev k') of
                 None \<Rightarrow> None
               | Some d \<Rightarrow> console_loop env dtb_pa (k'\<lparr>k_dev := d\<rparr>))"

definition init_console :: "('d, 'h) kernel_env \<Rightarrow> u64 \<Rightarrow> ('d, 'h) kernel \<Rightarrow> ('d, 'h) kernel res option" where
  "init_console env dtb_pa k =
     (case ke_board env of
        Qemu \<Rightarrow> console_loop env dtb_pa k
      | Rpi5 \<Rightarrow> Some (and_then (try_console env dtb_pa k) (\<lambda>(k', ok). Inr k')))"

definition standard_fds :: "procs \<Rightarrow> procs" where
  "standard_fds s =
     (let fb = open_path ''/dev/fb0'' \<lparr>of_read = False, of_write = True, of_append = False\<rparr>;
          stdin = open_path ''/dev/kbd0'' \<lparr>of_read = True, of_write = False, of_append = False\<rparr>
      in set_init_fd FD_STDERR fb (set_init_fd FD_STDOUT fb (set_init_fd FD_STDIN stdin s)))"

fun create_idle :: "proc_env \<Rightarrow> usize \<Rightarrow> nat \<Rightarrow> procs \<Rightarrow> procs res" where
  "create_idle penv start 0 s = Inr s"
| "create_idle penv start (Suc n) s =
     and_then (create penv 0 ''idle'' start 0 s) (\<lambda>(s', pid). create_idle penv start n s')"

definition create_processes :: "proc_env \<Rightarrow> usize \<Rightarrow> usize \<Rightarrow> procs \<Rightarrow> procs res" where
  "create_processes penv shell_start idle s =
     and_then (create_user penv 0 ''shell'' shell_start 0 s) (\<lambda>(s, pid). create_idle penv idle MAX_CPUS s)"

definition proc_env_of :: "('d, 'h) kernel_env \<Rightarrow> ('d, 'h) kernel \<Rightarrow> proc_env" where
  "proc_env_of env k = \<lparr>stacks_addr = ke_stacks env, env_user_root_pa = USER_ROOT_PA (ms_paging (k_mm k))\<rparr>"

text \<open>From the console to the first process: descriptors, user entry, processes, other CPUs, timer, scheduler.\<close>

definition start_system :: "('d, 'h) kernel_env \<Rightarrow> ('d, 'h) kernel \<Rightarrow> (('d, 'h) kernel \<times> usize \<times> usize) res" where
  "start_system env k =
     (let k = k\<lparr>k_procs := standard_fds (k_procs k)\<rparr>;
          k = k\<lparr>k_user := user_init (ke_user_shell env) (ke_user_stack env + USER_STACK_SIZE) (k_user k)\<rparr>
      in and_then (create_processes (proc_env_of env k) (ke_user_start env) (ke_idle_loop env) (k_procs k)) (\<lambda>procs.
         and_then (start_secondary_cores (ke_board env) (ke_secondary_start env) (k_secondary_table k, ms_mem (k_mm k))) (\<lambda>(tbl, mem).
         let s = init_per_cpu (ke_board env) (ke_dev env) (ke_clock env) 0 10
                   \<lparr>cs_procs = procs, cs_regs = ms_regs (k_mm k), cs_timer = k_timer k, cs_irq_masked = k_irq_masked k,
                    cs_kbd = k_kbd k, cs_dev = k_dev k\<rparr>
         in and_then (start_on_cpu 0 (cs_procs s, cs_regs s)) (\<lambda>((procs, regs), start).
              Inr (k\<lparr>k_procs := procs, k_mm := (k_mm k)\<lparr>ms_mem := mem, ms_regs := regs\<rparr>, k_secondary_table := tbl,
                     k_timer := cs_timer s, k_irq_masked := cs_irq_masked s, k_kbd := cs_kbd s, k_dev := cs_dev s\<rparr>, start)))))"

definition kernel_main ::
  "('d, 'h) kernel_env \<Rightarrow> u64 \<Rightarrow> ('d, 'h) kernel \<Rightarrow> (('d, 'h) kernel \<times> usize \<times> usize) res option" where
  "kernel_main env dtb_pa k =
     (case and_then (early_uart env dtb_pa k) (\<lambda>k.
             and_then (mm_init (ke_board env) (ke_addrs env) (ke_info env) (ke_heap env) dtb_pa (k_mm k)) (\<lambda>mm.
               let k = late_uart env (k\<lparr>k_mm := mm\<rparr>)
               in Inr (k\<lparr>k_procs := proc_init (k_procs k)\<rparr>))) of
        Inl e \<Rightarrow> Some (Inl e)
      | Inr k \<Rightarrow>
          (case init_console env dtb_pa k of
             None \<Rightarrow> None
           | Some r \<Rightarrow> Some (and_then r (start_system env))))"

section \<open>The processes of a booted kernel\<close>

text \<open>The state after \<open>process::init\<close>, the standard descriptors and the creation of the processes \<open>ps\<close>.\<close>

definition booted :: "file_desc option list \<Rightarrow> process list \<Rightarrow> procs \<Rightarrow> bool" where
  "booted fds ps s \<longleftrightarrow> sched_inv s \<and> length ps < MAX_PROCS \<and> INIT_FDS s = fds \<and>
     slots (table s) = map Some ps @ replicate (MAX_PROCS - length ps) None \<and>
     next_pid (table s) = of_nat (length ps) + 1 \<and> CURRENT s = replicate MAX_CPUS INVALID_IDX \<and>
     rq_items (run_queue (table s)) = [0..<length ps] \<and> (\<forall>p\<in>set ps. runnable (Some p))"

definition new_process :: "proc_env \<Rightarrow> file_desc option list \<Rightarrow> nat \<Rightarrow> string \<Rightarrow> usize \<Rightarrow> process_mode \<Rightarrow> process" where
  "new_process penv fds idx name start mode =
     (let stack_top = stacks_addr penv + of_nat idx * STACK_SIZE + STACK_SIZE
      in \<lparr>p_id = of_nat idx + 1, p_name = name, p_entry = start, p_state = Ready, p_stack_top = stack_top,
          p_context_sp = (stack_top - TRAP_FRAME_SIZE) AND NOT 0xF, p_running_on = CPU_NONE, p_in_run_queue = True,
          p_mode = mode, p_parent = None, p_fds = fds, p_ttbr0 = env_user_root_pa penv\<rparr>)"

lemma first_none_prefix: "first_none (map Some ps @ replicate (Suc n) None) = Some (length ps)"
  by (induction ps) simp_all

lemma create_booted:
  assumes "booted fds ps s" and "Suc (length ps) < MAX_PROCS"
  shows "booted fds (ps @ [new_process penv fds (length ps) name start mode])
    (fst (create_with_mode penv name start 0 mode None s))"
proof -
  let ?i = "length ps" and ?p = "new_process penv fds (length ps) name start mode"
  let ?s = "fst (create_with_mode penv name start 0 mode None s)"
  from assms have inv: "sched_inv s" and sl: "slots (table s) = map Some ps @ replicate (Suc (MAX_PROCS - Suc ?i)) None"
    by (simp_all add: booted_def Suc_diff_Suc)
  have f: "first_none (slots (table s)) = Some ?i" unfolding sl by (rule first_none_prefix)
  have "(of_nat ?i + 1 + 1 :: u32) \<noteq> 0"
    using assms(2) by (simp add: MAX_PROCS_def unat_eq_0 [symmetric] unat_word_ariths unat_of_nat)
  then have pid: "max (of_nat ?i + 1 + 1 :: u32) 1 = of_nat ?i + 1 + 1" by (simp add: max_def word_le_less_eq)
  have "slots (table ?s) = (slots (table s))[?i := Some ?p]" "next_pid (table ?s) = of_nat (length (ps @ [?p])) + 1"
    "INIT_FDS ?s = fds"
    using f assms(1) pid by (simp_all add: create_with_mode_def Let_def alloc_pid_def init_context_def booted_def
      inherited_fds_def new_process_def)
  moreover have "(slots (table s))[?i := Some ?p] = map Some (ps @ [?p]) @ replicate (MAX_PROCS - length (ps @ [?p])) None"
    unfolding sl by (simp add: list_update_append)
  moreover have "runnable (Some ?p)" by (simp add: runnable_def new_process_def Let_def)
  ultimately show ?thesis using assms create_inv [OF inv] create_queue(1,2) [OF inv f]
    by (auto simp: booted_def)
qed

lemma booted_no_parent: "booted fds ps s \<Longrightarrow> current_pid 0 s = Inr None"
  by (simp add: booted_def current_pid_def with_current_def arr_get_def MAX_CPUS_def)

lemma create_idle_booted:
  assumes "booted fds ps s" and "length ps + n < MAX_PROCS"
  shows "\<exists>s'. create_idle penv start n s = Inr s' \<and>
    booted fds (ps @ map (\<lambda>i. new_process penv fds i ''idle'' start Kernel) [length ps..<length ps + n]) s'"
  using assms
proof (induction n arbitrary: ps s)
  case (Suc n)
  let ?p = "new_process penv fds (length ps) ''idle'' start Kernel"
  have b: "booted fds (ps @ [?p]) (fst (create_with_mode penv ''idle'' start 0 Kernel None s))"
    using Suc.prems by (intro create_booted) simp_all
  have "[length ps..<length ps + Suc n] = length ps # [Suc (length ps)..<Suc (length ps) + n]"
    by (simp add: upt_conv_Cons)
  with Suc.IH [OF b] Suc.prems show ?case
    by (auto simp: create_def booted_no_parent split: prod.splits)
qed simp

definition standard_table :: "file_desc option list" where
  "standard_table =
     (let fb = Some \<lparr>fd_handle = DevFb0, fd_flags = \<lparr>of_read = False, of_write = True, of_append = False\<rparr>\<rparr>;
          kbd = Some \<lparr>fd_handle = DevKbd0, fd_flags = \<lparr>of_read = True, of_write = False, of_append = False\<rparr>\<rparr>
      in [kbd, fb, fb, None, None, None, None, None])"

lemma standard_fds_table:
  assumes "INIT_FDS s = replicate MAX_FDS None"
  shows "standard_fds s = s\<lparr>INIT_FDS := standard_table\<rparr>"
proof -
  have "open_path ''/dev/fb0'' f = Some \<lparr>fd_handle = DevFb0, fd_flags = f\<rparr>"
    and "open_path ''/dev/kbd0'' f = Some \<lparr>fd_handle = DevKbd0, fd_flags = f\<rparr>" for f
    by (simp_all add: open_path_def open_bytes_def lookup_def bytes_of_def)
  then show ?thesis using assms
    by (simp add: standard_fds_def Let_def set_init_fd_def MAX_FDS_def FD_STDIN_def FD_STDOUT_def FD_STDERR_def
      standard_table_def numeral_eq_Suc)
qed

lemma standard_fds_booted: "booted standard_table [] (standard_fds (proc_init s))"
proof -
  have "sched_inv ((proc_init s)\<lparr>INIT_FDS := standard_table\<rparr>)"
    using proc_init_inv [of s] by (simp add: sched_inv_def current_inv_def)
  then show ?thesis
    by (simp add: standard_fds_table proc_init_def booted_def table_new_def MAX_PROCS_def)
qed

lemma create_processes_booted:
  assumes "booted fds [] s"
  shows "\<exists>s'. create_processes penv shell_start idle s = Inr s' \<and>
    booted fds (new_process penv fds 0 ''shell'' shell_start User #
      map (\<lambda>i. new_process penv fds i ''idle'' idle Kernel) [1, 2, 3, 4]) s'"
proof -
  have "booted fds [new_process penv fds 0 ''shell'' shell_start User] (fst (create_with_mode penv ''shell'' shell_start 0 User None s))"
    using create_booted [OF assms, of penv "''shell''" shell_start User] by (simp add: MAX_PROCS_def)
  from create_idle_booted [OF this, of MAX_CPUS penv idle]
  show ?thesis using booted_no_parent [OF assms]
    by (auto simp: create_processes_def create_user_def MAX_PROCS_def MAX_CPUS_def numeral_eq_Suc upt_rec split: prod.splits)
qed

lemma try_console_keeps: "try_console env dtb_pa k = Inr (k', ok) \<Longrightarrow> k_procs k' = k_procs k \<and> k_secondary_table k' = k_secondary_table k"
  by (auto simp: try_console_def and_then_eq_Inr split: prod.splits)

lemma console_loop_keeps:
  assumes "console_loop env dtb_pa k = Some r"
  shows "r = Inr k' \<Longrightarrow> k_procs k' = k_procs k \<and> k_secondary_table k' = k_secondary_table k"
proof (induction rule: console_loop.raw_induct [OF _ assms])
  case (1 f env dtb_pa k r)
  note ih = 1(1) and body = 1(2) and r = 1(3)
  obtain k1 ok where t: "try_console env dtb_pa k = Inr (k1, ok)"
    using body r by (cases "try_console env dtb_pa k") auto
  show ?case
  proof (cases ok)
    case True
    with body r t try_console_keeps [OF t] show ?thesis by simp
  next
    case False
    then obtain d where "f env dtb_pa (k1\<lparr>k_dev := d\<rparr>) = Some r" using body t by (auto split: option.splits)
    from ih [OF this r] try_console_keeps [OF t] show ?thesis by simp
  qed
qed

lemma init_console_keeps:
  "init_console env dtb_pa k = Some (Inr k') \<Longrightarrow> k_procs k' = k_procs k \<and> k_secondary_table k' = k_secondary_table k"
  by (cases "ke_board env")
    (auto simp: init_console_def and_then_eq_Inr dest: console_loop_keeps try_console_keeps)

text \<open>The first process of the queue goes to the CPU that starts.\<close>

lemma start_head:
  assumes "sched_inv s" and "cpu < MAX_CPUS" and "rq_items (run_queue (table s)) = i # rest"
    and "slots (table s) ! i = Some p" and "runnable (Some p)"
  shows "\<exists>s'. start_on_cpu cpu (s, regs) = Inr ((s', set_ttbr0 (p_ttbr0 p) regs), p_entry p, p_stack_top p) \<and>
    sched_inv s' \<and> CURRENT s' = (CURRENT s)[cpu := i] \<and>
    slots (table s') = (slots (table s))[i := Some (dispatched cpu p)] \<and> rq_items (run_queue (table s')) = rest"
proof -
  have k: "0 < length (rq_items (run_queue (table s)))" "i = rq_items (run_queue (table s)) ! 0" "runnable (slots (table s) ! i)"
    "\<forall>j<0. \<not> runnable (slots (table s) ! (rq_items (run_queue (table s)) ! j))"
    by (simp_all add: assms(3-5))
  from start_spec [OF assms(1,2) k, of regs] obtain s' p' where
    s': "start_on_cpu cpu (s, regs) = Inr ((s', set_ttbr0 (p_ttbr0 p') regs), p_entry p', p_stack_top p')"
      "slots (table s) ! i = Some p'" "sched_inv s'" "CURRENT s' = (CURRENT s)[cpu := i]"
      "slots (table s') = (slots (table s))[i := Some (dispatched cpu p')]"
      "rq_items (run_queue (table s')) = drop (Suc 0) (rq_items (run_queue (table s))) @ take 0 (rq_items (run_queue (table s)))"
    by (elim exE conjE)
  have "p' = p" using assms(4) s'(2) by simp
  with s' show ?thesis by (simp add: assms(3))
qed

text \<open>CPUs that start one after the other, each with its registers.\<close>

fun start_cpus :: "nat list \<Rightarrow> mmu_regs \<Rightarrow> procs \<Rightarrow> procs res" where
  "start_cpus [] regs s = Inr s"
| "start_cpus (cpu # cpus) regs s = and_then (start_on_cpu cpu (s, regs)) (\<lambda>((s', regs'), r). start_cpus cpus regs s')"

lemma start_cpus_in_order:
  assumes "sched_inv s" and "\<forall>c\<in>set cpus. c < MAX_CPUS" and "distinct cpus" and "length cpus \<le> length its"
    and "rq_items (run_queue (table s)) = its" and "distinct its" and "\<forall>i\<in>set its. i < length (slots (table s)) \<and> runnable (slots (table s) ! i)"
  shows "\<exists>s'. start_cpus cpus regs s = Inr s' \<and> rq_items (run_queue (table s')) = drop (length cpus) its \<and>
    (\<forall>k<length cpus. CURRENT s' ! (cpus ! k) = its ! k) \<and> (\<forall>c. c \<notin> set cpus \<longrightarrow> CURRENT s' ! c = CURRENT s ! c)"
  using assms
proof (induction cpus arbitrary: s its)
  case (Cons c cpus)
  obtain i rest where its: "its = i # rest" using Cons.prems(4) by (cases its) auto
  obtain p where p: "slots (table s) ! i = Some p" "runnable (Some p)"
    using Cons.prems(7) its by (metis list.set_intros(1) not_None_eq option.simps(4) runnable_def)
  have c: "c < MAX_CPUS" using Cons.prems(2) by simp
  from start_head [OF Cons.prems(1) c Cons.prems(5) [unfolded its] p, of regs] obtain s1 where
    s1: "start_on_cpu c (s, regs) = Inr ((s1, set_ttbr0 (p_ttbr0 p) regs), p_entry p, p_stack_top p)" "sched_inv s1"
      "CURRENT s1 = (CURRENT s)[c := i]" "slots (table s1) = (slots (table s))[i := Some (dispatched c p)]"
      "rq_items (run_queue (table s1)) = rest" by blast
  have run: "\<forall>j\<in>set rest. j < length (slots (table s1)) \<and> runnable (slots (table s1) ! j)"
  proof
    fix j
    assume "j \<in> set rest"
    with Cons.prems(6,7) its have "j \<noteq> i" "j < length (slots (table s))" "runnable (slots (table s) ! j)" by auto
    then show "j < length (slots (table s1)) \<and> runnable (slots (table s1) ! j)" unfolding s1(4) by simp
  qed
  from Cons.IH [OF s1(2) _ _ _ s1(5) _ run] Cons.prems(2-4,6) its obtain s2 where
    s2: "start_cpus cpus regs s1 = Inr s2" "rq_items (run_queue (table s2)) = drop (length cpus) rest"
      "\<forall>k<length cpus. CURRENT s2 ! (cpus ! k) = rest ! k" "\<forall>c. c \<notin> set cpus \<longrightarrow> CURRENT s2 ! c = CURRENT s1 ! c" by auto
  have "CURRENT s2 ! c = i" using s2(4) s1(3) Cons.prems(3) c sched_inv_lengths [OF Cons.prems(1)] by simp
  with s1 s2 its show ?case by (auto simp: nth_Cons split: nat.splits)
qed simp

lemma dispatched_start: "p_entry (dispatched c p) = p_entry p \<and> p_stack_top (dispatched c p) = p_stack_top p"
  by (simp add: dispatched_def)

lemma start_secondary_cores_table:
  assumes "length tbl = MAX_CPUS"
  shows "\<exists>mem'. start_secondary_cores b start (tbl, mem) = Inr (tbl[1 := start, 2 := start, 3 := start], mem')"
  using assms by (simp add: start_secondary_cores_def arr_set_def MAX_CPUS_def)

text \<open>The processes of a booted kernel: the shell in slot 0 and an idle process for each CPU behind it.\<close>

definition boot_processes :: "proc_env \<Rightarrow> usize \<Rightarrow> usize \<Rightarrow> process list" where
  "boot_processes penv shell_start idle =
     new_process penv standard_table 0 ''shell'' shell_start User #
       map (\<lambda>i. new_process penv standard_table i ''idle'' idle Kernel) [1, 2, 3, 4]"

lemma length_boot_processes [simp]: "length (boot_processes penv a b) = 5"
  by (simp add: boot_processes_def)

lemma boot_processes_booted:
  "\<exists>s'. create_processes penv shell_start idle (standard_fds (proc_init s)) = Inr s' \<and>
     booted standard_table (boot_processes penv shell_start idle) s'"
  using create_processes_booted [OF standard_fds_booted] by (simp add: boot_processes_def)

lemma booted_slot: "booted fds ps s \<Longrightarrow> i < length ps \<Longrightarrow> slots (table s) ! i = Some (ps ! i) \<and> runnable (Some (ps ! i))"
  by (simp add: booted_def nth_append)

lemma start_system_ok:
  assumes "k_procs k = proc_init s0" and "length (k_secondary_table k) = MAX_CPUS"
    and ps: "ps = boot_processes (proc_env_of env k) (ke_user_start env) (ke_idle_loop env)"
  shows "\<exists>k'. start_system env k = Inr (k', ke_user_start env, ke_stacks env + STACK_SIZE) \<and>
    CURRENT (k_procs k') = [0, INVALID_IDX, INVALID_IDX, INVALID_IDX] \<and>
    rq_items (run_queue (table (k_procs k'))) = [1, 2, 3, 4] \<and>
    take 5 (slots (table (k_procs k'))) = map Some (dispatched 0 (hd ps) # tl ps) \<and>
    k_secondary_table k' = (k_secondary_table k)[1 := ke_secondary_start env, 2 := ke_secondary_start env, 3 := ke_secondary_start env] \<and>
    k_user k' = \<lparr>USER_ENTRY = Some (ke_user_shell env), USER_STACK_TOP = (ke_user_stack env + USER_STACK_SIZE) AND NOT 0xF\<rparr>"
proof -
  let ?k = "k\<lparr>k_procs := standard_fds (k_procs k), k_user := user_init (ke_user_shell env) (ke_user_stack env + USER_STACK_SIZE) (k_user k)\<rparr>"
  have penv: "proc_env_of env ?k = proc_env_of env k" by (simp add: proc_env_of_def)
  obtain s where s: "create_processes (proc_env_of env k) (ke_user_start env) (ke_idle_loop env) (standard_fds (proc_init s0)) = Inr s"
    "booted standard_table ps s" using boot_processes_booted ps by blast
  obtain mem where mem: "start_secondary_cores (ke_board env) (ke_secondary_start env) (k_secondary_table k, ms_mem (k_mm k)) =
      Inr ((k_secondary_table k)[1 := ke_secondary_start env, 2 := ke_secondary_start env, 3 := ke_secondary_start env], mem)"
    using start_secondary_cores_table [OF assms(2)] by blast
  define c where "c = init_per_cpu (ke_board env) (ke_dev env) (ke_clock env) 0 10
      \<lparr>cs_procs = s, cs_regs = ms_regs (k_mm k), cs_timer = k_timer k, cs_irq_masked = k_irq_masked k, cs_kbd = k_kbd k, cs_dev = k_dev k\<rparr>"
  have c: "cs_procs c = s" by (simp add: c_def init_per_cpu_def Let_def split: board.split)
  have hd: "ps ! 0 = hd ps" "p_entry (hd ps) = ke_user_start env" "p_stack_top (hd ps) = ke_stacks env + STACK_SIZE"
    by (simp_all add: ps boot_processes_def new_process_def proc_env_of_def Let_def)
  have inv: "sched_inv s" and its: "rq_items (run_queue (table s)) = 0 # [1, 2, 3, 4]"
    using s(2) by (simp_all add: booted_def ps upt_rec numeral_eq_Suc)
  have slot0: "slots (table s) ! 0 = Some (hd ps)" "runnable (Some (hd ps))"
    using booted_slot [OF s(2), of 0] hd(1) by (simp_all add: ps)
  have "0 < MAX_CPUS" by (simp add: MAX_CPUS_def)
  from start_head [OF inv this its slot0, of "cs_regs c"] obtain s' where
    s': "start_on_cpu 0 (s, cs_regs c) = Inr ((s', set_ttbr0 (p_ttbr0 (hd ps)) (cs_regs c)), p_entry (hd ps), p_stack_top (hd ps))"
      "CURRENT s' = (CURRENT s)[0 := 0]" "slots (table s') = (slots (table s))[0 := Some (dispatched 0 (hd ps))]"
      "rq_items (run_queue (table s')) = [1, 2, 3, 4]" by blast
  have "CURRENT s = replicate MAX_CPUS INVALID_IDX" using s(2) by (simp add: booted_def)
  then have cur: "CURRENT s' = [0, INVALID_IDX, INVALID_IDX, INVALID_IDX]"
    using s'(2) by (simp add: MAX_CPUS_def numeral_eq_Suc)
  have "slots (table s) = map Some ps @ replicate (MAX_PROCS - 5) None" using s(2) by (simp add: booted_def ps)
  then have sl: "take 5 (slots (table s')) = map Some (dispatched 0 (hd ps) # tl ps)"
    using s'(3) by (simp add: ps boot_processes_def)
  show ?thesis using assms(1) s(1) mem s'(1,4) cur sl c hd(2,3) penv
    by (simp add: start_system_def Let_def user_init_def c_def [symmetric])
qed

lemma bring_up_uart_table [simp]: "k_secondary_table (bring_up_uart env u k) = k_secondary_table k"
  by (simp add: bring_up_uart_def split: prod.splits)

lemma early_uart_table: "early_uart env dtb_pa k = Inr k1 \<Longrightarrow> k_secondary_table k1 = k_secondary_table k"
  by (cases "ke_board env") (auto simp: early_uart_def Let_def and_then_eq_Inr)

lemma late_uart_table [simp]: "k_secondary_table (late_uart env k) = k_secondary_table k"
  by (simp add: late_uart_def split: board.split)

lemma kernel_main_ok:
  assumes "early_uart env dtb_pa k = Inr k1"
    and "mm_init (ke_board env) (ke_addrs env) (ke_info env) (ke_heap env) dtb_pa (k_mm k1) = Inr mm"
    and "k2 = late_uart env (k1\<lparr>k_mm := mm\<rparr>)"
    and "init_console env dtb_pa (k2\<lparr>k_procs := proc_init (k_procs k2)\<rparr>) = Some (Inr k3)"
    and "length (k_secondary_table k) = MAX_CPUS"
    and "ps = boot_processes (proc_env_of env k3) (ke_user_start env) (ke_idle_loop env)"
  shows "\<exists>k'. kernel_main env dtb_pa k = Some (Inr (k', ke_user_start env, ke_stacks env + STACK_SIZE)) \<and>
    CURRENT (k_procs k') = [0, INVALID_IDX, INVALID_IDX, INVALID_IDX] \<and>
    rq_items (run_queue (table (k_procs k'))) = [1, 2, 3, 4] \<and>
    take 5 (slots (table (k_procs k'))) = map Some (dispatched 0 (hd ps) # tl ps) \<and> map p_fds ps = replicate 5 standard_table \<and>
    k_secondary_table k' = (k_secondary_table k)[1 := ke_secondary_start env, 2 := ke_secondary_start env, 3 := ke_secondary_start env] \<and>
    k_user k' = \<lparr>USER_ENTRY = Some (ke_user_shell env), USER_STACK_TOP = (ke_user_stack env + USER_STACK_SIZE) AND NOT 0xF\<rparr>"
proof -
  have tbl: "k_secondary_table k2 = k_secondary_table k"
    using early_uart_table [OF assms(1)] assms(3) by simp
  note keeps = init_console_keeps [OF assms(4)]
  then have "k_procs k3 = proc_init (k_procs k2)" and "length (k_secondary_table k3) = MAX_CPUS"
    using assms(5) tbl by simp_all
  from start_system_ok [OF this assms(6)] keeps tbl
  have "\<exists>k'. start_system env k3 = Inr (k', ke_user_start env, ke_stacks env + STACK_SIZE) \<and>
    CURRENT (k_procs k') = [0, INVALID_IDX, INVALID_IDX, INVALID_IDX] \<and>
    rq_items (run_queue (table (k_procs k'))) = [1, 2, 3, 4] \<and>
    take 5 (slots (table (k_procs k'))) = map Some (dispatched 0 (hd ps) # tl ps) \<and>
    k_secondary_table k' = (k_secondary_table k)[1 := ke_secondary_start env, 2 := ke_secondary_start env, 3 := ke_secondary_start env] \<and>
    k_user k' = \<lparr>USER_ENTRY = Some (ke_user_shell env), USER_STACK_TOP = (ke_user_stack env + USER_STACK_SIZE) AND NOT 0xF\<rparr>"
    by simp
  moreover have "kernel_main env dtb_pa k = Some (start_system env k3)"
    using assms(1-4) by (simp add: kernel_main_def Let_def)
  moreover have "map p_fds ps = replicate 5 standard_table"
    by (simp add: assms(6) boot_processes_def new_process_def Let_def numeral_eq_Suc)
  ultimately show ?thesis by simp
qed

definition demo_kernel_env :: "(unit, unit) kernel_env" where
  "demo_kernel_env = \<lparr>ke_board = Rpi5, ke_dev = null_dev, ke_clock = \<lparr>cntfrq_el0 = 0, cntpct_el0 = (\<lambda>d. (0, d))\<rparr>,
     ke_gpu = \<lparr>gp_dev = null_dev, gp_word = (\<lambda>d i. 0), gp_fill = (\<lambda>ws d. d)\<rparr>, ke_heap = demo_heap, ke_addrs = demo_addrs,
     ke_info = demo_info, ke_mbox = 0x90000, ke_stacks = 0x100000, ke_user_stack = 0x180000, ke_user_shell = 0x85000,
     ke_user_start = 0x85100, ke_idle_loop = 0x85200, ke_secondary_start = 0x80100\<rparr>"

definition demo_kernel :: "(unit, unit) kernel" where
  "demo_kernel = \<lparr>k_mm = demo_mm, k_procs = no_procs, k_console = None, k_kbd = rb_new,
     k_timer = \<lparr>TICK_TICKS = 0, cntp_tval = 0, cntp_ctl = 0\<rparr>, k_irq_masked = True,
     k_user = \<lparr>USER_ENTRY = None, USER_STACK_TOP = 0\<rparr>, k_secondary_table = replicate MAX_CPUS 0, k_dev = ()\<rparr>"

lemma demo_no_ram: "boot_limit (normalize (raw_map Rpi5 demo_info 0 None mm_new)) st = 0"
proof -
  have "usable_regions (normalize (raw_map Rpi5 demo_info 0 None mm_new)) = []" by code_simp
  then show ?thesis by (simp add: boot_limit_def)
qed

text \<open>The example boot, stage by stage: no device tree and no usable RAM.\<close>

lemma demo_boot:
  obtains k1 k3 where "early_uart demo_kernel_env 0 demo_kernel = Inr k1"
    and "mm_init (ke_board demo_kernel_env) (ke_addrs demo_kernel_env) (ke_info demo_kernel_env) (ke_heap demo_kernel_env) 0 (k_mm k1) =
      Inr (k_mm k1)"
    and "init_console demo_kernel_env 0 ((late_uart demo_kernel_env (k1\<lparr>k_mm := k_mm k1\<rparr>))\<lparr>k_procs :=
      proc_init (k_procs (late_uart demo_kernel_env (k1\<lparr>k_mm := k_mm k1\<rparr>)))\<rparr>) = Some (Inr k3)"
    and "length (k_secondary_table demo_kernel) = MAX_CPUS"
proof -
  let ?env = demo_kernel_env
  have env: "ke_board ?env = Rpi5" "ke_info ?env = demo_info" by (simp_all add: demo_kernel_env_def)
  obtain k1 where k1: "early_uart ?env 0 demo_kernel = Inr k1"
    by (simp add: early_uart_def env find_uart_def)
  have mm: "mm_init Rpi5 (ke_addrs ?env) demo_info (ke_heap ?env) 0 s = Inr s" for s :: "unit mm_state"
    by (simp add: mm_init_def dtb_parse_def board_uart_def find_uart_def configure_uart_def demo_no_ram)
  have con: "\<exists>k3. init_console ?env 0 k = Some (Inr k3)" for k :: "(unit, unit) kernel"
    by (simp add: init_console_def env try_console_def try_init_console_def find_simplefb_def split: prod.splits)
  show thesis using that [OF k1] mm con env by (fastforce simp: demo_kernel_def)
qed

section \<open>Properties\<close>





end
