(* ===== verification/System.thy ===== *)
theory System
  imports Pids Boot
begin

text \<open>
  The running kernel: what can happen after \<open>kernel_main\<close>. A step is an interrupt on some CPU, a supervisor
  call by the process a CPU runs, or the arrival of another CPU in \<open>secondary_rust_entry\<close>. Every step works on
  the whole kernel state through the view its handler has of it. The registers of a CPU, the content of its
  trap frame, the outcomes of \<open>try_lock\<close> and the user-side allocator are arbitrary at every step. A supervisor
  call that does not return is not a step: it never gives the kernel back.
\<close>

section \<open>Definitions\<close>

definition cpu_view :: "mmu_regs \<Rightarrow> timer_regs \<Rightarrow> bool \<Rightarrow> ('d, 'h) kernel \<Rightarrow> 'd cpu_state" where
  "cpu_view regs tm masked k =
     \<lparr>cs_procs = k_procs k, cs_regs = regs, cs_timer = tm, cs_irq_masked = masked, cs_kbd = k_kbd k, cs_dev = k_dev k\<rparr>"

definition put_cpu :: "'d cpu_state \<Rightarrow> ('d, 'h) kernel \<Rightarrow> ('d, 'h) kernel" where
  "put_cpu s k = k\<lparr>k_procs := cs_procs s, k_kbd := cs_kbd s, k_dev := cs_dev s\<rparr>"

definition sys_view :: "('d, 'h) kernel \<Rightarrow> ('d, 'h) sys" where
  "sys_view k =
     \<lparr>sy_procs = k_procs k,
      sy_io = \<lparr>io_console = k_console k, io_mem = ms_mem (k_mm k), io_uart = ms_uart (k_mm k), io_dev = k_dev k, io_kbd = k_kbd k\<rparr>,
      sy_heap = ms_heap (k_mm k)\<rparr>"

definition put_sys :: "('d, 'h) sys \<Rightarrow> ('d, 'h) kernel \<Rightarrow> ('d, 'h) kernel" where
  "put_sys s k =
     k\<lparr>k_procs := sy_procs s, k_console := io_console (sy_io s), k_dev := io_dev (sy_io s), k_kbd := io_kbd (sy_io s),
       k_mm := (k_mm k)\<lparr>ms_mem := io_mem (sy_io s), ms_uart := io_uart (sy_io s), ms_heap := sy_heap s\<rparr>\<rparr>"

definition sys_env_of :: "('d, 'h) kernel_env \<Rightarrow> 'h user_calls \<Rightarrow> bool \<Rightarrow> bool \<Rightarrow> ('d, 'h) sys_env" where
  "sys_env_of env uc console_free kbd_free =
     \<lparr>se_board = ke_board env, se_dev = ke_dev env, se_clock = ke_clock env, se_heap = ke_heap env, se_user = uc,
      se_el = 4, se_console_free = console_free, se_kbd_free = kbd_free\<rparr>"

inductive kernel_step :: "('d, 'h) kernel_env \<Rightarrow> ('d, 'h) kernel \<Rightarrow> ('d, 'h) kernel \<Rightarrow> bool" for env where
  ks_irq: "cpu < MAX_CPUS \<Longrightarrow>
    irq_handler (ke_board env) (ke_dev env) (ms_uart (k_mm k)) kbd_free cpu frame (cpu_view regs tm masked k) = Inr (s, nxt) \<Longrightarrow>
    kernel_step env k (put_cpu s k)"
| ks_svc: "cpu < MAX_CPUS \<Longrightarrow> drop_bit 26 esr AND 0x3f = 0x15 \<Longrightarrow>
    sync_handler (sys_env_of env uc console_free kbd_free) cpu esr tf (sys_view k) = Some (Inr (s, tf')) \<Longrightarrow>
    kernel_step env k (put_sys s k)"
| ks_secondary:
    "secondary_rust_entry (ke_board env) (ke_dev env) (ke_clock env) mpidr (ms_paging (k_mm k)) (cpu_view regs tm masked k) = Inr (s, r) \<Longrightarrow>
    kernel_step env k (put_cpu s k)"

section \<open>Every step is a step of the processes\<close>

text \<open>The processes of the kernel are in a state that the process operations can reach from \<open>process::init\<close>.\<close>

definition procs_reachable :: "proc_env \<Rightarrow> procs \<Rightarrow> bool" where
  "procs_reachable penv s \<longleftrightarrow> reachable (\<lambda>s. \<exists>s0. s = proc_init s0) (proc_step penv) s"

lemma procs_reachable_init: "procs_reachable penv (proc_init s)"
  by (auto simp: procs_reachable_def intro: reachable_init)

lemma procs_reachable_step: "procs_reachable penv s \<Longrightarrow> proc_step penv s t \<Longrightarrow> procs_reachable penv t"
  by (auto simp: procs_reachable_def intro: reachable_step)

lemma procs_reachable_inv: "procs_reachable penv s \<Longrightarrow> sched_inv s \<and> pid_inv s"
  unfolding procs_reachable_def using sched.reachable_inv pids.reachable_inv by blast

lemma timer_irq_step:
  assumes "timer_irq dev u kbd_free cpu frame s = Inr (s', nxt)" and "cpu < MAX_CPUS"
  shows "proc_step penv (cs_procs s) (cs_procs s')"
  using assms by (auto simp: timer_irq_def and_then_eq_Inr Let_def split: prod.splits intro: ps_tick)

lemma irq_step:
  assumes "irq_handler b dev u kbd_free cpu frame s = Inr (s', nxt)" and "cpu < MAX_CPUS"
  shows "cs_procs s' = cs_procs s \<or> proc_step penv (cs_procs s) (cs_procs s')"
  using assms timer_irq_step [OF _ assms(2), where penv = penv]
  by (cases b) (fastforce simp: irq_handler_def Let_def and_then_eq_Inr split: prod.splits option.splits if_splits)+

lemma irq_ok:
  assumes "sched_inv (cs_procs s)" and "cpu < MAX_CPUS"
  shows "\<exists>r. irq_handler b dev u kbd_free cpu frame s = Inr r"
proof -
  have t: "\<exists>s' nxt. timer_irq dev u kbd_free cpu frame (s\<lparr>cs_dev := d\<rparr>) = Inr (s', nxt)" for d
    using timer_irq_ok [of "s\<lparr>cs_dev := d\<rparr>" cpu dev u kbd_free frame] assms by auto
  show ?thesis
  proof (cases b)
    case Rpi5
    obtain irq d where "ack_irq dev (cs_dev s) = (irq, d)" by (metis surj_pair)
    with Rpi5 t [of d] show ?thesis by (auto simp: irq_handler_def Let_def split: option.splits)
  next
    case Qemu
    obtain pending d where "generic_timer_pending dev cpu (cs_dev s) = (pending, d)" by (metis surj_pair)
    with Qemu t [of d] show ?thesis by (auto simp: irq_handler_def Let_def)
  qed
qed

lemma cpu_id_less: "cpu_id mpidr < MAX_CPUS"
proof -
  have "mpidr AND 3 \<le> 3" by (rule word_and_le1)
  then show ?thesis by (simp add: cpu_id_def MAX_CPUS_def word_le_nat_alt)
qed

lemma init_per_cpu_procs [simp]: "cs_procs (init_per_cpu b dev clk cpu ms s) = cs_procs s"
  by (simp add: init_per_cpu_def Let_def split: board.split)

lemma secondary_step:
  assumes "secondary_rust_entry b dev clk mpidr ps s = Inr (s', r)"
  shows "proc_step penv (cs_procs s) (cs_procs s')"
  using assms ps_start [OF cpu_id_less] by (auto simp: secondary_rust_entry_def Let_def and_then_eq_Inr)

lemma kernel_step_reachable:
  assumes "kernel_step env k k'" and "procs_reachable penv (k_procs k)"
  shows "procs_reachable penv (k_procs k')"
  using assms
proof (induction rule: kernel_step.induct)
  case (ks_irq cpu k kbd_free frame regs tm masked s nxt)
  from irq_step [OF ks_irq(2,1), where penv = penv] ks_irq(3) show ?case
    by (auto simp: cpu_view_def put_cpu_def intro: procs_reachable_step)
next
  case (ks_svc cpu esr uc cf kf tf k s tf')
  have "sched_inv (sy_procs (sys_view k))" using ks_svc(4) procs_reachable_inv by (simp add: sys_view_def)
  from sync_handler_ok [OF this ks_svc(1,2), of "sys_env_of env uc cf kf" tf penv] ks_svc(3)
  have "proc_effect penv (sy_procs (sys_view k)) (sy_procs s)" by auto
  with ks_svc(4) show ?case by (auto simp: proc_effect_def sys_view_def put_sys_def intro: procs_reachable_step)
next
  case (ks_secondary mpidr k regs tm masked s r)
  from secondary_step [OF ks_secondary(1), where penv = penv] ks_secondary(2) show ?case
    by (auto simp: cpu_view_def put_cpu_def intro: procs_reachable_step)
qed

section \<open>The boot reaches the running kernel\<close>

lemma create_reachable:
  "procs_reachable penv s \<Longrightarrow> procs_reachable penv (fst (create_with_mode penv name start stack_top mode parent s))"
  by (rule procs_reachable_step [OF _ ps_create])

lemma create_idle_reachable:
  "create_idle penv idle n s = Inr s' \<Longrightarrow> procs_reachable penv s \<Longrightarrow> procs_reachable penv s'"
proof (induction n arbitrary: s)
  case (Suc n)
  from Suc.prems(1) obtain s1 parent pid where
    c: "create_with_mode penv ''idle'' idle 0 Kernel parent s = (s1, pid)" "create_idle penv idle n s1 = Inr s'"
    by (auto simp: create_def and_then_eq_Inr)
  from create_reachable [OF Suc.prems(2), of "''idle''" idle 0 Kernel parent] have "procs_reachable penv s1"
    by (simp add: c(1))
  with Suc.IH [OF c(2)] show ?case by blast
qed simp

lemma create_processes_reachable:
  assumes "create_processes penv shell_start idle s = Inr s'" and "procs_reachable penv s"
  shows "procs_reachable penv s'"
proof -
  from assms(1) obtain s1 parent pid where
    c: "create_with_mode penv ''shell'' shell_start 0 User parent s = (s1, pid)" "create_idle penv idle MAX_CPUS s1 = Inr s'"
    by (auto simp: create_processes_def create_user_def and_then_eq_Inr)
  from create_reachable [OF assms(2), of "''shell''" shell_start 0 User parent] have "procs_reachable penv s1"
    by (simp add: c(1))
  with create_idle_reachable [OF c(2)] show ?thesis .
qed

lemma standard_fds_reachable: "procs_reachable penv s \<Longrightarrow> procs_reachable penv (standard_fds s)"
  unfolding standard_fds_def Let_def by (intro procs_reachable_step [OF _ ps_set_init_fd])

lemma start_system_reachable:
  assumes "start_system env k = Inr (k', r)" and "procs_reachable (proc_env_of env k) (k_procs k)"
  shows "procs_reachable (proc_env_of env k) (k_procs k')"
proof -
  let ?penv = "proc_env_of env k"
  have penv: "proc_env_of env (k\<lparr>k_procs := p, k_user := u\<rparr>) = ?penv" for p u by (simp add: proc_env_of_def)
  from assms(1) obtain s procs regs regs' r' where c: "create_processes ?penv (ke_user_start env) (ke_idle_loop env) (standard_fds (k_procs k)) = Inr s"
    and st: "start_on_cpu 0 (s, regs) = Inr ((procs, regs'), r')" "k_procs k' = procs"
    by (auto simp: start_system_def Let_def and_then_eq_Inr penv split: prod.splits)
  have "procs_reachable ?penv s" using create_processes_reachable [OF c] standard_fds_reachable [OF assms(2)] by blast
  moreover have "proc_step ?penv s procs" using ps_start [OF _ st(1)] by (simp add: MAX_CPUS_def)
  ultimately show ?thesis unfolding st(2) by (rule procs_reachable_step)
qed

lemma kernel_main_reachable:
  assumes "kernel_main env dtb_pa k0 = Some (Inr (k, jump))"
  obtains penv where "procs_reachable penv (k_procs k)"
proof -
  from assms obtain k2 k3 where con: "init_console env dtb_pa (k2\<lparr>k_procs := proc_init (k_procs k2)\<rparr>) = Some (Inr k3)"
    and st: "start_system env k3 = Inr (k, jump)"
    by (auto simp: kernel_main_def Let_def and_then_eq_Inr split: sum.splits option.splits)
  have "k_procs k3 = proc_init (k_procs k2)" using init_console_keeps [OF con] by simp
  then have "procs_reachable (proc_env_of env k3) (k_procs k3)" by (simp add: procs_reachable_init)
  from that [OF start_system_reachable [OF st this]] show thesis .
qed

interpretation running: invariant_system "\<lambda>k. procs_reachable penv (k_procs k)" "kernel_step env"
  "\<lambda>k. procs_reachable penv (k_procs k)" for penv env
  by unfold_locales (auto intro: kernel_step_reachable)

text \<open>The example boot, followed by an interrupt on CPU 2.\<close>

lemma demo_run:
  obtains k1 jump k where "kernel_main demo_kernel_env 0 demo_kernel = Some (Inr (k1, jump))" and "kernel_step demo_kernel_env k1 k"
proof -
  obtain k0 k3 where "early_uart demo_kernel_env 0 demo_kernel = Inr k0"
    and "mm_init (ke_board demo_kernel_env) (ke_addrs demo_kernel_env) (ke_info demo_kernel_env) (ke_heap demo_kernel_env) 0 (k_mm k0) =
      Inr (k_mm k0)"
    and "init_console demo_kernel_env 0 ((late_uart demo_kernel_env (k0\<lparr>k_mm := k_mm k0\<rparr>))\<lparr>k_procs :=
      proc_init (k_procs (late_uart demo_kernel_env (k0\<lparr>k_mm := k_mm k0\<rparr>)))\<rparr>) = Some (Inr k3)"
    and "length (k_secondary_table demo_kernel) = MAX_CPUS" by (rule demo_boot)
  from kernel_main_ok [OF this(1,2) refl this(3,4) refl] obtain k1 jump
    where boot: "kernel_main demo_kernel_env 0 demo_kernel = Some (Inr (k1, jump))" by blast
  then obtain penv where "procs_reachable penv (k_procs k1)" by (rule kernel_main_reachable)
  then have "sched_inv (cs_procs (cpu_view cold_regs (k_timer k1) False k1))"
    using procs_reachable_inv by (simp add: cpu_view_def)
  moreover have cpu: "2 < MAX_CPUS" by (simp add: MAX_CPUS_def)
  ultimately obtain s nxt where "irq_handler (ke_board demo_kernel_env) (ke_dev demo_kernel_env) (ms_uart (k_mm k1)) True 2 0
      (cpu_view cold_regs (k_timer k1) False k1) = Inr (s, nxt)" using irq_ok by (metis surj_pair)
  then have "kernel_step demo_kernel_env k1 (put_cpu s k1)" by (rule ks_irq [OF cpu])
  with boot show thesis by (rule that)
qed

section \<open>Property\<close>



end
