(* ===== verification/Wellformed.thy ===== *)
theory Wellformed
  imports System
begin

text \<open>
  The arrays and indices of the running kernel. Rust fixes the length of an array in its type and checks every
  index; the model has lists, so that both are facts about reachable states: \<open>kernel_typed\<close> collects them, and
  every step keeps them. The second half is about what never changes: the processes \<open>kernel_main\<close> creates keep
  their slots, identifiers, entries, stacks, modes and page tables for as long as the kernel runs.
\<close>

section \<open>The process table\<close>

definition fds_typed :: "procs \<Rightarrow> bool" where
  "fds_typed s \<longleftrightarrow> length (INIT_FDS s) = MAX_FDS \<and> (\<forall>p. Some p \<in> set (slots (table s)) \<longrightarrow> length (p_fds p) = MAX_FDS)"

lemma profiles_fds:
  assumes "profiles t' = profiles t" and "\<forall>p. Some p \<in> set (slots t) \<longrightarrow> length (p_fds p) = n" and "Some q \<in> set (slots t')"
  shows "length (p_fds q) = n"
proof -
  obtain i where i: "i < length (slots t')" "slots t' ! i = Some q" using assms(3) by (metis in_set_conv_nth)
  have len: "length (slots t') = length (slots t)" using arg_cong [OF assms(1), of length] by (simp add: profiles_def)
  then have "map_option profile (slots t' ! i) = map_option profile (slots t ! i)"
    using arg_cong [OF assms(1), of "\<lambda>l. l ! i"] i(1) by (simp add: profiles_def)
  then obtain p where p: "slots t ! i = Some p" "profile p = profile q" using i(2) by (cases "slots t ! i") simp_all
  then have "Some p \<in> set (slots t)" using i(1) len nth_mem by metis
  with assms(2) p(2) show ?thesis by (auto simp: profile_def)
qed

lemma fds_typed_ids:
  assumes "ids (table s') = ids (table s)" and "INIT_FDS s' = INIT_FDS s" and "fds_typed s"
  shows "fds_typed s'"
  using assms profiles_fds [of "table s'" "table s" MAX_FDS] by (auto simp: fds_typed_def ids_def)

lemma tick_init_fds: "schedule_from_irq cpu frame (s, regs) = Inr ((s', regs'), r) \<Longrightarrow> INIT_FDS s' = INIT_FDS s"
  by (auto simp: schedule_from_irq_def res_simps Let_def split: option.splits)

lemma start_init_fds: "start_on_cpu cpu (s, regs) = Inr ((s', regs'), r) \<Longrightarrow> INIT_FDS s' = INIT_FDS s"
  by (auto simp: start_on_cpu_def res_simps Let_def split: option.splits)

lemma with_current_mut_init_fds: "with_current_mut cpu f s = Inr (s', r) \<Longrightarrow> INIT_FDS s' = INIT_FDS s"
  by (auto simp: with_current_mut_def res_simps split: if_splits option.splits prod.splits)

lemma fd_init_fds:
  "alloc_fd_current cpu desc s = Inr (s', r) \<Longrightarrow> INIT_FDS s' = INIT_FDS s"
  "close_fd_current cpu fd s = Inr (s', b) \<Longrightarrow> INIT_FDS s' = INIT_FDS s"
  by (auto simp: alloc_fd_current_def close_fd_current_def res_simps split: if_splits dest: with_current_mut_init_fds)

lemma create_fds_typed:
  assumes "fds_typed s"
  shows "fds_typed (fst (create_with_mode env name start stack_top mode parent s))"
proof -
  have inh: "length (inherited_fds s parent) = MAX_FDS"
    using assms find_pid_some [of "slots (table s)"]
    by (fastforce simp: inherited_fds_def fds_typed_def split: option.splits dest: nth_mem)
  show ?thesis using assms inh
    by (auto simp: fds_typed_def create_with_mode_def alloc_pid_def init_context_def Let_def split: option.splits
        dest!: set_update_subset_insert [THEN subsetD])
qed

lemma fds_typed_step: "proc_step env s t \<Longrightarrow> fds_typed s \<Longrightarrow> fds_typed t"
proof (induction rule: proc_step.induct)
  case (ps_create s name start stack_top mode parent)
  then show ?case by (rule create_fds_typed)
next
  case (ps_set_state s pid st)
  have "ids (table (fst (set_state pid st s))) = ids (table s)"
    by (auto simp: set_state_def update_slot_def ids_slot split: option.splits)
  moreover have "INIT_FDS (fst (set_state pid st s)) = INIT_FDS s"
    by (auto simp: set_state_def update_slot_def split: option.splits)
  ultimately show ?case using ps_set_state by (rule fds_typed_ids)
next
  case (ps_set_fd s pid fd desc)
  have "ids (table (fst (set_fd pid fd desc s))) = ids (table s)"
    by (auto simp: set_fd_def update_slot_def ids_slot split: option.splits)
  moreover have "INIT_FDS (fst (set_fd pid fd desc s)) = INIT_FDS s"
    by (auto simp: set_fd_def update_slot_def split: option.splits)
  ultimately show ?case using ps_set_fd by (rule fds_typed_ids)
next
  case (ps_set_init_fd s fd desc)
  then show ?case by (simp add: set_init_fd_def fds_typed_def)
next
  case (ps_tick cpu frame s regs s' regs' r)
  then show ?case using tick_ids tick_init_fds fds_typed_ids by blast
next
  case (ps_start cpu s regs s' regs' r)
  then show ?case using start_ids start_init_fds fds_typed_ids by blast
next
  case (ps_alloc_fd cpu desc s s' r)
  then show ?case using alloc_fd_ids fd_init_fds fds_typed_ids by blast
next
  case (ps_close_fd cpu fd s s' r)
  then show ?case using close_fd_ids fd_init_fds fds_typed_ids by blast
qed

interpretation fds: invariant_system "\<lambda>s. \<exists>s0. s = proc_init s0" "proc_step env" fds_typed for env
proof unfold_locales
  show "fds_typed s" if "\<exists>s0. s = proc_init s0" for s :: procs
    using that by (auto simp: proc_init_def fds_typed_def table_new_def)
qed (rule fds_typed_step)

section \<open>Devices\<close>

lemma rb_push_ok: "rb_ok buf \<Longrightarrow> rb_ok (fst (rb_push buf b))"
  using kbd.push_room [of buf b] kbd.push_full [of buf b] by (cases "length (rb_items buf) < BUF_SIZE") auto

lemma poll_loop_ok: "rb_ok buf \<Longrightarrow> poll_loop dev u spins buf d = (buf', d') \<Longrightarrow> rb_ok buf'"
proof (induction "BUF_SIZE - spins" arbitrary: spins buf d rule: less_induct)
  case less
  obtain r d1 where r: "read_byte_nonblocking dev u d = (r, d1)" by (metis surj_pair)
  show ?case
  proof (cases r)
    case None
    with less.prems r show ?thesis by (simp add: poll_loop.simps [of dev u spins])
  next
    case (Some b)
    obtain b1 ok where b1: "rb_push buf (if b = 13 then 10 else b) = (b1, ok)" by (metis surj_pair)
    with rb_push_ok [OF less.prems(1)] have ok1: "rb_ok b1" by (metis fst_conv)
    have eq: "poll_loop dev u spins buf d = (if \<not> ok \<or> spins + 1 \<ge> BUF_SIZE then (b1, d1) else poll_loop dev u (spins + 1) b1 d1)"
      using r Some b1 by (simp add: poll_loop.simps [of dev u spins])
    show ?thesis
    proof (cases "\<not> ok \<or> spins + 1 \<ge> BUF_SIZE")
      case True
      with eq less.prems(2) ok1 show ?thesis by simp
    next
      case False
      then have "BUF_SIZE - (spins + 1) < BUF_SIZE - spins" and "poll_loop dev u (spins + 1) b1 d1 = (buf', d')"
        using eq less.prems(2) by auto
      then show ?thesis using less.hyps ok1 by blast
    qed
  qed
qed

lemma poll_ok: "rb_ok buf \<Longrightarrow> poll free dev u buf d = (buf', d') \<Longrightarrow> rb_ok buf'"
  by (auto simp: poll_def dest: poll_loop_ok split: if_splits)

lemma kbd_read_ok:
  assumes "rb_ok buf" and "kbd_read free dev u out buf d = ((buf', out', n), d')"
  shows "rb_ok buf'"
proof -
  obtain b1 d1 where p: "poll free dev u buf d = (b1, d1)" by (metis surj_pair)
  with assms(2) have "read_loop out b1 [] 0 = (buf', out', n)" by (simp add: kbd_read_def)
  with read_loop_spec [OF poll_ok [OF assms(1) p]] show ?thesis by blast
qed

definition cursor_ok :: "console option \<Rightarrow> bool" where
  "cursor_ok con \<longleftrightarrow> (\<forall>c. con = Some c \<longrightarrow> con_col c < con_cols c \<and> con_row c < con_rows c)"


lemma put_char_cursor: "cursor_ok (Some c) \<Longrightarrow> put_char c b m = (c', m') \<Longrightarrow> cursor_ok (Some c')"
  by (auto simp: cursor_ok_def put_char_def newline_def Let_def split: if_splits)

lemma write_bytes_cursor: "cursor_ok (Some c) \<Longrightarrow> write_bytes bs c m = (c', m') \<Longrightarrow> cursor_ok (Some c')"
proof (induction bs arbitrary: c m)
  case (Cons b bs)
  then show ?case using put_char_cursor [of c b m] by (auto simp: con_write_byte_def split: prod.splits)
qed simp

lemma console_new_cursor: "cursor_ok (Some (console_new fb fg bg))"
  by (auto simp: cursor_ok_def console_new_def Let_def less_max_iff_disj)

lemma vfs_write_typed:
  "vfs_write b dev free desc buf io = Some (io', n) \<Longrightarrow>
    io_kbd io' = io_kbd io \<and> (cursor_ok (io_console io) \<longrightarrow> cursor_ok (io_console io'))"
  using write_bytes_cursor [of _ buf "io_mem io"]
  by (auto simp: vfs_write_def try_with_console_def with_console_def split: if_splits file_handle.splits prod.splits option.splits)

lemma vfs_read_typed:
  "vfs_read dev free desc buf io = (io', buf', n) \<Longrightarrow>
    io_console io' = io_console io \<and> (rb_ok (io_kbd io) \<longrightarrow> rb_ok (io_kbd io'))"
  by (auto simp: vfs_read_def dest: kbd_read_ok split: if_splits file_handle.splits prod.splits)

section \<open>System calls and interrupts\<close>

text \<open>What a system call keeps: the profiles of the processes, the keyboard buffer's shape, the cursor's bounds.\<close>

definition call_typed :: "('d, 'h) sys \<Rightarrow> ('d, 'h) sys \<Rightarrow> bool" where
  "call_typed s s' \<longleftrightarrow> ids (table (sy_procs s')) = ids (table (sy_procs s)) \<and>
     (rb_ok (io_kbd (sy_io s)) \<longrightarrow> rb_ok (io_kbd (sy_io s'))) \<and>
     (cursor_ok (io_console (sy_io s)) \<longrightarrow> cursor_ok (io_console (sy_io s')))"

lemma call_typed_refl: "call_typed s s"
  by (simp add: call_typed_def)

lemma with_heap_typed: "with_heap f s = (s', r) \<Longrightarrow> call_typed s s'"
  by (auto simp: with_heap_def call_typed_def split: prod.splits)

lemma ptr_result_typed: "ptr_result (with_heap f s) = Some (Inr (s', v)) \<Longrightarrow> call_typed s s'"
  by (auto simp: ptr_result_def dest: with_heap_typed split: prod.splits)

lemma free_at_typed: "free_at env ptr ly s = Some (Inr (s', v)) \<Longrightarrow> call_typed s s'"
  by (auto simp: free_at_def dest: with_heap_typed split: prod.splits)

lemma sys_open_typed: "sys_open cpu ptr len bits s = Some (Inr (s', v)) \<Longrightarrow> call_typed s s'"
  by (auto simp: sys_open_def call_typed_def and_then_eq_Inr dest!: alloc_fd_ids split: if_splits option.splits)

lemma sys_close_typed: "sys_close cpu fd s = Some (Inr (s', v)) \<Longrightarrow> call_typed s s'"
  by (auto simp: sys_close_def call_typed_def and_then_eq_Inr dest: close_fd_ids)

lemma sys_read_typed: "sys_read env cpu fd ptr len s = Some (Inr (s', v)) \<Longrightarrow> call_typed s s'"
  by (auto simp: sys_read_def call_typed_def dest: vfs_read_typed split: if_splits sum.splits option.splits prod.splits)

lemma sys_write_typed: "sys_write env cpu fd ptr len s = Some (Inr (s', v)) \<Longrightarrow> call_typed s s'"
  by (auto simp: sys_write_def call_typed_def dest: vfs_write_typed split: if_splits sum.splits option.splits prod.splits)

lemma sys_sleep_typed: "sys_sleep_ms env ms s = Some (Inr (s', v)) \<Longrightarrow> call_typed s s'"
  by (auto simp: sys_sleep_ms_def call_typed_def split: option.splits)

lemma sys_heap_typed:
  "sys_alloc env sz align s = Some (Inr (s', v)) \<Longrightarrow> call_typed s s'"
  "sys_free env ptr sz align s = Some (Inr (s', v)) \<Longrightarrow> call_typed s s'"
  "sys_realloc env ptr old_size new_size align s = Some (Inr (s', v)) \<Longrightarrow> call_typed s s'"
  by (auto simp: sys_alloc_def sys_free_def sys_realloc_def call_typed_refl dest: ptr_result_typed free_at_typed
      split: if_splits option.splits)

lemmas sys_typed = sys_open_typed sys_close_typed sys_read_typed sys_write_typed sys_sleep_typed sys_heap_typed

lemma dispatch_typed: "dispatch_syscall env cpu x s = Some (Inr (s', v)) \<Longrightarrow> call_typed s s'"
  by (auto simp: dispatch_syscall_def Let_def call_typed_refl dest: sys_typed split: if_splits)

lemma sync_handler_typed: "sync_handler env cpu esr tf s = Some (Inr (s', tf')) \<Longrightarrow> call_typed s s'"
  by (auto simp: sync_handler_def Let_def and_then_eq_Inr dest: dispatch_typed split: if_splits option.splits)

lemma timer_irq_typed:
  assumes "timer_irq dev u kbd_free cpu frame s = Inr (s', nxt)"
  shows "ids (table (cs_procs s')) = ids (table (cs_procs s)) \<and> (rb_ok (cs_kbd s) \<longrightarrow> rb_ok (cs_kbd s'))"
  using assms by (auto simp: timer_irq_def and_then_eq_Inr Let_def dest: tick_ids poll_ok split: prod.splits)

lemma irq_typed:
  assumes "irq_handler b dev u kbd_free cpu frame s = Inr (s', nxt)"
  shows "ids (table (cs_procs s')) = ids (table (cs_procs s)) \<and> (rb_ok (cs_kbd s) \<longrightarrow> rb_ok (cs_kbd s'))"
  using assms timer_irq_typed [of dev u kbd_free cpu frame]
  by (cases b) (fastforce simp: irq_handler_def Let_def and_then_eq_Inr split: prod.splits option.splits if_splits)+

lemma init_per_cpu_kbd [simp]: "cs_kbd (init_per_cpu b dev clk cpu ms s) = cs_kbd s"
  by (simp add: init_per_cpu_def Let_def split: board.split)

lemma secondary_typed:
  assumes "secondary_rust_entry b dev clk mpidr ps s = Inr (s', r)"
  shows "ids (table (cs_procs s')) = ids (table (cs_procs s)) \<and> cs_kbd s' = cs_kbd s"
  using assms by (auto simp: secondary_rust_entry_def Let_def and_then_eq_Inr dest: start_ids)

section \<open>The running kernel\<close>

definition devices_typed :: "('d, 'h) kernel \<Rightarrow> bool" where
  "devices_typed k \<longleftrightarrow> rb_ok (k_kbd k) \<and> cursor_ok (k_console k) \<and> length (k_secondary_table k) = MAX_CPUS"

lemma kernel_step_typed:
  assumes "kernel_step env k k'"
  shows "ids (table (k_procs k')) = ids (table (k_procs k)) \<and> ms_paging (k_mm k') = ms_paging (k_mm k) \<and>
    (devices_typed k \<longrightarrow> devices_typed k')"
  using assms
proof (induction rule: kernel_step.induct)
  case (ks_irq cpu k kbd_free frame regs tm masked s nxt)
  from irq_typed [OF ks_irq(2)] show ?case by (simp add: cpu_view_def put_cpu_def devices_typed_def)
next
  case (ks_svc cpu esr uc cf kf tf k s tf')
  from sync_handler_typed [OF ks_svc(3)] show ?case by (simp add: call_typed_def sys_view_def put_sys_def devices_typed_def)
next
  case (ks_secondary mpidr k regs tm masked s r)
  from secondary_typed [OF ks_secondary] show ?case by (simp add: cpu_view_def put_cpu_def devices_typed_def)
qed

interpretation devices: invariant_system devices_typed "kernel_step env" devices_typed for env
  by unfold_locales (use kernel_step_typed in blast)+

text \<open>What no step changes.\<close>

definition constants :: "('d, 'h) kernel \<Rightarrow> _" where
  "constants k = (ids (table (k_procs k)), ms_paging (k_mm k))"

interpretation persistent: invariant_system "\<lambda>k. constants k = x" "kernel_step env" "\<lambda>k. constants k = x" for env x
  by unfold_locales (auto simp: constants_def dest!: kernel_step_typed)

section \<open>From the boot to the running kernel\<close>

text \<open>The stages of a boot that reaches the first process.\<close>

lemma kernel_main_stages:
  assumes "kernel_main env dtb_pa k0 = Some (Inr (k, jump))"
  obtains k1 mm k3 where "early_uart env dtb_pa k0 = Inr k1"
    and "init_console env dtb_pa ((late_uart env (k1\<lparr>k_mm := mm\<rparr>))\<lparr>k_procs := proc_init (k_procs (late_uart env (k1\<lparr>k_mm := mm\<rparr>)))\<rparr>) = Some (Inr k3)"
    and "start_system env k3 = Inr (k, jump)"
proof -
  from assms show thesis using that
    by (auto simp: kernel_main_def Let_def and_then_eq_Inr split: sum.splits option.splits)
qed

lemma bring_up_uart_devices [simp]: "k_kbd (bring_up_uart env u k) = k_kbd k" "k_console (bring_up_uart env u k) = k_console k"
  by (simp_all add: bring_up_uart_def split: prod.splits)

lemma early_uart_devices: "early_uart env dtb_pa k = Inr k1 \<Longrightarrow> devices_typed k \<Longrightarrow> devices_typed k1"
  by (cases "ke_board env") (auto simp: early_uart_def Let_def and_then_eq_Inr devices_typed_def)

lemma late_uart_devices: "devices_typed k \<Longrightarrow> devices_typed (late_uart env (k\<lparr>k_mm := mm\<rparr>))"
  by (simp add: late_uart_def devices_typed_def split: board.split)

lemma try_modes_cursor: "cursor_ok (dp_console s) \<Longrightarrow> try_modes b g mbox modes s = (s', ok) \<Longrightarrow> cursor_ok (dp_console s')"
proof (induction b g mbox modes s rule: try_modes.induct)
  case (2 b g mbox w h modes s)
  obtain s1 r where i: "init_console_with_mode b g mbox w h 0x00FFFFFF 0x00000000 s = (s1, r)" by (metis surj_pair)
  then have "cursor_ok (dp_console s1)" using "2.prems"(1) console_new_cursor
    by (auto simp: init_console_with_mode_def install_console_def split: prod.splits sum.splits)
  with i "2.IH" [of s1] "2.prems"(2) show ?case by (cases r) auto
qed simp

lemma simplefb_cursor:
  "init_console_from_simplefb info fg bg s = (s', r) \<Longrightarrow> cursor_ok (dp_console s) \<Longrightarrow> cursor_ok (dp_console s')"
  by (auto simp: init_console_from_simplefb_def install_console_def console_new_cursor split: sum.splits)

lemma try_init_console_cursor:
  assumes "try_init_console b g mbox dtb_pa s = Inr (s', ok)" and "cursor_ok (dp_console s)"
  shows "cursor_ok (dp_console s')"
proof -
  obtain f where f: "find_simplefb (dp_mem s) dtb_pa = Inr f" using assms(1) by (cases "find_simplefb (dp_mem s) dtb_pa") (simp_all add: try_init_console_def)
  show ?thesis
  proof (cases f)
    case None
    with assms f show ?thesis by (auto simp: try_init_console_def Let_def dest: try_modes_cursor simp del: try_modes.simps)
  next
    case (Some info)
    obtain s1 r where i: "init_console_from_simplefb info 0x00FFFFFF 0x00000000 s = (s1, r)" by (metis surj_pair)
    note c = simplefb_cursor [OF i assms(2)]
    from assms(1) f Some i c show ?thesis
      by (cases r) (auto simp: try_init_console_def Let_def dest: try_modes_cursor simp del: try_modes.simps)
  qed
qed

lemma try_console_devices: "try_console env dtb_pa k = Inr (k', ok) \<Longrightarrow> devices_typed k \<Longrightarrow> devices_typed k'"
  by (auto simp: try_console_def and_then_eq_Inr devices_typed_def dest: try_init_console_cursor)

lemma console_loop_devices:
  assumes "console_loop env dtb_pa k = Some r"
  shows "r = Inr k' \<Longrightarrow> devices_typed k \<Longrightarrow> devices_typed k'"
proof (induction rule: console_loop.raw_induct [OF _ assms])
  case (1 f env dtb_pa k r)
  note ih = 1(1) and body = 1(2) and r = 1(3)
  obtain k1 ok where t: "try_console env dtb_pa k = Inr (k1, ok)"
    using body r by (cases "try_console env dtb_pa k") auto
  note k1 = try_console_devices [OF t 1(4)]
  show ?case
  proof (cases ok)
    case True
    with body r t k1 show ?thesis by simp
  next
    case False
    then obtain d where "f env dtb_pa (k1\<lparr>k_dev := d\<rparr>) = Some r" using body t by (auto split: option.splits)
    from ih [OF this r] k1 show ?thesis by (simp add: devices_typed_def)
  qed
qed

lemma init_console_devices:
  "init_console env dtb_pa k = Some (Inr k') \<Longrightarrow> devices_typed k \<Longrightarrow> devices_typed k'"
  by (cases "ke_board env") (auto simp: init_console_def and_then_eq_Inr dest: console_loop_devices try_console_devices)

lemma start_system_devices:
  assumes "start_system env k = Inr (k', r)" and "devices_typed k"
  shows "devices_typed k' \<and> ms_paging (k_mm k') = ms_paging (k_mm k)"
  using assms by (auto simp: start_system_def Let_def and_then_eq_Inr devices_typed_def start_secondary_cores_def res_simps
      split: prod.splits)

text \<open>The slots of a booted kernel hold the processes of \<open>boot_processes\<close>, as they were created.\<close>

lemma start_system_profiles:
  assumes "start_system env k = Inr (k', r)" and "k_procs k = proc_init s0"
  shows "profiles (table (k_procs k')) =
    map (Some \<circ> profile) (boot_processes (proc_env_of env k) (ke_user_start env) (ke_idle_loop env)) @ replicate (MAX_PROCS - 5) None"
proof -
  let ?penv = "proc_env_of env k" and ?ps = "boot_processes (proc_env_of env k) (ke_user_start env) (ke_idle_loop env)"
  have penv: "proc_env_of env (k\<lparr>k_procs := p, k_user := u\<rparr>) = ?penv" for p u by (simp add: proc_env_of_def)
  from assms obtain s procs regs regs' r' where c: "create_processes ?penv (ke_user_start env) (ke_idle_loop env) (standard_fds (proc_init s0)) = Inr s"
    and st: "start_on_cpu 0 (s, regs) = Inr ((procs, regs'), r')" "k_procs k' = procs"
    by (auto simp: start_system_def Let_def and_then_eq_Inr penv split: prod.splits)
  have "booted standard_table ?ps s" using boot_processes_booted [of ?penv "ke_user_start env" "ke_idle_loop env" s0] c by auto
  then have "profiles (table s) = map (Some \<circ> profile) ?ps @ replicate (MAX_PROCS - 5) None"
    by (simp add: booted_def profiles_def)
  with start_ids [OF st(1)] st(2) show ?thesis by (simp add: ids_def)
qed

section \<open>Properties\<close>

definition kernel_typed :: "('d, 'h) kernel \<Rightarrow> bool" where
  "kernel_typed k \<longleftrightarrow>
     length (slots (table (k_procs k))) = MAX_PROCS \<and> rq_ok (run_queue (table (k_procs k))) \<and>
     length (CURRENT (k_procs k)) = MAX_CPUS \<and>
     (\<forall>c\<in>set (CURRENT (k_procs k)). c = INVALID_IDX \<or> c < MAX_PROCS \<and> slots (table (k_procs k)) ! c \<noteq> None) \<and>
     fds_typed (k_procs k) \<and> devices_typed k"

text \<open>
  C10. The kernel's data stay well formed. If the statics of the image have the shape their types give them,
  then in every state that interrupts, system calls and arriving CPUs can lead to after \<open>kernel_main\<close> each
  array has its length, the indices of the run queue and the keyboard buffer are in range, the entry of
  each CPU is the sentinel or the index of an occupied slot, each process has eight descriptors, and the
  cursor of the console lies on its grid.
\<close>

theorem booted_kernel_typed:
  assumes "kernel_main env dtb_pa k0 = Some (Inr (k1, jump))" and "(kernel_step env)\<^sup>*\<^sup>* k1 k" and "devices_typed k0"
  shows "kernel_typed k"
proof -
  obtain ke mm k3 where k3: "early_uart env dtb_pa k0 = Inr ke"
    "init_console env dtb_pa ((late_uart env (ke\<lparr>k_mm := mm\<rparr>))\<lparr>k_procs := proc_init (k_procs (late_uart env (ke\<lparr>k_mm := mm\<rparr>)))\<rparr>) = Some (Inr k3)"
    "start_system env k3 = Inr (k1, jump)" by (rule kernel_main_stages [OF assms(1)])
  have "devices_typed ((late_uart env (ke\<lparr>k_mm := mm\<rparr>))\<lparr>k_procs := p\<rparr>)" for p
    using late_uart_devices [OF early_uart_devices [OF k3(1) assms(3)]] by (simp add: devices_typed_def)
  then have "devices_typed k1" using start_system_devices [OF k3(3) init_console_devices [OF k3(2)]] by blast
  then have dev: "devices_typed k" by (rule devices.steps_inv [OF assms(2)])
  obtain penv where "procs_reachable penv (k_procs k1)" using kernel_main_reachable [OF assms(1)] .
  then have reach: "procs_reachable penv (k_procs k)" by (rule running.steps_inv [OF assms(2)])
  then have inv: "sched_inv (k_procs k)" and fds: "fds_typed (k_procs k)"
    using procs_reachable_inv fds.reachable_inv unfolding procs_reachable_def by blast+
  have "c = INVALID_IDX \<or> c < MAX_PROCS \<and> slots (table (k_procs k)) ! c \<noteq> None" if c: "c \<in> set (CURRENT (k_procs k))" for c
  proof -
    obtain cpu where "cpu < MAX_CPUS" "CURRENT (k_procs k) ! cpu = c"
      using c sched_inv_lengths [OF inv] by (metis in_set_conv_nth)
    then show ?thesis using sched_inv_current [OF inv] by blast
  qed
  then show ?thesis using dev fds inv sched_inv_lengths [OF inv] by (simp add: kernel_typed_def sched_inv_def queue_inv_def)
qed

theorem booted_kernel_typed_witness:
  "\<exists>k1 jump k. kernel_main demo_kernel_env 0 demo_kernel = Some (Inr (k1, jump)) \<and> kernel_step demo_kernel_env k1 k \<and> kernel_typed k"
proof -
  obtain k1 jump k where run: "kernel_main demo_kernel_env 0 demo_kernel = Some (Inr (k1, jump))" "kernel_step demo_kernel_env k1 k"
    by (rule demo_run)
  have "devices_typed demo_kernel" by (simp add: devices_typed_def demo_kernel_def cursor_ok_def)
  from booted_kernel_typed [OF run(1) r_into_rtranclp [of "kernel_step demo_kernel_env", OF run(2)] this] run
  show ?thesis by blast
qed

text \<open>The stack of a process in slot \<open>i\<close>, as the addresses below its top.\<close>

definition stack_of :: "process \<Rightarrow> nat set" where
  "stack_of p = {unat (p_stack_top p) - unat STACK_SIZE..<unat (p_stack_top p)}"

lemma unat_of_nat_u64: "n < 2 ^ 64 \<Longrightarrow> unat (of_nat n :: u64) = n"
  by (simp add: unat_of_nat)

lemma stack_top_at:
  assumes "unat base + 64 * 524288 < 2 ^ 64" and "i < 64"
  shows "unat (base + of_nat i * STACK_SIZE + STACK_SIZE) = unat base + (i + 1) * 524288"
proof -
  have "base + of_nat i * STACK_SIZE + STACK_SIZE = of_nat (unat base + (i + 1) * 524288)"
    by (simp add: STACK_SIZE_def algebra_simps)
  moreover have "unat base + (i + 1) * 524288 < 2 ^ 64" using assms by simp
  ultimately show ?thesis using unat_of_nat_u64 by metis
qed

lemma boot_process_nth:
  assumes "i < 5"
  shows "boot_processes penv a b ! i = new_process penv standard_table i (if i = 0 then ''shell'' else ''idle'')
    (if i = 0 then a else b) (if i = 0 then User else Kernel)"
proof -
  have "i = 0 \<or> i = 1 \<or> i = 2 \<or> i = 3 \<or> i = 4" using assms by auto
  then show ?thesis by (auto simp: boot_processes_def)
qed

text \<open>What a slot of the running kernel holds.\<close>

lemma boot_slot:
  assumes main: "kernel_main env dtb_pa k0 = Some (Inr (k1, jump))" and steps: "(kernel_step env)\<^sup>*\<^sup>* k1 k"
    and fits: "unat (ke_stacks env) + 64 * 524288 < 2 ^ 64" and i: "i < MAX_PROCS"
  shows "case slots (table (k_procs k)) ! i of
      None \<Rightarrow> 5 \<le> i
    | Some p \<Rightarrow> i < 5 \<and> unat (p_id p) = i + 1 \<and>
        p_entry p = (if i = 0 then ke_user_start env else ke_idle_loop env) \<and> p_mode p = (if i = 0 then User else Kernel) \<and>
        p_ttbr0 p = USER_ROOT_PA (ms_paging (k_mm k)) \<and> unat (p_stack_top p) = unat (ke_stacks env) + (i + 1) * 524288"
proof -
  obtain ke mm k3 where k3:
    "init_console env dtb_pa ((late_uart env (ke\<lparr>k_mm := mm\<rparr>))\<lparr>k_procs := proc_init (k_procs (late_uart env (ke\<lparr>k_mm := mm\<rparr>)))\<rparr>) = Some (Inr k3)"
    "start_system env k3 = Inr (k1, jump)" by (rule kernel_main_stages [OF main])
  let ?ps = "boot_processes (proc_env_of env k3) (ke_user_start env) (ke_idle_loop env)"
  have "profiles (table (k_procs k1)) = map (Some \<circ> profile) ?ps @ replicate (MAX_PROCS - 5) None"
    using start_system_profiles [OF k3(2)] init_console_keeps [OF k3(1)] by simp
  moreover have pg: "ms_paging (k_mm k1) = ms_paging (k_mm k3)"
    using k3(2) by (auto simp: start_system_def Let_def and_then_eq_Inr split: prod.splits)
  moreover have "constants k = constants k1" by (rule persistent.steps_inv [OF steps refl])
  ultimately have prof: "profiles (table (k_procs k)) = map (Some \<circ> profile) ?ps @ replicate (MAX_PROCS - 5) None"
    and root: "USER_ROOT_PA (ms_paging (k_mm k3)) = USER_ROOT_PA (ms_paging (k_mm k))"
    by (simp_all add: constants_def ids_def)
  have "length (slots (table (k_procs k))) = MAX_PROCS"
    using arg_cong [OF prof, of length] by (simp add: profiles_def MAX_PROCS_def)
  then have "map_option profile (slots (table (k_procs k)) ! i) = (if i < 5 then Some (profile (?ps ! i)) else None)"
    using arg_cong [OF prof, of "\<lambda>l. l ! i"] i by (simp add: profiles_def nth_append)
  moreover have "profile (?ps ! i) = profile p \<Longrightarrow> unat (p_id p) = i + 1 \<and>
      p_entry p = (if i = 0 then ke_user_start env else ke_idle_loop env) \<and> p_mode p = (if i = 0 then User else Kernel) \<and>
      p_ttbr0 p = USER_ROOT_PA (ms_paging (k_mm k)) \<and> unat (p_stack_top p) = unat (ke_stacks env) + (i + 1) * 524288"
    if "i < 5" for p
  proof -
    assume eq: "profile (?ps ! i) = profile p"
    have "p_id p = of_nat i + 1" and "p_stack_top p = ke_stacks env + of_nat i * STACK_SIZE + STACK_SIZE"
      and "p_entry p = (if i = 0 then ke_user_start env else ke_idle_loop env)" and "p_mode p = (if i = 0 then User else Kernel)"
      and "p_ttbr0 p = USER_ROOT_PA (ms_paging (k_mm k))"
      using eq boot_process_nth [OF that, of "proc_env_of env k3" "ke_user_start env" "ke_idle_loop env"] root
      by (simp_all add: profile_def new_process_def proc_env_of_def Let_def)
    moreover have "unat (of_nat i + 1 :: u32) = i + 1" using that by (simp add: unat_word_ariths unat_of_nat)
    ultimately show ?thesis using stack_top_at [OF fits, of i] that by simp
  qed
  ultimately show ?thesis by (cases "slots (table (k_procs k)) ! i") (auto split: if_splits)
qed

text \<open>
  C11. The processes of the boot are all there ever is, and each keeps what it was created with. In every
  state after \<open>kernel_main\<close>, slot 0 holds the shell with pid 1 and slots 1 to 4 the idle processes with pids
  2 to 5, in the mode, at the entry, on the page tables and on the stack \<open>kernel_main\<close> gave them; the other slots are
  empty, and no two stacks overlap.
\<close>

theorem boot_processes_persist:
  assumes "kernel_main env dtb_pa k0 = Some (Inr (k1, jump))" and "(kernel_step env)\<^sup>*\<^sup>* k1 k"
    and "unat (ke_stacks env) + MAX_PROCS * unat STACK_SIZE < 2 ^ 64" and "i < MAX_PROCS"
  shows "case slots (table (k_procs k)) ! i of
      None \<Rightarrow> 5 \<le> i
    | Some p \<Rightarrow> i < 5 \<and> unat (p_id p) = i + 1 \<and>
        p_entry p = (if i = 0 then ke_user_start env else ke_idle_loop env) \<and> p_mode p = (if i = 0 then User else Kernel) \<and>
        p_ttbr0 p = USER_ROOT_PA (ms_paging (k_mm k)) \<and>
        unat (p_stack_top p) = unat (ke_stacks env) + (i + 1) * unat STACK_SIZE \<and>
        (\<forall>j<MAX_PROCS. \<forall>q. j \<noteq> i \<and> slots (table (k_procs k)) ! j = Some q \<longrightarrow> stack_of p \<inter> stack_of q = {})"
proof (cases "slots (table (k_procs k)) ! i")
  case None
  with boot_slot [OF assms(1,2) _ assms(4)] assms(3) show ?thesis by (simp add: MAX_PROCS_def STACK_SIZE_def)
next
  case (Some p)
  have fits: "unat (ke_stacks env) + 64 * 524288 < 2 ^ 64" using assms(3) by (simp add: MAX_PROCS_def STACK_SIZE_def)
  have st: "stack_of q = {unat (ke_stacks env) + j * 524288..<unat (ke_stacks env) + (j + 1) * 524288}"
    if "j < MAX_PROCS" "slots (table (k_procs k)) ! j = Some q" for j q
    using boot_slot [OF assms(1,2) fits that(1)] that(2) by (simp add: stack_of_def STACK_SIZE_def)
  have "stack_of p \<inter> stack_of q = {}" if "j < MAX_PROCS" "j \<noteq> i" "slots (table (k_procs k)) ! j = Some q" for j q
  proof -
    have "(i + 1) * 524288 \<le> j * 524288 \<or> (j + 1) * 524288 \<le> i * 524288" using that(2) by auto
    then show ?thesis unfolding st [OF assms(4) Some] st [OF that(1,3)] by auto
  qed
  with boot_slot [OF assms(1,2) fits assms(4)] Some show ?thesis by (simp add: STACK_SIZE_def)
qed

theorem boot_processes_persist_witness:
  "\<exists>k1 jump k. kernel_main demo_kernel_env 0 demo_kernel = Some (Inr (k1, jump)) \<and> kernel_step demo_kernel_env k1 k \<and>
     (\<exists>p. slots (table (k_procs k)) ! 0 = Some p \<and> p_entry p = 0x85100 \<and> unat (p_stack_top p) = 0x180000) \<and>
     slots (table (k_procs k)) ! 5 = None"
proof -
  obtain k1 jump k where run: "kernel_main demo_kernel_env 0 demo_kernel = Some (Inr (k1, jump))" "kernel_step demo_kernel_env k1 k"
    by (rule demo_run)
  have fits: "unat (ke_stacks demo_kernel_env) + MAX_PROCS * unat STACK_SIZE < 2 ^ 64"
    by (simp add: demo_kernel_env_def MAX_PROCS_def STACK_SIZE_def)
  note persist = boot_processes_persist [OF run(1) r_into_rtranclp [of "kernel_step demo_kernel_env", OF run(2)] fits]
  from persist [of 0] persist [of 5] run show ?thesis
    by (auto simp: demo_kernel_env_def MAX_PROCS_def STACK_SIZE_def split: option.splits)
qed

end
