(* ===== verification/Session.thy ===== *)
theory Session
  imports Shell Boot
begin

text \<open>
  The shell on the running system: the program of \<open>src/user/shell.rs\<close> with its reads, writes and sleeps carried
  out by the wrappers of \<open>src/kernel/user.rs\<close> and the system calls behind them, down to the keyboard buffer and
  the serial port. When \<open>try_init_console\<close> of \<open>src/main.rs\<close> found no framebuffer, the standard output goes to
  the serial port, and a session is a dialogue on that port. \<open>buf\<close> is the address of the program's one-byte
  buffer, \<open>str\<close> the address of the text it writes, whose bytes the program has put there before the call.
\<close>

section \<open>Definitions\<close>

definition perform ::
  "('d, 'h) sys_env \<Rightarrow> nat \<Rightarrow> trap_frame \<Rightarrow> usize \<Rightarrow> shell_call \<Rightarrow> ('d, 'h) sys \<Rightarrow> ('d, 'h) outcome" where
  "perform env cpu tf str c s =
     (case c of
        Write bs \<Rightarrow>
          user_write_bytes env cpu tf (of_nat FD_STDOUT) (str, of_nat (length bs))
            (s\<lparr>sy_io := (sy_io s)\<lparr>io_mem := store_slice (io_mem (sy_io s)) str bs\<rparr>\<rparr>)
      | Sleep ms \<Rightarrow> user_sleep_ms env cpu tf ms s)"

fun perform_all ::
  "('d, 'h) sys_env \<Rightarrow> nat \<Rightarrow> trap_frame \<Rightarrow> usize \<Rightarrow> shell_call list \<Rightarrow> ('d, 'h) sys \<Rightarrow> ('d, 'h) sys res option" where
  "perform_all env cpu tf str [] s = Some (Inr s)"
| "perform_all env cpu tf str (c # cs) s =
     (case perform env cpu tf str c s of
        None \<Rightarrow> None
      | Some (Inl e) \<Rightarrow> Some (Inl e)
      | Some (Inr (s', r)) \<Rightarrow> perform_all env cpu tf str cs s')"

text \<open>\<open>n\<close> turns of the inner loop: read one byte, edit the line, write.\<close>

fun session_turns ::
  "('d, 'h) sys_env \<Rightarrow> nat \<Rightarrow> trap_frame \<Rightarrow> usize \<Rightarrow> usize \<Rightarrow> nat \<Rightarrow> shell \<Rightarrow> ('d, 'h) sys \<Rightarrow>
   (shell \<times> ('d, 'h) sys) res option" where
  "session_turns env cpu tf buf str 0 sh s = Some (Inr (sh, s))"
| "session_turns env cpu tf buf str (Suc n) sh s =
     (case user_read env cpu tf (of_nat FD_STDIN) (buf, 1) s of
        None \<Rightarrow> None
      | Some (Inl e) \<Rightarrow> Some (Inl e)
      | Some (Inr (s1, r)) \<Rightarrow>
          (case shell_iter (r, io_mem (sy_io s1) buf) sh of (sh', cs) \<Rightarrow>
             case perform_all env cpu tf str cs s1 of
               None \<Rightarrow> None
             | Some (Inl e) \<Rightarrow> Some (Inl e)
             | Some (Inr s2) \<Rightarrow> session_turns env cpu tf buf str n sh' s2))"

definition session ::
  "('d, 'h) sys_env \<Rightarrow> nat \<Rightarrow> trap_frame \<Rightarrow> usize \<Rightarrow> usize \<Rightarrow> nat \<Rightarrow> ('d, 'h) sys \<Rightarrow>
   (shell \<times> ('d, 'h) sys) res option" where
  "session env cpu tf buf str n s =
     (case shell_prompt [] of (sh, prompt) \<Rightarrow>
        case perform_all env cpu tf str prompt s of
          None \<Rightarrow> None
        | Some (Inl e) \<Rightarrow> Some (Inl e)
        | Some (Inr s1) \<Rightarrow> session_turns env cpu tf buf str n sh s1)"

section \<open>One read and one write\<close>

text \<open>A process that reads from the keyboard and whose output falls through to the serial port.\<close>

definition on_serial ::
  "('d, 'h) sys_env \<Rightarrow> nat \<Rightarrow> ('d \<Rightarrow> u8 list) \<Rightarrow> ('d \<Rightarrow> u8 list) \<Rightarrow> ('d \<Rightarrow> nat) \<Rightarrow> ('d, 'h) sys \<Rightarrow> bool" where
  "on_serial env cpu rx tx busy s \<longleftrightarrow>
     (\<exists>d. get_fd_current cpu FD_STDIN (sy_procs s) = Inr (Some d) \<and> fd_handle d = DevKbd0 \<and> of_read (fd_flags d)) \<and>
     (\<exists>d. get_fd_current cpu FD_STDOUT (sy_procs s) = Inr (Some d) \<and> fd_handle d = DevFb0 \<and> of_write (fd_flags d)) \<and>
     io_console (sy_io s) = None \<and> se_kbd_free env \<and> rb_ok (io_kbd (sy_io s)) \<and>
     port_of (io_uart (sy_io s)) (se_dev env) rx tx busy"

text \<open>What the user typed ahead, as the program will read it, and what is on the wire.\<close>

definition pending :: "('d \<Rightarrow> u8 list) \<Rightarrow> ('d, 'h) sys \<Rightarrow> u8 list" where
  "pending rx s = rb_items (io_kbd (sy_io s)) @ map cr_to_lf (rx (io_dev (sy_io s)))"

abbreviation wire :: "('d \<Rightarrow> u8 list) \<Rightarrow> ('d, 'h) sys \<Rightarrow> u8 list" where
  "wire tx s \<equiv> tx (io_dev (sy_io s))"

lemma store_slice_read: "length bs < 2 ^ 64 \<Longrightarrow> raw_slice (store_slice m q bs) q (length bs) = bs"
  by (intro nth_equalityI) (simp_all add: raw_slice_def store_slice_def unat_of_nat)

lemma kbd_read_one:
  assumes "port_of u dev rx tx busy" and "rb_ok kbd" and "rb_items kbd @ map cr_to_lf (rx d) = b # bs" and "length bs < BUF_SIZE"
  shows "\<exists>kbd' d'. kbd_read True dev u [x] kbd d = ((kbd', [b], 1), d') \<and> rb_ok kbd' \<and> rb_items kbd' = bs \<and> rx d' = [] \<and> tx d' = tx d"
proof -
  obtain k1 d1 where p: "poll_loop dev u 0 kbd d = (k1, d1)" by (metis surj_pair)
  from poll_loop_spec [OF assms(1,2) _ _ p]
  have k1: "rb_ok k1" "rb_items k1 = take BUF_SIZE (b # bs)" "tx d1 = tx d"
    and rx: "rx d1 = (if rb_len kbd = 0 then drop BUF_SIZE (rx d) else drop (BUF_SIZE - rb_len kbd + 1) (rx d))"
    by (simp_all add: assms(3) BUF_SIZE_def)
  have len: "rb_len kbd + length (rx d) \<le> BUF_SIZE"
    using arg_cong [OF assms(3), of length] assms(4) by simp
  with rx have "rx d1 = []" by auto
  obtain k2 out n where r: "read_loop [x] k1 [] 0 = (k2, out, n)" by (metis surj_pair)
  have it: "rb_items k1 = b # bs" using k1(2) assms(4) by simp
  then have "rb_len k1 = Suc (length bs)" using length_rb_items [of k1] by simp
  with read_loop_spec [OF k1(1) r] it have "rb_ok k2 \<and> n = 1 \<and> out = [b] \<and> rb_items k2 = bs" by simp
  with r p k1(3) \<open>rx d1 = []\<close> show ?thesis by (simp add: kbd_read_def poll_def)
qed

text \<open>The three wrappers the shell uses, as the kernel functions behind them.\<close>

lemma shell_wrappers:
  assumes "length (tf_x tf) = 31"
  shows "user_read env cpu tf fd (ptr, len) s = sys_read env cpu fd ptr len s"
    and "user_write_bytes env cpu tf fd (ptr, len) s = sys_write env cpu fd ptr len s"
proof -
  have nz: "tf_x tf \<noteq> []" using assms by auto
  note calls = svc_dispatch nz user_wrapper_defs dispatch_syscall_def Let_def user_numbers syscall_numbers assms fst_conv snd_conv
  show "user_read env cpu tf fd (ptr, len) s = sys_read env cpu fd ptr len s" by (simp add: calls)
  show "user_write_bytes env cpu tf fd (ptr, len) s = sys_write env cpu fd ptr len s" by (simp add: calls)
qed

lemma read_step:
  assumes "on_serial env cpu rx tx busy s" and "length (tf_x tf) = 31" and "buf \<noteq> 0"
    and "pending rx s = b # bs" and "length bs < BUF_SIZE"
  shows "\<exists>s'. user_read env cpu tf (of_nat FD_STDIN) (buf, 1) s = Some (Inr (s', 1)) \<and> io_mem (sy_io s') buf = b \<and>
    on_serial env cpu rx tx busy s' \<and> pending rx s' = bs \<and> wire tx s' = wire tx s"
proof -
  let ?io = "sy_io s" and ?x = "io_mem (sy_io s) buf"
  obtain d where fd: "get_fd_current cpu FD_STDIN (sy_procs s) = Inr (Some d)" "fd_handle d = DevKbd0" "of_read (fd_flags d)"
    and free: "se_kbd_free env" and ok: "rb_ok (io_kbd ?io)" and port: "port_of (io_uart ?io) (se_dev env) rx tx busy"
    using assms(1) by (auto simp: on_serial_def)
  have fdn: "unat (of_nat FD_STDIN :: u64) = FD_STDIN" by (simp add: FD_STDIN_def)
  have one: "raw_slice (io_mem ?io) buf (Suc 0) = [?x]" by (simp add: raw_slice_def)
  obtain kbd' d' where r: "kbd_read True (se_dev env) (io_uart ?io) [?x] (io_kbd ?io) (io_dev ?io) = ((kbd', [b], 1), d')"
      "rb_ok kbd'" "rb_items kbd' = bs" "rx d' = []" "tx d' = tx (io_dev ?io)"
    using kbd_read_one [OF port ok assms(4) [unfolded pending_def] assms(5)] by blast
  let ?s' = "s\<lparr>sy_io := ?io\<lparr>io_kbd := kbd', io_dev := d', io_mem := store_slice (io_mem ?io) buf [b]\<rparr>\<rparr>"
  have "user_read env cpu tf (of_nat FD_STDIN) (buf, 1) s = Some (Inr (?s', 1))"
    using fd r(1) assms(3) free
    by (simp add: shell_wrappers [OF assms(2)] sys_read_def fdn vfs_read_def one)
  moreover have "on_serial env cpu rx tx busy ?s'" using assms(1) r(2) by (simp add: on_serial_def)
  ultimately show ?thesis using r by (intro exI [of _ ?s']) (simp add: store_slice_def pending_def)
qed

lemma write_step:
  assumes "on_serial env cpu rx tx busy s" and "length (tf_x tf) = 31" and "str \<noteq> 0" and "length bs < 2 ^ 64"
  shows "\<exists>s' r. perform env cpu tf str (Write bs) s = Some (Inr (s', r)) \<and>
    on_serial env cpu rx tx busy s' \<and> pending rx s' = pending rx s \<and> wire tx s' = wire tx s @ crlf bs"
proof -
  let ?io = "(sy_io s)\<lparr>io_mem := store_slice (io_mem (sy_io s)) str bs\<rparr>"
  obtain d where fd: "get_fd_current cpu FD_STDOUT (sy_procs s) = Inr (Some d)" "fd_handle d = DevFb0" "of_write (fd_flags d)"
    and con: "io_console (sy_io s) = None" and port: "port_of (io_uart (sy_io s)) (se_dev env) rx tx busy"
    using assms(1) by (auto simp: on_serial_def)
  have fdn: "unat (of_nat FD_STDOUT :: u64) = FD_STDOUT" by (simp add: FD_STDOUT_def)
  have len: "unat (of_nat (length bs) :: u64) = length bs" using assms(4) by (simp add: unat_of_nat)
  have perf: "perform env cpu tf str (Write bs) s =
      sys_write env cpu (of_nat FD_STDOUT) str (of_nat (length bs)) (s\<lparr>sy_io := ?io\<rparr>)"
    by (simp add: perform_def shell_wrappers [OF assms(2)])
  obtain d' where w: "uart_write_str (se_board env) (se_dev env) (io_uart (sy_io s)) bs (io_dev (sy_io s)) = Some d'"
      "rx d' = rx (io_dev (sy_io s))" "tx d' = tx (io_dev (sy_io s)) @ crlf bs"
    using uart_write_str_tx [OF port] by blast
  have no_con: "try_with_console (se_console_free env) (write_bytes bs) (None, m) = ((None, m), False)" for m
    by (simp add: try_with_console_def with_console_def)
  show ?thesis
  proof (cases "bs = []")
    case True
    then have "perform env cpu tf str (Write bs) s = Some (Inr (s\<lparr>sy_io := ?io\<rparr>, 0))" by (subst perf) (simp add: sys_write_def)
    then show ?thesis using assms(1) True by (simp add: crlf_def on_serial_def pending_def)
  next
    case False
    then have nz: "(of_nat (length bs) :: u64) \<noteq> 0" using len by (metis length_0_conv unat_0)
    have "vfs_write (se_board env) (se_dev env) (se_console_free env) d bs ?io = Some (?io\<lparr>io_dev := d'\<rparr>, length bs)"
      using fd(2,3) con w(1) by (simp add: vfs_write_def no_con)
    then have "perform env cpu tf str (Write bs) s = Some (Inr (s\<lparr>sy_io := ?io\<lparr>io_dev := d'\<rparr>\<rparr>, of_nat (length bs)))"
      using fd(1) assms(3) nz by (simp add: perf sys_write_def fdn len store_slice_read [OF assms(4)])
    then show ?thesis using assms(1) w(2,3) by (simp add: on_serial_def pending_def)
  qed
qed

section \<open>A whole session\<close>

lemma writes_run:
  assumes "on_serial env cpu rx tx busy s" and "length (tf_x tf) = 31" and "str \<noteq> 0"
    and "\<forall>c\<in>set cs. \<exists>bs. c = Write bs \<and> length bs < 2 ^ 64"
  shows "\<exists>s'. perform_all env cpu tf str cs s = Some (Inr s') \<and>
    on_serial env cpu rx tx busy s' \<and> pending rx s' = pending rx s \<and> wire tx s' = wire tx s @ crlf (text_of cs)"
  using assms(1,4)
proof (induction cs arbitrary: s)
  case Nil
  then show ?case by (simp add: crlf_def)
next
  case (Cons c cs)
  then obtain bs where c: "c = Write bs" "length bs < 2 ^ 64" by auto
  obtain s1 r where s1: "perform env cpu tf str c s = Some (Inr (s1, r))" "on_serial env cpu rx tx busy s1"
      "pending rx s1 = pending rx s" "wire tx s1 = wire tx s @ crlf bs"
    using write_step [OF Cons.prems(1) assms(2,3) c(2)] c(1) by auto
  obtain s2 where "perform_all env cpu tf str cs s1 = Some (Inr s2)" "on_serial env cpu rx tx busy s2"
      "pending rx s2 = pending rx s1" "wire tx s2 = wire tx s1 @ crlf (text_of cs)"
    using Cons.IH [OF s1(2)] Cons.prems(2) by auto
  then show ?case using s1 c(1) by (simp add: crlf_append)
qed

text \<open>A turn that read a byte only writes, and nothing longer than the line buffer.\<close>

lemma shell_iter_writes:
  assumes "shell_iter (1, b) sh = (sh', cs)" and "length (as_str (sh_line sh)) \<le> 129"
  shows "\<forall>c\<in>set cs. \<exists>bs. c = Write bs \<and> length bs < 2 ^ 64"
  using assms by (auto simp: shell_iter_def shell_byte_def end_line_def edit_line_def shell_prompt_def bytes_of_def u64_max_def
      split: prod.splits if_splits)

lemma session_turns_run:
  assumes "on_serial env cpu rx tx busy s" and "length (tf_x tf) = 31" and "buf \<noteq> 0" and "str \<noteq> 0"
    and "pending rx s = bs" and "length bs \<le> BUF_SIZE" and "length (as_str (sh_line sh)) \<le> 129"
    and "shell_loop (map (Pair 1) bs) sh = (sh', cs)"
  shows "\<exists>s'. session_turns env cpu tf buf str (length bs) sh s = Some (Inr (sh', s')) \<and>
    on_serial env cpu rx tx busy s' \<and> pending rx s' = [] \<and> wire tx s' = wire tx s @ crlf (text_of cs)"
  using assms(1,5-)
proof (induction bs arbitrary: s sh cs)
  case Nil
  then show ?case by (simp add: crlf_def)
next
  case (Cons b bs)
  obtain s1 where s1: "user_read env cpu tf (of_nat FD_STDIN) (buf, 1) s = Some (Inr (s1, 1))" "io_mem (sy_io s1) buf = b"
      "on_serial env cpu rx tx busy s1" "pending rx s1 = bs" "wire tx s1 = wire tx s"
    using read_step [OF Cons.prems(1) assms(2,3) Cons.prems(2)] Cons.prems(3) by auto
  obtain sh1 cs1 where it: "shell_iter (1, b) sh = (sh1, cs1)" by (metis surj_pair)
  obtain s2 where s2: "perform_all env cpu tf str cs1 s1 = Some (Inr s2)" "on_serial env cpu rx tx busy s2"
      "pending rx s2 = bs" "wire tx s2 = wire tx s @ crlf (text_of cs1)"
    using writes_run [OF s1(3) assms(2,4) shell_iter_writes [OF it Cons.prems(4)]] s1(4,5) by auto
  obtain cs2 where cs2: "shell_loop (map (Pair 1) bs) sh1 = (sh', cs2)" "cs = cs1 @ cs2"
    using Cons.prems(5) it by (auto split: prod.splits)
  from Cons.IH [OF s2(2,3) _ shell_iter_bounded [OF Cons.prems(4) it] cs2(1)] Cons.prems(3)
  show ?case using s1(1,2) it s2(1,4) cs2(2) by (auto simp: crlf_append)
qed

text \<open>A process with the descriptors \<open>kernel_main\<close> gives every process.\<close>

lemma standard_on_serial:
  assumes "cpu < length (CURRENT (sy_procs s))" and "CURRENT (sy_procs s) ! cpu = i" and "i < MAX_PROCS"
    and "i < length (slots (table (sy_procs s)))" and "slots (table (sy_procs s)) ! i = Some p" and "p_fds p = standard_table"
    and "io_console (sy_io s) = None" and "se_kbd_free env" and "rb_ok (io_kbd (sy_io s))"
    and "port_of (io_uart (sy_io s)) (se_dev env) rx tx busy"
  shows "on_serial env cpu rx tx busy s"
  using assms INVALID_IDX_ge [OF assms(3)]
  by (simp add: on_serial_def get_fd_current_def with_current_def standard_table_def Let_def FD_STDIN_def FD_STDOUT_def MAX_FDS_def)

lemma typed_reads [simp]: "typed (map (Pair 1) bs) = bs"
  by (induction bs) (simp_all add: u64_max_def)

section \<open>Properties\<close>


definition demo_serial_env :: "(u8 list \<times> u8 list \<times> nat, unit) sys_env" where
  "demo_serial_env = \<lparr>se_board = Qemu, se_dev = demo_port, se_clock = \<lparr>cntfrq_el0 = 0, cntpct_el0 = (\<lambda>d. (0, d))\<rparr>,
     se_heap = se_heap demo_sys_env, se_user = se_user demo_sys_env, se_el = 4, se_console_free = True, se_kbd_free = True\<rparr>"

definition demo_serial :: "procs \<Rightarrow> u8 list \<Rightarrow> (u8 list \<times> u8 list \<times> nat, unit) sys" where
  "demo_serial p bs = \<lparr>sy_procs = p, sy_io = \<lparr>io_console = None, io_mem = (\<lambda>a. 0), io_uart = demo_uart,
     io_dev = (bs, [], 3), io_kbd = rb_new\<rparr>, sy_heap = ()\<rparr>"

text \<open>The shell of a booted kernel, running on CPU 0.\<close>

lemma booted_shell:
  obtains s :: procs and p where "CURRENT s ! 0 = 0" and "0 < length (CURRENT s)" and "0 < length (slots (table s))"
    and "slots (table s) ! 0 = Some p" and "p_fds p = standard_table"
proof -
  let ?ps = "boot_processes demo_env 0x1000 0x2000"
  obtain s :: procs where b: "booted standard_table ?ps s" using boot_processes_booted by blast
  then have inv: "sched_inv s" and its: "rq_items (run_queue (table s)) = 0 # [1, 2, 3, 4]"
    by (simp_all add: booted_def upt_rec numeral_eq_Suc)
  have "0 < MAX_CPUS" by (simp add: MAX_CPUS_def)
  moreover have "slots (table s) ! 0 = Some (?ps ! 0)" and "runnable (Some (?ps ! 0))"
    using booted_slot [OF b, of 0] by simp_all
  ultimately obtain s' :: procs where "CURRENT s' = (CURRENT s)[0 := 0]" "slots (table s') = (slots (table s))[0 := Some (dispatched 0 (?ps ! 0))]"
    using start_head [OF inv _ its, of 0 "?ps ! 0" cold_regs] by blast
  moreover have "p_fds (dispatched 0 (?ps ! 0)) = standard_table"
    by (simp add: dispatched_def boot_processes_def new_process_def Let_def)
  ultimately show thesis using that [of s'] sched_inv_lengths [OF inv] by (simp add: MAX_CPUS_def MAX_PROCS_def)
qed


end
